(* ===== verification/Prelude.thy ===== *)
theory Prelude
  imports Main "HOL-Library.Word"
begin

text \<open>
  Shared vocabulary of the development: machine integers, the outcomes a C function
  can have besides returning, and the generic lemmas the component theories use.
\<close>

unbundle bit_operations_syntax

named_theorems res_simps \<open>equations that push a result through the sequencing operator\<close>
named_theorems mem_simps \<open>reads from a memory after a write\<close>

type_synonym u8 = "8 word"
type_synonym u16 = "16 word"
type_synonym u32 = "32 word"
type_synonym u64 = "64 word"
type_synonym addr = "64 word"

section \<open>Outcomes\<close>

text \<open>
  A C function either returns or ends abnormally.  \<open>AssertFailed f n\<close> is the \<open>ASSERT\<close>
  macro of the two allocator libraries failing on line \<open>n\<close> of file \<open>f\<close>; \<open>Panic s\<close> is the
  kernel's \<open>panic(s)\<close>; \<open>OutOfBounds\<close> is an access past the end of an array, which C
  leaves undefined; \<open>NullDeref\<close> is an access through a null pointer, which faults; \<open>DivByZero\<close> is
  an integer division by zero, undefined as well; \<open>Diverges\<close> stands for a call that never returns.
\<close>

datatype srcfile = Buddy_alloc_c | Slab_alloc_c

datatype cerr = AssertFailed srcfile nat | Panic string | OutOfBounds | NullDeref | DivByZero | Diverges

type_synonym 'a res = "cerr + 'a"

definition bindE :: "'e + 'a \<Rightarrow> ('a \<Rightarrow> 'e + 'b) \<Rightarrow> 'e + 'b" where
  "bindE r f = (case r of Inl e \<Rightarrow> Inl e | Inr x \<Rightarrow> f x)"

definition guardE :: "bool \<Rightarrow> 'e \<Rightarrow> 'e + 'a \<Rightarrow> 'e + 'a" where
  "guardE b e r = (if b then r else Inl e)"

text \<open>For evaluation, sequencing is the case distinction it abbreviates.\<close>

declare bindE_def [code_unfold] guardE_def [code_unfold]

lemma bindE_Inl [simp, res_simps]: "bindE (Inl e) f = Inl e"
  by (simp add: bindE_def)

lemma bindE_Inr [simp, res_simps]: "bindE (Inr x) f = f x"
  by (simp add: bindE_def)

lemma guardE_True [simp, res_simps]: "guardE True e r = r"
  by (simp add: guardE_def)

lemma guardE_False [simp, res_simps]: "guardE False e r = Inl e"
  by (simp add: guardE_def)

lemma bindE_eq_Inr: "bindE r f = Inr y \<longleftrightarrow> (\<exists>x. r = Inr x \<and> f x = Inr y)"
  by (cases r) auto

lemma guardE_eq_Inr: "guardE b e r = Inr y \<longleftrightarrow> b \<and> r = Inr y"
  by (simp add: guardE_def)

lemma bindE_assoc: "bindE (bindE r f) g = bindE r (\<lambda>x. bindE (f x) g)"
  by (cases r) auto

text \<open>A counted loop \<open>for (i = 0; i < n; i++)\<close> whose body may end abnormally.\<close>

fun foldE :: "('i \<Rightarrow> 's \<Rightarrow> 'e + 's) \<Rightarrow> 'i list \<Rightarrow> 's \<Rightarrow> 'e + 's" where
  "foldE f [] s = Inr s"
| "foldE f (i # is) s = bindE (f i s) (foldE f is)"

lemma foldE_append: "foldE f (xs @ ys) s = bindE (foldE f xs s) (foldE f ys)"
  by (induction xs arbitrary: s) (auto simp: bindE_def split: sum.splits)

section \<open>C integer conversions\<close>

text \<open>
  A C \<open>int\<close> is a HOL \<open>int\<close>.  Converting a 64-bit unsigned value to \<open>int\<close> keeps the low
  32 bits as two's complement; converting an \<open>int\<close> to \<open>uint64\<close> sign-extends, which is
  \<open>word_of_int\<close>.
\<close>

definition i32_of_u64 :: "u64 \<Rightarrow> int" where
  "i32_of_u64 w = signed_take_bit 31 (uint w)"

text \<open>
  The \<open>int\<close> expression \<open>1 << n\<close>.  C defines it for \<open>n < 31\<close> only; for larger
  shift counts this is what both machines the code is built for (RV64 and x86-64) compute: the
  count is taken modulo 32 and the result is a 32-bit two's complement value.
\<close>

definition int_shl1 :: "int \<Rightarrow> int" where
  "int_shl1 n = signed_take_bit 31 (push_bit (nat (n mod 32)) 1)"

text \<open>Reading a \<open>char\<close> as \<open>int\<close>: the language leaves the signedness of plain \<open>char\<close> to the
  implementation.\<close>

definition int_of_char :: "bool \<Rightarrow> u8 \<Rightarrow> int" where
  "int_of_char char_signed b = (if char_signed then sint b else uint b)"

lemma unat_suc_less:
  fixes i n :: "'a::len word"
  assumes "i < n"
  shows "unat (i + 1) = unat i + 1"
proof -
  have "unat n < 2 ^ LENGTH('a)" by (rule unsigned_less)
  moreover have "unat i < unat n" using assms by (simp add: word_less_nat_alt)
  ultimately have "unat i + 1 < 2 ^ LENGTH('a)" by linarith
  then show ?thesis by (simp add: unat_word_ariths)
qed

lemma i32_fits:
  fixes x :: int
  assumes "0 \<le> x" and "x < 2 ^ 31"
  shows "signed_take_bit 31 x = x"
  by (rule signed_take_bit_int_eq_self) (use assms in simp_all)

lemma i32_of_u64_small:
  assumes "unat w < 2 ^ 31"
  shows "i32_of_u64 w = int (unat w)"
proof -
  have "int (unat w) < int (2 ^ 31)" using assms by (rule of_nat_less_iff [THEN iffD2])
  then show ?thesis unfolding i32_of_u64_def uint_nat by (intro i32_fits) simp_all
qed

lemma int_shl1_small:
  assumes "n < 31"
  shows "int_shl1 (int n) = 2 ^ n"
proof -
  have "(2::int) ^ n < 2 ^ 31" using assms by (intro power_strict_increasing) auto
  moreover have "nat (int n mod 32) = n" using assms by simp
  ultimately show ?thesis by (simp add: int_shl1_def push_bit_eq_mult i32_fits)
qed

section \<open>Word arithmetic without wrap-around\<close>

lemma unat_of_nat_small: "n < 2 ^ 64 \<Longrightarrow> unat (of_nat n :: u64) = n"
  by (simp add: unat_of_nat)

lemma unat_mult_of_nat:
  assumes "unat (w :: u64) * n < 2 ^ 64" and "n < 2 ^ 64"
  shows "unat (w * of_nat n) = unat w * n"
proof -
  have n: "unat (of_nat n :: u64) = n" using assms(2) by (rule unat_of_nat_small)
  have "unat w * unat (of_nat n :: u64) < 2 ^ LENGTH(64)" using assms(1) n by simp
  then have "unat (w * of_nat n) = unat w * unat (of_nat n :: u64)"
    by (rule iffD1 [OF unat_mult_lem])
  then show ?thesis using n by simp
qed

lemma unat_add_no_wrap:
  assumes "unat (x :: u64) + unat y < 2 ^ 64"
  shows "unat (x + y) = unat x + unat y"
  using assms unat_add_lem [where 'a = 64, of x y] by simp

lemma unat_add_no_wrap32:
  assumes "unat (x :: u32) + unat y < 2 ^ 32"
  shows "unat (x + y) = unat x + unat y"
  using assms unat_add_lem [where 'a = 32, of x y] by simp

lemma unat_of_nat_u32: "n < 2 ^ 32 \<Longrightarrow> unat (of_nat n :: u32) = n"
  by (simp add: unat_of_nat)

lemma ucast_of_nat_u32:
  assumes "n < 2 ^ 32"
  shows "(ucast (of_nat n :: u32) :: u64) = of_nat n"
proof -
  have "unat (ucast (of_nat n :: u32) :: u64) = n"
    using assms by (simp add: unsigned_ucast_eq unat_of_nat_u32 take_bit_nat_eq_self)
  then show ?thesis
    using assms by (simp add: word_unat_eq_iff unat_of_nat_small)
qed

lemma unat_add_of_nat:
  assumes "unat (x :: u64) + n < 2 ^ 64"
  shows "unat (x + of_nat n) = unat x + n"
proof -
  have "unat (of_nat n :: u64) = n" using assms by (intro unat_of_nat_small) simp
  then show ?thesis using assms unat_add_no_wrap [of x "of_nat n"] by simp
qed

lemma unat_pow2_u64:
  assumes "n < 64"
  shows "unat ((2 :: u64) ^ n) = 2 ^ n"
proof -
  have "(2 :: nat) ^ n < 2 ^ 64" using assms by (intro power_strict_increasing) simp_all
  then have "unat (of_nat (2 ^ n) :: u64) = 2 ^ n" by (rule unat_of_nat_small)
  then show ?thesis by simp
qed

end
