(* ===== verification/Buddy.thy ===== *)
theory Buddy
  imports Prelude
begin

text \<open>
  The buddy allocator library, lib/buddy_alloc: the structs of buddy\_alloc.h and every
  function of buddy\_alloc.c, in the order of the file.  Memory is one map per struct field,
  indexed by the address of the struct, and a byte map for \<open>state_table\<close>.
\<close>

section \<open>Data\<close>

text \<open>
  \<open>buddy_free_block_t\<close> has the fields next, prev, list and level; \<open>buddy_list_t\<close> is a head block
  at offset 0 followed by \<open>len\<close>, so \<open>&list->head\<close> and \<open>list\<close> are the same address.
\<close>

record buddy_heap =
  fb_next :: "addr \<Rightarrow> addr"
  fb_prev :: "addr \<Rightarrow> addr"
  fb_list :: "addr \<Rightarrow> addr"
  fb_level :: "addr \<Rightarrow> int"
  bl_len :: "addr \<Rightarrow> u64"
  mem_byte :: "addr \<Rightarrow> u8"

definition sizeof_free_block :: u64 where
  "sizeof_free_block = 32"

definition sizeof_buddy_list :: u64 where
  "sizeof_buddy_list = 40"

definition BUDDY_NOTHING :: int where
  "BUDDY_NOTHING = -1"

record buddy_allocator =
  b_levels :: int
  b_pgsize :: u64
  b_lists :: addr
  b_state_table :: addr
  b_pages :: u64
  b_data :: addr

section \<open>List operations\<close>

definition list_init :: "addr \<Rightarrow> int \<Rightarrow> buddy_heap \<Rightarrow> buddy_heap" where
  "list_init list level m = m
     \<lparr> fb_prev := (fb_prev m)(list := 0),
       fb_next := (fb_next m)(list := 0),
       fb_list := (fb_list m)(list := list),
       fb_level := (fb_level m)(list := level),
       bl_len := (bl_len m)(list := 0) \<rparr>"

definition insert_block :: "addr \<Rightarrow> addr \<Rightarrow> buddy_heap \<Rightarrow> buddy_heap res" where
  "insert_block base_block new_block m =
    (let list = fb_list m base_block in
     guardE (fb_level m list = fb_level m base_block) (AssertFailed Buddy_alloc_c 58)
      (let m1 = m \<lparr> fb_level := (fb_level m)(new_block := fb_level m list) \<rparr>;
           m2 = m1 \<lparr> fb_list := (fb_list m1)(new_block := list) \<rparr>;
           m3 = m2 \<lparr> fb_prev := (fb_prev m2)(new_block := base_block) \<rparr>;
           m4 = m3 \<lparr> fb_next := (fb_next m3)(new_block := fb_next m3 base_block) \<rparr>;
           m5 = m4 \<lparr> fb_next := (fb_next m4)(base_block := new_block) \<rparr>
       in Inr (m5 \<lparr> bl_len := (bl_len m5)(list := bl_len m5 list + 1) \<rparr>)))"

definition remove_block :: "addr \<Rightarrow> buddy_heap \<Rightarrow> buddy_heap res" where
  "remove_block block m =
    (let list = fb_list m block in
     guardE (block \<noteq> list) (AssertFailed Buddy_alloc_c 72)
      (guardE (fb_prev m block \<noteq> 0) (AssertFailed Buddy_alloc_c 74)
        (guardE (0 < bl_len m list) (AssertFailed Buddy_alloc_c 75)
          (let prev = fb_prev m block;
               next = fb_next m block;
               m1 = m \<lparr> fb_next := (fb_next m)(prev := next) \<rparr>;
               m2 = (if next \<noteq> 0 then m1 \<lparr> fb_prev := (fb_prev m1)(next := prev) \<rparr> else m1)
           in Inr (m2 \<lparr> bl_len := (bl_len m2)(list := bl_len m2 list - 1) \<rparr>)))))"

definition list_add :: "addr \<Rightarrow> addr \<Rightarrow> buddy_heap \<Rightarrow> buddy_heap res" where
  "list_add list new_block m = insert_block list new_block m"

text \<open>\<open>&mem->lists[i]\<close>: an index outside the array of \<open>levels\<close> lists is out of bounds.\<close>

definition list_addr :: "buddy_allocator \<Rightarrow> int \<Rightarrow> addr" where
  "list_addr mem i = b_lists mem + sizeof_buddy_list * word_of_int i"

definition list_at :: "buddy_allocator \<Rightarrow> int \<Rightarrow> addr res" where
  "list_at mem i =
     (if 0 \<le> i \<and> i < b_levels mem then Inr (list_addr mem i) else Inl OutOfBounds)"

section \<open>Addresses and page numbers\<close>

definition get_page_number :: "buddy_allocator \<Rightarrow> addr \<Rightarrow> int" where
  "get_page_number mem page_ptr =
    (let d = i32_of_u64 (page_ptr - b_data mem) in
     if word_of_int d mod b_pgsize mem \<noteq> 0 then -1
     else
      (let res = i32_of_u64 (word_of_int d div b_pgsize mem) in
       if \<not> (0 \<le> res \<and> word_of_int res < b_pages mem) then -1 else res))"

definition get_page_ptr :: "buddy_allocator \<Rightarrow> int \<Rightarrow> addr" where
  "get_page_ptr mem page_number =
    (if \<not> (0 \<le> page_number \<and> word_of_int page_number < b_pages mem) then 0
     else b_data mem + b_pgsize mem * word_of_int page_number)"

section \<open>Initialisation\<close>

definition get_serv_pages :: "int \<Rightarrow> u64 \<Rightarrow> u64 \<Rightarrow> u64" where
  "get_serv_pages levels pgsize pages =
    (let serv_size = word_of_int levels * sizeof_buddy_list + pages in serv_size div pgsize + 1)"

definition set_state :: "buddy_allocator \<Rightarrow> u64 \<Rightarrow> int \<Rightarrow> buddy_heap \<Rightarrow> buddy_heap" where
  "set_state mem i v m =
     m \<lparr> mem_byte := (mem_byte m)(b_state_table mem + i := word_of_int v) \<rparr>"

definition init_state_table :: "buddy_allocator \<Rightarrow> buddy_heap \<Rightarrow> buddy_heap" where
  "init_state_table mem m =
     fold (\<lambda>i. set_state mem (of_nat i) BUDDY_NOTHING) [0..<unat (b_pages mem)] m"

text \<open>The loop of \<open>init_lists\<close> over the blocks of the top level.\<close>

definition init_top_step ::
  "buddy_allocator \<Rightarrow> addr \<Rightarrow> int \<Rightarrow> addr \<times> u64 \<times> buddy_heap \<Rightarrow> (addr \<times> u64 \<times> buddy_heap) res" where
  "init_top_step mem list lvl = (\<lambda>(curr_page, pages, m).
     bindE (list_add list curr_page m) (\<lambda>m'.
       Inr (curr_page + word_of_int (int_shl1 lvl) * b_pgsize mem,
            pages - word_of_int (int_shl1 lvl), m')))"

text \<open>The loop \<open>while(lvl > 0)\<close> of \<open>init_lists\<close>; \<open>list\<close> moves down one struct per round.\<close>

fun init_lower ::
  "buddy_allocator \<Rightarrow> nat \<Rightarrow> addr \<Rightarrow> addr \<times> u64 \<times> buddy_heap \<Rightarrow> (addr \<times> u64 \<times> buddy_heap) res" where
  "init_lower mem 0 list s = Inr s"
| "init_lower mem (Suc lvl) list (curr_page, pages, m) =
    (let list' = list - sizeof_buddy_list;
         m' = list_init list' (int lvl) m
     in bindE
         (if word_of_int (int_shl1 (int lvl)) \<le> pages
          then init_top_step mem list' (int lvl) (curr_page, pages, m')
          else Inr (curr_page, pages, m'))
         (\<lambda>(curr_page', pages', m'').
            guardE (pages' < word_of_int (int_shl1 (int lvl))) (AssertFailed Buddy_alloc_c 162)
              (init_lower mem lvl list' (curr_page', pages', m''))))"

definition init_lists :: "buddy_allocator \<Rightarrow> buddy_heap \<Rightarrow> buddy_heap res" where
  "init_lists mem m =
    (let lvl = b_levels mem - 1;
         list = list_addr mem lvl;
         m' = list_init list lvl m;
         top_lvl_count = drop_bit (nat (lvl mod 64)) (b_pages mem)
     in bindE
         (foldE (\<lambda>_. init_top_step mem list lvl) [0..<unat top_lvl_count]
            (b_data mem, b_pages mem, m'))
         (\<lambda>(curr_page, pages, m'').
            guardE (pages < word_of_int (int_shl1 lvl)) (AssertFailed Buddy_alloc_c 150)
              (bindE (init_lower mem (nat lvl) list (curr_page, pages, m''))
                 (\<lambda>(_, _, m'''). Inr m'''))))"

definition lib_buddy_init ::
  "buddy_allocator \<Rightarrow> int \<Rightarrow> u64 \<Rightarrow> u64 \<Rightarrow> addr \<Rightarrow> buddy_heap \<Rightarrow>
     (int \<times> buddy_allocator \<times> buddy_heap) res" where
  "lib_buddy_init mem levels pgsize pages ptr m =
    guardE (levels > 0) (AssertFailed Buddy_alloc_c 172)
     (if sizeof_free_block > pgsize then Inr (-1, mem, m)
      else
       (let mem1 = mem \<lparr> b_levels := levels, b_pgsize := pgsize \<rparr>;
            serv_pages = get_serv_pages levels pgsize pages
        in if serv_pages > pages then Inr (-1, mem1, m)
           else
            (let mem2 = mem1 \<lparr> b_lists := ptr,
                                b_state_table := ptr + sizeof_buddy_list * word_of_int levels,
                                b_pages := pages - serv_pages,
                                b_data := ptr + serv_pages * pgsize \<rparr>
             in bindE (init_lists mem2 (init_state_table mem2 m))
                  (\<lambda>m'. Inr (0, mem2, m')))))"

section \<open>Allocation\<close>

fun buddy_log2_from :: "u64 \<Rightarrow> nat \<Rightarrow> int \<Rightarrow> int" where
  "buddy_log2_from n 0 log = -1"
| "buddy_log2_from n (Suc k) log =
     (if n = word_of_int (int_shl1 log) then log else buddy_log2_from n k (log + 1))"

definition buddy_log2 :: "u64 \<Rightarrow> int" where
  "buddy_log2 n = buddy_log2_from n 64 0"

function find_free_block :: "buddy_allocator \<Rightarrow> int \<Rightarrow> buddy_heap \<Rightarrow> addr" where
  "find_free_block mem lvl m =
    (if lvl < b_levels mem then
       (let list = list_addr mem lvl in
        if 0 < bl_len m list then fb_next m list
        else find_free_block mem (lvl + 1) m)
     else 0)"
  by pat_completeness auto
termination
  by (relation "measure (\<lambda>(mem, lvl, m). nat (b_levels mem - lvl))") auto

declare find_free_block.simps [simp del]

function buddy_devide_loop ::
  "buddy_allocator \<Rightarrow> addr \<Rightarrow> int \<Rightarrow> int \<Rightarrow> buddy_heap \<Rightarrow> buddy_heap res" where
  "buddy_devide_loop mem free_block final_lvl initial_lvl m =
    (if initial_lvl > final_lvl then
       (let lvl = initial_lvl - 1;
            second_part = free_block + push_bit (nat (lvl mod 64)) (b_pgsize mem)
        in bindE (list_at mem lvl) (\<lambda>list.
             bindE (list_add list second_part m)
               (buddy_devide_loop mem free_block final_lvl lvl)))
     else Inr m)"
  by pat_completeness auto
termination
  by (relation "measure (\<lambda>(mem, b, f, i, m). nat (i - f))") auto

declare buddy_devide_loop.simps [simp del]

definition buddy_devide ::
  "buddy_allocator \<Rightarrow> addr \<Rightarrow> int \<Rightarrow> buddy_heap \<Rightarrow> (addr \<times> buddy_heap) res" where
  "buddy_devide mem free_block final_lvl m =
    (let initial_lvl = fb_level m free_block in
     guardE (initial_lvl \<ge> final_lvl) (AssertFailed Buddy_alloc_c 230)
      (bindE (remove_block free_block m) (\<lambda>m1.
         bindE (buddy_devide_loop mem free_block final_lvl initial_lvl m1) (\<lambda>m2.
           Inr (free_block, m2)))))"

definition lib_buddy_alloc ::
  "buddy_allocator \<Rightarrow> u64 \<Rightarrow> buddy_heap \<Rightarrow> (addr \<times> buddy_heap) res" where
  "lib_buddy_alloc mem pages m =
    (let lvl = buddy_log2 pages in
     if lvl = -1 then Inr (0, m)
     else guardE (pages = word_of_int (int_shl1 lvl)) (AssertFailed Buddy_alloc_c 259)
      (if lvl \<ge> b_levels mem then Inr (0, m)
       else
        (let free_block = find_free_block mem lvl m in
         if free_block = 0 then Inr (0, m)
         else guardE (fb_level m free_block \<ge> lvl) (AssertFailed Buddy_alloc_c 267)
          (bindE (buddy_devide mem free_block lvl m) (\<lambda>(res_block, m').
            (let pn = get_page_number mem res_block in
             guardE (pn \<ge> 0) (AssertFailed Buddy_alloc_c 274)
               (Inr (res_block, set_state mem (word_of_int pn) lvl m'))))))))"

section \<open>Release\<close>

definition block_exists :: "buddy_allocator \<Rightarrow> int \<Rightarrow> int \<Rightarrow> bool" where
  "block_exists mem pn lvl \<longleftrightarrow>
    (if \<not> (0 \<le> lvl \<and> lvl < b_levels mem) then False
     else if pn AND (int_shl1 lvl - 1) \<noteq> 0 then False
     else if \<not> (0 \<le> pn \<and> word_of_int (pn + int_shl1 lvl) \<le> b_pages mem) then False
     else True)"

definition get_state :: "bool \<Rightarrow> buddy_allocator \<Rightarrow> u64 \<Rightarrow> buddy_heap \<Rightarrow> int" where
  "get_state char_signed mem i m = int_of_char char_signed (mem_byte m (b_state_table mem + i))"

function add_free_block_loop ::
  "bool \<Rightarrow> buddy_allocator \<Rightarrow> u64 \<Rightarrow> int \<Rightarrow> buddy_heap \<Rightarrow> (u64 \<times> int \<times> buddy_heap) res" where
  "add_free_block_loop char_signed mem pn lvl m =
    (if lvl < b_levels mem then
       guardE (block_exists mem (i32_of_u64 pn) lvl) (AssertFailed Buddy_alloc_c 320)
        (let npn = pn XOR push_bit (nat (lvl mod 64)) 1 in
         if \<not> block_exists mem (i32_of_u64 npn) lvl then Inr (pn, lvl, m)
         else if get_state char_signed mem npn m \<noteq> BUDDY_NOTHING then Inr (pn, lvl, m)
         else
          (let free_block = get_page_ptr mem (i32_of_u64 npn) in
           guardE (fb_level m free_block \<le> lvl) (AssertFailed Buddy_alloc_c 331)
            (if fb_level m free_block < lvl then Inr (pn, lvl, m)
             else bindE (remove_block free_block m) (\<lambda>m'.
                    add_free_block_loop char_signed mem (if npn < pn then npn else pn)
                      (lvl + 1) m'))))
     else Inr (pn, lvl, m))"
  by pat_completeness auto
termination
  by (relation "measure (\<lambda>(c, mem, pn, lvl, m). nat (b_levels mem - lvl))") auto

declare add_free_block_loop.simps [simp del]

definition add_free_block ::
  "bool \<Rightarrow> buddy_allocator \<Rightarrow> u64 \<Rightarrow> int \<Rightarrow> buddy_heap \<Rightarrow> buddy_heap res" where
  "add_free_block char_signed mem pn lvl m =
    guardE (lvl < b_levels mem) (AssertFailed Buddy_alloc_c 316)
     (guardE (block_exists mem (i32_of_u64 pn) lvl) (AssertFailed Buddy_alloc_c 317)
       (bindE (add_free_block_loop char_signed mem pn lvl m) (\<lambda>(pn', lvl', m').
          bindE (list_at mem lvl') (\<lambda>list.
            list_add list (get_page_ptr mem (i32_of_u64 pn')) m'))))"

definition lib_buddy_free ::
  "bool \<Rightarrow> buddy_allocator \<Rightarrow> addr \<Rightarrow> buddy_heap \<Rightarrow> buddy_heap res" where
  "lib_buddy_free char_signed mem addr m =
    (let pn = get_page_number mem addr in
     guardE (pn \<noteq> -1) (Panic ''buddy_free - address is not correct!'')
      (let lvl = get_state char_signed mem (word_of_int pn) m in
       guardE (lvl \<ge> 0) (Panic ''buddy_free - address is not correct!'')
        (guardE (lvl < b_levels mem) (AssertFailed Buddy_alloc_c 367)
          (add_free_block char_signed mem (word_of_int pn) lvl
             (set_state mem (word_of_int pn) BUDDY_NOTHING m)))))"

section \<open>Statistics\<close>

definition stat_step ::
  "buddy_allocator \<Rightarrow> buddy_heap \<Rightarrow> nat \<Rightarrow> u64 \<times> u64 list \<Rightarrow> u64 \<times> u64 list" where
  "stat_step mem m lvl = (\<lambda>(free_pages, free_by_size).
     (let count = bl_len m (list_addr mem (int lvl)) in
      (free_pages + push_bit (lvl mod 64) count, free_by_size @ [count])))"

text \<open>
  The three results are written through pointers that may be null; here they are returned:
  \<open>*total\<close>, \<open>*free\<close> and the first \<open>levels\<close> entries of \<open>free_by_size\<close>.
\<close>

definition lib_buddy_stat :: "buddy_allocator \<Rightarrow> buddy_heap \<Rightarrow> u64 \<times> u64 \<times> u64 list" where
  "lib_buddy_stat mem m =
    (let serv_pages = i32_of_u64 ((b_data mem - b_lists mem) div b_pgsize mem);
         total = b_pages mem + word_of_int serv_pages;
         (free_pages, free_by_size) = fold (stat_step mem m) [0..<nat (b_levels mem)] (0, [])
     in (total, free_pages, free_by_size))"

end
