(* ===== verification/Buddy_Layout.thy ===== *)
theory Buddy_Layout
  imports Buddy
begin

text \<open>
  The address arithmetic of the allocator: where list heads, table bytes and pages lie, and
  that page numbers and page addresses correspond.
\<close>

section \<open>Well-formed allocator descriptors\<close>

definition npages :: "buddy_allocator \<Rightarrow> nat" where
  "npages a = unat (b_pages a)"

definition nlevels :: "buddy_allocator \<Rightarrow> nat" where
  "nlevels a = nat (b_levels a)"

definition pg :: "buddy_allocator \<Rightarrow> nat \<Rightarrow> addr" where
  "pg a i = b_data a + b_pgsize a * of_nat i"

definition hd_at :: "buddy_allocator \<Rightarrow> nat \<Rightarrow> addr" where
  "hd_at a l = list_addr a (int l)"

definition st_at :: "buddy_allocator \<Rightarrow> nat \<Rightarrow> addr" where
  "st_at a i = b_state_table a + of_nat i"

definition wf_alloc :: "buddy_allocator \<Rightarrow> bool" where
  "wf_alloc a \<longleftrightarrow>
     0 < b_levels a \<and> b_levels a \<le> 31 \<and>
     32 \<le> unat (b_pgsize a) \<and>
     0 < unat (b_lists a) \<and>
     b_state_table a = b_lists a + sizeof_buddy_list * word_of_int (b_levels a) \<and>
     unat (b_lists a) + 40 * nlevels a + npages a \<le> unat (b_data a) \<and>
     unat (b_data a) + unat (b_pgsize a) * npages a < 2 ^ 64 \<and>
     unat (b_pgsize a) * npages a < 2 ^ 31"

lemma wf_allocD:
  assumes "wf_alloc a"
  shows "0 < nlevels a" and "nlevels a \<le> 31" and "b_levels a = int (nlevels a)"
    and "32 \<le> unat (b_pgsize a)"
    and "0 < unat (b_lists a)"
    and "b_state_table a = b_lists a + sizeof_buddy_list * of_nat (nlevels a)"
    and "unat (b_lists a) + 40 * nlevels a + npages a \<le> unat (b_data a)"
    and "unat (b_data a) + unat (b_pgsize a) * npages a < 2 ^ 64"
    and "unat (b_pgsize a) * npages a < 2 ^ 31"
    and "npages a < 2 ^ 26"
proof -
  show "unat (b_lists a) + 40 * nlevels a + npages a \<le> unat (b_data a)"
    and "unat (b_data a) + unat (b_pgsize a) * npages a < 2 ^ 64"
    and s: "unat (b_pgsize a) * npages a < 2 ^ 31"
    and p: "32 \<le> unat (b_pgsize a)" and "0 < unat (b_lists a)"
    using assms by (simp_all add: wf_alloc_def)
  show "0 < nlevels a" "nlevels a \<le> 31" "b_levels a = int (nlevels a)"
    using assms by (auto simp: wf_alloc_def nlevels_def)
  then show "b_state_table a = b_lists a + sizeof_buddy_list * of_nat (nlevels a)"
    using assms by (simp add: wf_alloc_def)
  have "32 * npages a \<le> unat (b_pgsize a) * npages a"
    using p by (rule mult_le_mono1)
  then have "32 * npages a < 2 ^ 31" using s by (rule le_less_trans)
  then show "npages a < 2 ^ 26" by simp
qed

section \<open>Addresses of pages, heads and table bytes\<close>

lemma unat_pg:
  assumes "wf_alloc a" and "i \<le> npages a"
  shows "unat (pg a i) = unat (b_data a) + unat (b_pgsize a) * i"
proof -
  note wf = wf_allocD [OF assms(1)]
  have si: "unat (b_pgsize a) * i \<le> unat (b_pgsize a) * npages a"
    using assms(2) by (rule mult_le_mono2)
  have "unat (b_data a) + unat (b_pgsize a) * i < 2 ^ 64"
    using si wf(8) by linarith
  moreover from this have "unat (b_pgsize a * of_nat i) = unat (b_pgsize a) * i"
    using wf(10) assms(2) by (intro unat_mult_of_nat) simp_all
  ultimately show ?thesis by (simp add: pg_def unat_add_no_wrap)
qed

lemma unat_hd_at:
  assumes "wf_alloc a" and "l \<le> nlevels a"
  shows "unat (hd_at a l) = unat (b_lists a) + 40 * l"
proof -
  note wf = wf_allocD [OF assms(1)]
  have u40: "unat (40 :: u64) = 40" by simp
  have "unat ((40 :: u64) * of_nat l) = unat (40 :: u64) * l"
    using assms(2) wf(2) by (intro unat_mult_of_nat) (simp_all add: u40)
  moreover have "unat (b_lists a) + 40 * l < 2 ^ 64"
    using wf(7,8) assms(2) by simp
  ultimately show ?thesis
    by (simp add: hd_at_def list_addr_def sizeof_buddy_list_def unat_add_no_wrap)
qed

lemma unat_st_at:
  assumes "wf_alloc a" and "i \<le> npages a"
  shows "unat (st_at a i) = unat (b_lists a) + 40 * nlevels a + i"
proof -
  note wf = wf_allocD [OF assms(1)]
  have "st_at a i = hd_at a (nlevels a) + of_nat i"
    using wf(6) by (simp add: st_at_def hd_at_def list_addr_def)
  moreover have "unat (of_nat i :: u64) = i"
    using assms(2) wf(10) by (intro unat_of_nat_small) simp
  moreover have "unat (hd_at a (nlevels a)) + i < 2 ^ 64"
    using unat_hd_at [OF assms(1), of "nlevels a"] wf(7,8) assms(2) by simp
  ultimately show ?thesis
    using unat_hd_at [OF assms(1), of "nlevels a"] by (simp add: unat_add_no_wrap)
qed

section \<open>Addresses are distinct\<close>

lemma pg_inj:
  assumes "wf_alloc a" and "i < npages a" and "j < npages a"
  shows "pg a i = pg a j \<longleftrightarrow> i = j"
proof
  assume "pg a i = pg a j"
  then have "unat (pg a i) = unat (pg a j)" by simp
  then show "i = j"
    using unat_pg [OF assms(1)] assms(2,3) wf_allocD(4) [OF assms(1)] by simp
qed simp

lemma hd_at_inj:
  assumes "wf_alloc a" and "k < nlevels a" and "l < nlevels a"
  shows "hd_at a k = hd_at a l \<longleftrightarrow> k = l"
proof
  assume "hd_at a k = hd_at a l"
  then have "unat (hd_at a k) = unat (hd_at a l)" by simp
  then show "k = l" using unat_hd_at [OF assms(1)] assms(2,3) by simp
qed simp

lemma st_at_inj:
  assumes "wf_alloc a" and "i < npages a" and "j < npages a"
  shows "st_at a i = st_at a j \<longleftrightarrow> i = j"
proof
  assume "st_at a i = st_at a j"
  then have "unat (st_at a i) = unat (st_at a j)" by simp
  then show "i = j" using unat_st_at [OF assms(1)] assms(2,3) by simp
qed simp

lemma pg_not_hd:
  assumes "wf_alloc a" and "i < npages a" and "l < nlevels a"
  shows "pg a i \<noteq> hd_at a l"
proof
  assume "pg a i = hd_at a l"
  then have "unat (pg a i) = unat (hd_at a l)" by simp
  then show False
    using unat_pg [OF assms(1), of i] unat_hd_at [OF assms(1), of l] assms(2,3)
      wf_allocD(7) [OF assms(1)] by simp
qed

lemma pg_nonzero:
  assumes "wf_alloc a" and "i < npages a"
  shows "pg a i \<noteq> 0"
proof
  assume "pg a i = 0"
  then have "unat (pg a i) = 0" by simp
  then show False
    using unat_pg [OF assms(1), of i] assms(2) wf_allocD(5,7) [OF assms(1)] by simp
qed

lemma hd_nonzero:
  assumes "wf_alloc a" and "l < nlevels a"
  shows "hd_at a l \<noteq> 0"
proof
  assume "hd_at a l = 0"
  then have "unat (hd_at a l) = 0" by simp
  then show False
    using unat_hd_at [OF assms(1), of l] assms(2) wf_allocD(5) [OF assms(1)] by simp
qed

section \<open>Page numbers and page addresses\<close>

lemma get_page_number_pg:
  assumes "wf_alloc a" and "i < npages a"
  shows "get_page_number a (pg a i) = int i"
proof -
  note wf = wf_allocD [OF assms(1)]
  have d: "pg a i - b_data a = b_pgsize a * of_nat i" by (simp add: pg_def)
  have "unat (b_pgsize a) * i \<le> unat (b_pgsize a) * npages a"
    using assms(2) by (intro mult_le_mono2) simp
  then have lt: "unat (b_pgsize a) * i < 2 ^ 31"
    using wf(9) by (rule le_less_trans)
  have u: "unat (b_pgsize a * of_nat i) = unat (b_pgsize a) * i"
    using lt assms(2) wf(10) by (intro unat_mult_of_nat) simp_all
  have i32: "i32_of_u64 (b_pgsize a * of_nat i) = int (unat (b_pgsize a) * i)"
    using i32_of_u64_small [of "b_pgsize a * of_nat i"] u lt by simp
  have w: "word_of_int (int (unat (b_pgsize a) * i)) = b_pgsize a * of_nat i"
    by simp
  have pos: "0 < unat (b_pgsize a)" using wf(4) by simp
  have ui: "unat (of_nat i :: u64) = i"
    using wf(10) assms(2) by (intro unat_of_nat_small) simp
  have "unat (b_pgsize a * of_nat i mod b_pgsize a) = 0"
    by (simp add: unat_mod_distrib u)
  then have m: "b_pgsize a * of_nat i mod b_pgsize a = 0"
    by (simp only: word_unat_eq_iff unat_0)
  have "unat (b_pgsize a * of_nat i div b_pgsize a) = i"
    using pos by (simp add: unat_div u)
  then have q: "b_pgsize a * of_nat i div b_pgsize a = of_nat i"
    using ui by (simp only: word_unat_eq_iff)
  have "i32_of_u64 (of_nat i) = int i"
    using i32_of_u64_small [of "of_nat i"] ui wf(10) assms(2) by simp
  moreover have "(of_nat i :: u64) < b_pages a"
    using ui assms(2) by (simp add: word_less_nat_alt npages_def)
  ultimately show ?thesis
    unfolding get_page_number_def Let_def d i32 w m q by simp
qed

lemma get_page_ptr_pg:
  assumes "wf_alloc a" and "i < npages a"
  shows "get_page_ptr a (int i) = pg a i"
proof -
  have "unat (of_nat i :: u64) = i"
    using wf_allocD(10) [OF assms(1)] assms(2) by (intro unat_of_nat_small) simp
  then have "(of_nat i :: u64) < b_pages a"
    using assms(2) by (simp add: word_less_nat_alt npages_def)
  then show ?thesis by (simp add: get_page_ptr_def pg_def)
qed

lemma get_page_number_range:
  assumes "get_page_number a x \<noteq> -1"
  shows "\<exists>i < npages a. get_page_number a x = int i"
proof -
  define r where "r = get_page_number a x"
  have r: "0 \<le> r" "word_of_int r < b_pages a"
    and r2: "\<exists>w. r = i32_of_u64 w"
    using assms unfolding r_def get_page_number_def Let_def by (auto split: if_splits)
  obtain w where w: "r = i32_of_u64 w" using r2 by blast
  have "r < 2 ^ 31" unfolding w i32_of_u64_def by (rule signed_take_bit_int_less_exp)
  then have "nat r < 2 ^ 64" by simp
  then have "unat (word_of_int r :: u64) = nat r"
    using r(1) by (metis int_nat_eq of_int_of_nat_eq unat_of_nat_small)
  then have "nat r < npages a" using r(2) by (simp add: word_less_nat_alt npages_def)
  then show ?thesis using r(1) unfolding r_def by (metis int_nat_eq)
qed

lemma pg_split: "pg a i + push_bit l (b_pgsize a) = pg a (i + 2 ^ l)"
  by (simp add: pg_def push_bit_eq_mult algebra_simps)

end
