(* ===== verification/Buddy_Blocks.thy ===== *)
theory Buddy_Blocks
  imports Prelude
begin

text \<open>
  The geometry of buddy blocks, on page numbers: a block is a pair of its first page and its
  level; a set of blocks tiles the page range when the blocks are aligned, pairwise disjoint
  and cover it.
\<close>

type_synonym block = "nat \<times> nat"

definition cells :: "block \<Rightarrow> nat set" where
  "cells b = {fst b ..< fst b + 2 ^ snd b}"

definition aligned :: "nat \<Rightarrow> nat \<Rightarrow> block \<Rightarrow> bool" where
  "aligned N L b \<longleftrightarrow> snd b < L \<and> 2 ^ snd b dvd fst b \<and> fst b + 2 ^ snd b \<le> N"

definition tiling :: "nat \<Rightarrow> nat \<Rightarrow> block set \<Rightarrow> bool" where
  "tiling N L B \<longleftrightarrow> (\<forall>b \<in> B. aligned N L b) \<and>
     (\<forall>b \<in> B. \<forall>c \<in> B. b \<noteq> c \<longrightarrow> cells b \<inter> cells c = {}) \<and>
     (\<Union>b \<in> B. cells b) = {..<N}"

text \<open>The block next to \<open>(p, l)\<close> inside the aligned block of the next level.\<close>

definition buddy_of :: "nat \<Rightarrow> nat \<Rightarrow> nat" where
  "buddy_of l p = (if 2 ^ Suc l dvd p then p + 2 ^ l else p - 2 ^ l)"

lemma cells_iff [simp]: "i \<in> cells (p, l) \<longleftrightarrow> p \<le> i \<and> i < p + 2 ^ l"
  by (simp add: cells_def)

lemma cells_first [simp]: "p \<in> cells (p, l)"
  by simp

lemma cells_nonempty [simp]: "cells b \<noteq> {}"
  by (cases b) (auto simp: cells_def)

lemma cells_Suc: "cells (p, Suc l) = cells (p, l) \<union> cells (p + 2 ^ l, l)"
  by (auto simp: cells_def)

lemma cells_halves_disjoint: "cells (p, l) \<inter> cells (p + 2 ^ l, l) = {}"
  by (auto simp: cells_def)

lemma alignedD:
  assumes "aligned N L (p, l)"
  shows "l < L" and "2 ^ l dvd p" and "p + 2 ^ l \<le> N" and "p < N"
proof -
  show "l < L" "2 ^ l dvd p" "p + 2 ^ l \<le> N" using assms by (simp_all add: aligned_def)
  moreover have "(0::nat) < 2 ^ l" by simp
  ultimately show "p < N" by linarith
qed

lemma tiling_aligned: "tiling N L B \<Longrightarrow> (p, l) \<in> B \<Longrightarrow> aligned N L (p, l)"
  by (auto simp: tiling_def)

lemma tiling_unique:
  assumes "tiling N L B" and "b \<in> B" and "c \<in> B" and "i \<in> cells b" and "i \<in> cells c"
  shows "b = c"
  using assms unfolding tiling_def by blast

lemma tiling_cover:
  assumes "tiling N L B" and "i < N"
  obtains p l where "(p, l) \<in> B" and "i \<in> cells (p, l)"
proof -
  have "i \<in> (\<Union>b \<in> B. cells b)" using assms by (simp add: tiling_def)
  then obtain b where "b \<in> B" "i \<in> cells b" by blast
  then show thesis using that by (cases b) auto
qed

section \<open>Splitting and merging\<close>

lemma tiling_notin_if_overlap:
  assumes "tiling N L (insert b B)" and "b \<notin> B" and "cells c \<subseteq> cells b"
  shows "c \<notin> B"
proof
  assume "c \<in> B"
  obtain i where "i \<in> cells c" using cells_nonempty by blast
  then have "c = b"
    using tiling_unique [OF assms(1), of c b i] \<open>c \<in> B\<close> assms(3) by auto
  with \<open>c \<in> B\<close> assms(2) show False by simp
qed

lemma tiling_replace:
  assumes "tiling N L (B1 \<union> B)" and "B1 \<inter> B = {}"
    and "\<And>b. b \<in> B2 \<Longrightarrow> aligned N L b"
    and "\<And>b c. b \<in> B2 \<Longrightarrow> c \<in> B2 \<Longrightarrow> b \<noteq> c \<Longrightarrow> cells b \<inter> cells c = {}"
    and "(\<Union>b \<in> B2. cells b) = (\<Union>b \<in> B1. cells b)"
  shows "tiling N L (B2 \<union> B)"
proof -
  have dis: "cells b \<inter> cells c = {}" if "b \<in> B1 \<union> B" "c \<in> B1 \<union> B" "b \<noteq> c" for b c
    using assms(1) that by (simp add: tiling_def)
  have dis2: "cells b \<inter> cells c = {}" if "b \<in> B2" "c \<in> B" for b c
  proof (rule equals0I)
    fix x assume x: "x \<in> cells b \<inter> cells c"
    then have "x \<in> (\<Union>b \<in> B1. cells b)" using that(1) assms(5) by blast
    then obtain b' where b': "b' \<in> B1" "x \<in> cells b'" by blast
    then have "b' \<noteq> c" using that(2) assms(2) by blast
    then show False using dis [of b' c] b' that(2) x by blast
  qed
  have "(\<Union>b \<in> B2 \<union> B. cells b) = (\<Union>b \<in> B1 \<union> B. cells b)"
    using assms(5) by (simp add: UN_Un)
  then have "(\<Union>b \<in> B2 \<union> B. cells b) = {..<N}"
    using assms(1) by (simp add: tiling_def)
  moreover have "\<forall>b \<in> B2 \<union> B. \<forall>c \<in> B2 \<union> B. b \<noteq> c \<longrightarrow> cells b \<inter> cells c = {}"
  proof (intro ballI impI)
    fix b c assume bc: "b \<in> B2 \<union> B" "c \<in> B2 \<union> B" "b \<noteq> c"
    show "cells b \<inter> cells c = {}"
      using bc assms(4) [of b c] dis [of b c] dis2 [of b c] dis2 [of c b] by (auto simp: Int_commute)
  qed
  moreover have "\<forall>b \<in> B2 \<union> B. aligned N L b"
    using assms(1,3) by (auto simp: tiling_def)
  ultimately show ?thesis by (simp add: tiling_def)
qed

lemma tiling_split:
  assumes "tiling N L (insert (p, Suc l) B)" and "(p, Suc l) \<notin> B"
  shows "tiling N L (insert (p, l) (insert (p + 2 ^ l, l) B))"
proof -
  have al: "aligned N L (p, Suc l)" using assms(1) by (simp add: tiling_def)
  have "tiling N L ({(p, l), (p + 2 ^ l, l)} \<union> B)"
  proof (rule tiling_replace [where ?B1.0 = "{(p, Suc l)}"])
    show "aligned N L b" if "b \<in> {(p, l), (p + 2 ^ l, l)}" for b
      using al that by (auto simp: aligned_def dvd_add intro: dvd_trans [of _ "2 * 2 ^ l"])
  qed (use assms cells_halves_disjoint [of p l] in \<open>auto simp: cells_Suc\<close>)
  then show ?thesis by simp
qed

lemma tiling_merge:
  assumes "tiling N L (insert (p, l) (insert (p + 2 ^ l, l) B))"
    and "(p, l) \<notin> B" and "(p + 2 ^ l, l) \<notin> B" and "2 ^ Suc l dvd p" and "Suc l < L"
  shows "tiling N L (insert (p, Suc l) B)"
proof -
  have al: "aligned N L (p + 2 ^ l, l)" using assms(1) by (simp add: tiling_def)
  have "tiling N L ({(p, Suc l)} \<union> B)"
  proof (rule tiling_replace [where ?B1.0 = "{(p, l), (p + 2 ^ l, l)}"])
    show "aligned N L b" if "b \<in> {(p, Suc l)}" for b
      using al that assms(4,5) by (auto simp: aligned_def)
  qed (use assms in \<open>auto simp: cells_Suc\<close>)
  then show ?thesis by simp
qed

section \<open>The neighbour of a block\<close>

lemma buddy_of_cases:
  assumes "2 ^ l dvd p"
  obtains (lower) "2 ^ Suc l dvd p" "buddy_of l p = p + 2 ^ l"
  | (upper) q where "2 ^ Suc l dvd q" "p = q + 2 ^ l" "buddy_of l p = q"
proof (cases "2 ^ Suc l dvd p")
  case True
  then show thesis using lower by (simp add: buddy_of_def)
next
  case False
  obtain k where k: "p = 2 ^ l * k" using assms by blast
  have "odd k" using False k by (auto simp: mult.commute)
  then obtain j where "k = 2 * j + 1" by (rule oddE)
  then have "p = 2 ^ Suc l * j + 2 ^ l" using k by (simp add: algebra_simps)
  then show thesis using upper [of "2 ^ Suc l * j"] False by (simp add: buddy_of_def)
qed

lemma buddy_of_dvd: "2 ^ l dvd p \<Longrightarrow> 2 ^ l dvd buddy_of l p"
  by (simp add: buddy_of_def dvd_diff_nat)

lemma buddy_of_neq: "2 ^ l dvd p \<Longrightarrow> buddy_of l p \<noteq> p"
  by (erule buddy_of_cases) auto

lemma pow2_dvd_window:
  fixes q :: nat
  assumes "2 ^ k dvd b" and "2 ^ l dvd q" and "k \<le> l" and "b \<le> q" and "q < b + 2 ^ k"
  shows "b = q"
proof -
  have "2 ^ k dvd q" using assms(2,3) by (meson dvd_trans le_imp_power_dvd)
  then have "2 ^ k dvd q - b" using assms(1) by (simp add: dvd_diff_nat)
  moreover have "q - b < 2 ^ k" using assms(4,5) by simp
  ultimately have "q - b = 0" by (metis dvd_imp_le not_le gr0I)
  then show ?thesis using assms(4) by simp
qed

lemma pow2_dvd_covers:
  fixes q :: nat
  assumes "2 ^ k dvd b" and "2 ^ m dvd q" and "m \<le> k" and "b \<le> x" and "x < b + 2 ^ k"
    and "q \<le> x" and "x < q + 2 ^ m"
  shows "b \<le> q \<and> q + 2 ^ m \<le> b + 2 ^ k"
proof -
  obtain u where u: "b = 2 ^ m * u"
    using assms(1,3) by (meson dvdE dvd_trans le_imp_power_dvd)
  obtain v where v: "q = 2 ^ m * v" using assms(2) by blast
  obtain w where w: "(2::nat) ^ k = 2 ^ m * w" using assms(3) by (meson dvdE le_imp_power_dvd)
  have "2 ^ m * u < 2 ^ m * Suc v" using assms(4,7) u v by (simp add: algebra_simps)
  then have "u < Suc v" by (simp only: mult_less_cancel1)
  then have uv: "u \<le> v" by simp
  have "2 ^ m * v < 2 ^ m * (u + w)" using assms(5,6) u v w by (simp add: algebra_simps)
  then have "v < u + w" by (simp only: mult_less_cancel1)
  then have "Suc v \<le> u + w" by simp
  then have "2 ^ m * Suc v \<le> 2 ^ m * (u + w)" by (rule mult_le_mono2)
  then show ?thesis using uv u v w by (simp add: algebra_simps)
qed

text \<open>
  The reasoning in the comment of \<open>add_free_block\<close>: the first page of the neighbour cannot lie
  in the middle of another block, because that block would contain our own block too.
\<close>

lemma tiling_neighbour:
  assumes "tiling N L B" and "(p, l) \<in> B" and "buddy_of l p + 2 ^ l \<le> N"
  obtains k where "k \<le> l" and "(buddy_of l p, k) \<in> B"
proof -
  define q where "q = buddy_of l p"
  note al = alignedD [OF tiling_aligned [OF assms(1,2)]]
  have "(0::nat) < 2 ^ l" by simp
  then have qN: "q < N" using assms(3) unfolding q_def by linarith
  obtain b k where bk: "(b, k) \<in> B" "q \<in> cells (b, k)"
    using tiling_cover [OF assms(1) qN] .
  note alb = alignedD [OF tiling_aligned [OF assms(1) bk(1)]]
  have dq: "2 ^ l dvd q" using al(2) by (simp add: q_def buddy_of_dvd)
  show thesis
  proof (cases "k \<le> l")
    case True
    have "b = q" using pow2_dvd_window [OF alb(2) dq True] bk(2) by simp
    then show ?thesis using that True bk(1) by (simp add: q_def)
  next
    case False
    define s where "s = min p q"
    have s: "2 ^ Suc l dvd s" "s \<le> q" "q < s + 2 ^ Suc l" "s \<le> p" "p < s + 2 ^ Suc l"
    proof -
      have "2 ^ Suc l dvd s \<and> s \<le> q \<and> q < s + 2 ^ Suc l \<and> s \<le> p \<and> p < s + 2 ^ Suc l"
        by (rule buddy_of_cases [OF al(2)]) (simp_all add: s_def q_def)
      then show "2 ^ Suc l dvd s" "s \<le> q" "q < s + 2 ^ Suc l" "s \<le> p" "p < s + 2 ^ Suc l"
        by blast+
    qed
    have "b \<le> s \<and> s + 2 ^ Suc l \<le> b + 2 ^ k"
      using pow2_dvd_covers [OF alb(2) s(1), of q] False bk(2) s(2,3) by simp
    then have "p \<in> cells (b, k)" using s(4,5) by auto
    then have "(b, k) = (p, l)"
      using tiling_unique [OF assms(1) bk(1) assms(2), of p] by simp
    then show ?thesis using False by simp
  qed
qed

lemma buddy_of_xor:
  assumes "2 ^ l dvd p"
  shows "buddy_of l p = p XOR 2 ^ l"
proof (rule bit_eqI)
  fix n
  obtain k where k: "p = k * 2 ^ l" using assms by (metis dvdE mult.commute)
  have p: "p = push_bit l k" using k by (simp add: push_bit_eq_mult)
  have ev: "2 ^ Suc l dvd p \<longleftrightarrow> even k" unfolding k by (simp add: mult.commute)
  have "buddy_of l p = push_bit l (k XOR 1)"
    unfolding buddy_of_def ev
    by (cases "even k")
      (auto simp: k push_bit_eq_mult xor_one_eq algebra_simps simp del: One_nat_def elim!: evenE oddE)
  moreover have "push_bit l (k XOR 1) = p XOR 2 ^ l"
    by (simp add: p push_bit_xor)
  ultimately show "bit (buddy_of l p) n = bit (p XOR 2 ^ l) n" by simp
qed

end
