(* ===== verification/Node_List.thy ===== *)
theory Node_List
  imports Prelude
begin

text \<open>
  The intrusive lists both allocator libraries keep: a head struct and nodes that live inside the
  memory being managed.  The operations of the two libraries have the same effect on their fields;
  what a list in memory looks like, and what adding and removing nodes does to it, is proved once
  here from those effects.
\<close>

section \<open>Lists in memory\<close>

fun chain :: "(addr \<Rightarrow> addr) \<Rightarrow> addr \<Rightarrow> addr list \<Rightarrow> bool" where
  "chain nxt x [] \<longleftrightarrow> x = 0"
| "chain nxt x (p # ps) \<longleftrightarrow> x = p \<and> x \<noteq> 0 \<and> chain nxt (nxt p) ps"

lemma chain_cong:
  "(\<And>y. y \<in> set ps \<Longrightarrow> f y = g y) \<Longrightarrow> chain f x ps = chain g x ps"
  by (induction ps arbitrary: x) auto

lemma chain_suffix: "chain f x (ps @ q # qs) \<Longrightarrow> chain f (f q) qs"
  by (induction ps arbitrary: x) auto

lemma chain_nonzero: "chain f x ps \<Longrightarrow> p \<in> set ps \<Longrightarrow> p \<noteq> 0"
  by (induction ps arbitrary: x) auto

text \<open>
  The list with head \<open>hd0\<close> and key \<open>k\<close> (a level, or a number of used cells): its nodes are linked
  forward, carry the key and the list, and each of them has the head itself as its \<open>prev\<close>.
\<close>

definition node_list ::
  "(addr \<Rightarrow> addr) \<Rightarrow> (addr \<Rightarrow> addr) \<Rightarrow> (addr \<Rightarrow> addr) \<Rightarrow> (addr \<Rightarrow> 'k) \<Rightarrow> (addr \<Rightarrow> 'w::len word) \<Rightarrow>
     addr \<Rightarrow> 'k \<Rightarrow> addr list \<Rightarrow> bool" where
  "node_list nxt prv lst key len hd0 k ps \<longleftrightarrow>
     chain nxt (nxt hd0) ps \<and>
     (\<forall>p \<in> set ps. lst p = hd0 \<and> key p = k \<and> prv p = hd0) \<and>
     lst hd0 = hd0 \<and> key hd0 = k \<and> len hd0 = of_nat (length ps)"

lemma node_listD:
  assumes "node_list nxt prv lst key len hd0 k ps"
  shows "chain nxt (nxt hd0) ps" and "lst hd0 = hd0" and "key hd0 = k" and "len hd0 = of_nat (length ps)"
    and "\<And>p. p \<in> set ps \<Longrightarrow> lst p = hd0 \<and> key p = k \<and> prv p = hd0"
  using assms by (simp_all add: node_list_def)

lemma node_list_cong:
  assumes "node_list nxt prv lst key len hd0 k ps"
    and "\<And>x. x \<in> insert hd0 (set ps) \<Longrightarrow>
      nxt' x = nxt x \<and> prv' x = prv x \<and> lst' x = lst x \<and> key' x = key x \<and> len' x = len x"
  shows "node_list nxt' prv' lst' key' len' hd0 k ps"
proof -
  have "chain nxt' x ps = chain nxt x ps" for x using assms(2) by (intro chain_cong) simp
  then show ?thesis using assms by (simp add: node_list_def)
qed

section \<open>The operations\<close>

locale node_ops =
  fixes nxt prv lst :: "'h \<Rightarrow> addr \<Rightarrow> addr"
    and key :: "'h \<Rightarrow> addr \<Rightarrow> 'k"
    and len :: "'h \<Rightarrow> addr \<Rightarrow> 'w::len word"
    and rest :: "'h \<Rightarrow> 'r"
    and add :: "addr \<Rightarrow> addr \<Rightarrow> 'h \<Rightarrow> 'h res"
    and remove :: "addr \<Rightarrow> 'h \<Rightarrow> 'h res"
  assumes add_effect: "lst h l = l \<Longrightarrow> n \<noteq> l \<Longrightarrow>
      \<exists>h'. add l n h = Inr h' \<and> nxt h' = (nxt h)(n := nxt h l, l := n) \<and>
        prv h' = (prv h)(n := l) \<and> lst h' = (lst h)(n := l) \<and> key h' = (key h)(n := key h l) \<and>
        len h' = (len h)(l := len h l + 1) \<and> rest h' = rest h"
    and remove_effect: "b \<noteq> 0 \<Longrightarrow> b \<noteq> lst h b \<Longrightarrow> prv h b \<noteq> 0 \<Longrightarrow> 0 < len h (lst h b) \<Longrightarrow>
      \<exists>h'. remove b h = Inr h' \<and> nxt h' = (nxt h)(prv h b := nxt h b) \<and>
        prv h' = (if nxt h b \<noteq> 0 then (prv h)(nxt h b := prv h b) else prv h) \<and>
        lst h' = lst h \<and> key h' = key h \<and> len h' = (len h)(lst h b := len h (lst h b) - 1) \<and>
        rest h' = rest h"
begin

lemma add_node:
  assumes l: "node_list (nxt h) (prv h) (lst h) (key h) (len h) hd0 k ps"
    and n: "n \<noteq> hd0" "n \<noteq> 0" "n \<notin> set ps" "hd0 \<notin> set ps"
  obtains h' where "add hd0 n h = Inr h'" and "rest h' = rest h"
    and "node_list (nxt h') (prv h') (lst h') (key h') (len h') hd0 k (n # ps)"
    and "\<And>x. x \<noteq> hd0 \<Longrightarrow> x \<noteq> n \<Longrightarrow> nxt h' x = nxt h x \<and> prv h' x = prv h x \<and>
      lst h' x = lst h x \<and> key h' x = key h x \<and> len h' x = len h x"
proof -
  note d = node_listD [OF l]
  obtain h' where h': "add hd0 n h = Inr h'" "nxt h' = (nxt h)(n := nxt h hd0, hd0 := n)"
      "prv h' = (prv h)(n := hd0)" "lst h' = (lst h)(n := hd0)" "key h' = (key h)(n := key h hd0)"
      "len h' = (len h)(hd0 := len h hd0 + 1)" "rest h' = rest h"
    using add_effect [OF d(2) n(1)] by blast
  have "chain (nxt h') x ps = chain (nxt h) x ps" for x
    using n h'(2) by (intro chain_cong) auto
  then have "node_list (nxt h') (prv h') (lst h') (key h') (len h') hd0 k (n # ps)"
    using d n h' by (auto simp: node_list_def)
  then show thesis using that h' by simp
qed

text \<open>
  Removing a node works as intended for the first node only.  For any other node the nodes in
  front of it are dropped from the list too, while the length counts them.
\<close>

lemma remove_node:
  assumes l: "node_list (nxt h) (prv h) (lst h) (key h) (len h) hd0 k (xs @ q # ys)"
    and n: "hd0 \<noteq> 0" "hd0 \<notin> set (xs @ q # ys)" "distinct (xs @ q # ys)"
    and fits: "length (xs @ q # ys) < 2 ^ LENGTH('w)"
  obtains h' where "remove q h = Inr h'" and "rest h' = rest h"
    and "chain (nxt h') (nxt h' hd0) ys" and "len h' hd0 = of_nat (length xs + length ys)"
    and "lst h' = lst h" and "key h' = key h"
    and "\<And>x. x \<notin> insert hd0 (set ys) \<Longrightarrow> nxt h' x = nxt h x \<and> prv h' x = prv h x \<and> len h' x = len h x"
    and "\<And>p. p \<in> set ys \<Longrightarrow> prv h' p = hd0"
proof -
  note d = node_listD [OF l]
  have q: "lst h q = hd0" "prv h q = hd0" using d(5) [of q] by auto
  have "unat (of_nat (length (xs @ q # ys)) :: 'w word) = length (xs @ q # ys)"
    unfolding unat_of_nat using fits by (rule mod_less)
  then have "0 < len h hd0" unfolding d(4) by (simp add: word_less_nat_alt del: of_nat_Suc)
  moreover have "q \<noteq> hd0" using n(2) by auto
  moreover have "q \<noteq> 0" using chain_nonzero [OF d(1)] by simp
  ultimately obtain h' where h': "remove q h = Inr h'" "nxt h' = (nxt h)(hd0 := nxt h q)"
      "prv h' = (if nxt h q \<noteq> 0 then (prv h)(nxt h q := hd0) else prv h)"
      "lst h' = lst h" "key h' = key h" "len h' = (len h)(hd0 := len h hd0 - 1)" "rest h' = rest h"
    using remove_effect [of q h] q n(1) by auto
  have ch: "chain (nxt h) (nxt h q) ys" by (rule chain_suffix [OF d(1)])
  have "chain (nxt h') x ys = chain (nxt h) x ys" for x
    using n(2) h'(2) by (intro chain_cong) auto
  then have tail: "chain (nxt h') (nxt h' hd0) ys" using ch h'(2) by simp
  have len: "len h' hd0 = of_nat (length xs + length ys)" using d(4) h'(6) by simp
  have nq: "nxt h q = (case ys of [] \<Rightarrow> 0 | y # _ \<Rightarrow> y)" using ch by (cases ys) auto
  have "prv h' p = hd0" if "p \<in> set ys" for p using d(5) [of p] that h'(3) by auto
  moreover have "nxt h' x = nxt h x \<and> prv h' x = prv h x \<and> len h' x = len h x"
    if "x \<notin> insert hd0 (set ys)" for x
    using that h'(2,3,6) nq by (auto split: list.splits)
  ultimately show thesis using that h' tail len by blast
qed

lemma remove_first:
  assumes l: "node_list (nxt h) (prv h) (lst h) (key h) (len h) hd0 k (q # ys)"
    and n: "hd0 \<noteq> 0" "hd0 \<notin> set (q # ys)" "distinct (q # ys)"
    and fits: "length (q # ys) < 2 ^ LENGTH('w)"
  obtains h' where "remove q h = Inr h'" and "rest h' = rest h"
    and "node_list (nxt h') (prv h') (lst h') (key h') (len h') hd0 k ys"
    and "\<And>x. x \<notin> insert hd0 (set ys) \<Longrightarrow> nxt h' x = nxt h x \<and> prv h' x = prv h x \<and>
      lst h' x = lst h x \<and> key h' x = key h x \<and> len h' x = len h x"
proof -
  note d = node_listD [OF l]
  obtain h' where h': "remove q h = Inr h'" "rest h' = rest h" "chain (nxt h') (nxt h' hd0) ys"
      "len h' hd0 = of_nat (length ys)" "lst h' = lst h" "key h' = key h"
      "\<And>x. x \<notin> insert hd0 (set ys) \<Longrightarrow> nxt h' x = nxt h x \<and> prv h' x = prv h x \<and> len h' x = len h x"
      "\<And>p. p \<in> set ys \<Longrightarrow> prv h' p = hd0"
    using remove_node [of h hd0 k "[]" q ys] assms by auto
  have "node_list (nxt h') (prv h') (lst h') (key h') (len h') hd0 k ys"
    using d h' by (simp add: node_list_def)
  then show thesis using that h' by simp
qed

end

end
