(* ===== verification/Buddy_Inv.thy ===== *)
theory Buddy_Inv
  imports Buddy_Layout Buddy_Blocks Node_List
begin

text \<open>
  The representation invariant of the allocator.  An abstract state is the list of free page
  numbers of every level and the partial map from first pages of allocated blocks to their
  levels; the invariant says how memory represents it and that free and allocated blocks
  together tile the pages.  Every primitive step of the allocator is shown to keep it, with
  the block being moved between free lists and callers as a hole in the tiling.
\<close>

section \<open>Free lists in memory\<close>

interpretation bl: node_ops fb_next fb_prev fb_list fb_level bl_len mem_byte list_add remove_block
proof unfold_locales
  fix h :: buddy_heap and l n :: addr
  assume "fb_list h l = l" and "n \<noteq> l"
  then show "\<exists>h'. list_add l n h = Inr h' \<and> fb_next h' = (fb_next h)(n := fb_next h l, l := n) \<and>
      fb_prev h' = (fb_prev h)(n := l) \<and> fb_list h' = (fb_list h)(n := l) \<and>
      fb_level h' = (fb_level h)(n := fb_level h l) \<and> bl_len h' = (bl_len h)(l := bl_len h l + 1) \<and>
      mem_byte h' = mem_byte h"
    by (simp add: list_add_def insert_block_def Let_def)
next
  fix h :: buddy_heap and b :: addr
  assume "b \<noteq> 0" and "b \<noteq> fb_list h b" and "fb_prev h b \<noteq> 0" and "0 < bl_len h (fb_list h b)"
  then show "\<exists>h'. remove_block b h = Inr h' \<and> fb_next h' = (fb_next h)(fb_prev h b := fb_next h b) \<and>
      fb_prev h' = (if fb_next h b \<noteq> 0 then (fb_prev h)(fb_next h b := fb_prev h b) else fb_prev h) \<and>
      fb_list h' = fb_list h \<and> fb_level h' = fb_level h \<and>
      bl_len h' = (bl_len h)(fb_list h b := bl_len h (fb_list h b) - 1) \<and> mem_byte h' = mem_byte h"
    by (simp add: remove_block_def Let_def)
qed

text \<open>The free list of level \<open>l\<close>, by page numbers.\<close>

definition list_rep :: "buddy_allocator \<Rightarrow> buddy_heap \<Rightarrow> nat \<Rightarrow> nat list \<Rightarrow> bool" where
  "list_rep a m l ps \<longleftrightarrow> node_list (fb_next m) (fb_prev m) (fb_list m) (fb_level m) (bl_len m)
     (hd_at a l) (int l) (map (pg a) ps)"

text \<open>Two memories that agree on the table bytes and on all structs outside \<open>X\<close>.\<close>

definition same_except :: "addr set \<Rightarrow> buddy_heap \<Rightarrow> buddy_heap \<Rightarrow> bool" where
  "same_except X m m' \<longleftrightarrow> mem_byte m' = mem_byte m \<and>
     (\<forall>x. x \<notin> X \<longrightarrow> fb_next m' x = fb_next m x \<and> fb_prev m' x = fb_prev m x \<and>
        fb_list m' x = fb_list m x \<and> fb_level m' x = fb_level m x \<and> bl_len m' x = bl_len m x)"

lemma list_rep_frame:
  assumes "list_rep a m l ps" and "same_except X m m'"
    and "hd_at a l \<notin> X" and "\<And>p. p \<in> set ps \<Longrightarrow> pg a p \<notin> X"
  shows "list_rep a m' l ps"
  using assms(1) unfolding list_rep_def
  by (rule node_list_cong) (use assms(2-4) in \<open>auto simp: same_except_def\<close>)

lemma list_rep_head:
  assumes "list_rep a m l ps"
  shows "fb_list m (hd_at a l) = hd_at a l" and "fb_level m (hd_at a l) = int l"
    and "bl_len m (hd_at a l) = of_nat (length ps)"
    and "fb_next m (hd_at a l) = (case ps of [] \<Rightarrow> 0 | p # _ \<Rightarrow> pg a p)"
  using assms by (auto simp: list_rep_def node_list_def split: list.split)

lemma list_rep_node:
  assumes "list_rep a m l ps" and "p \<in> set ps"
  shows "fb_list m (pg a p) = hd_at a l" and "fb_level m (pg a p) = int l"
    and "fb_prev m (pg a p) = hd_at a l"
  using assms by (simp_all add: list_rep_def node_list_def)

lemma distinct_map_pg:
  assumes "wf_alloc a" and "\<forall>q \<in> set ps. q < npages a" and "distinct ps"
  shows "distinct (map (pg a) ps)"
  using assms pg_inj [OF assms(1)] by (auto simp: distinct_map inj_on_def)

lemma list_add_rep:
  assumes wf: "wf_alloc a" and l: "l < nlevels a" and rep: "list_rep a m l ps"
    and p: "p < npages a" "p \<notin> set ps" and ps: "\<forall>q \<in> set ps. q < npages a"
  obtains m' where "list_add (hd_at a l) (pg a p) m = Inr m'"
    and "list_rep a m' l (p # ps)" and "same_except {hd_at a l, pg a p} m m'"
proof -
  have n: "pg a p \<noteq> hd_at a l" "pg a p \<noteq> 0" "pg a p \<notin> set (map (pg a) ps)"
      "hd_at a l \<notin> set (map (pg a) ps)"
    using pg_not_hd [OF wf _ l] pg_nonzero [OF wf p(1)] pg_inj [OF wf p(1)] p ps
    by (auto dest: sym)
  obtain m' where m': "list_add (hd_at a l) (pg a p) m = Inr m'" "mem_byte m' = mem_byte m"
      "node_list (fb_next m') (fb_prev m') (fb_list m') (fb_level m') (bl_len m')
        (hd_at a l) (int l) (pg a p # map (pg a) ps)"
      "\<And>x. x \<noteq> hd_at a l \<Longrightarrow> x \<noteq> pg a p \<Longrightarrow> fb_next m' x = fb_next m x \<and> fb_prev m' x = fb_prev m x \<and>
        fb_list m' x = fb_list m x \<and> fb_level m' x = fb_level m x \<and> bl_len m' x = bl_len m x"
    using bl.add_node [OF rep [unfolded list_rep_def] n] by blast
  then show thesis using that by (simp add: list_rep_def same_except_def)
qed

lemma remove_first_rep:
  assumes wf: "wf_alloc a" and l: "l < nlevels a" and rep: "list_rep a m l (p # ps)"
    and ps: "\<forall>q \<in> set (p # ps). q < npages a" and dist: "distinct (p # ps)"
    and len: "length ps < 2 ^ 64 - 1"
  obtains m' where "remove_block (pg a p) m = Inr m'"
    and "list_rep a m' l ps" and "same_except (insert (hd_at a l) (pg a ` set ps)) m m'"
proof -
  have n: "hd_at a l \<notin> set (pg a p # map (pg a) ps)" using pg_not_hd [OF wf _ l] ps by (auto dest: sym)
  have d: "distinct (pg a p # map (pg a) ps)" using distinct_map_pg [OF wf ps dist] by simp
  have f: "length (pg a p # map (pg a) ps) < 2 ^ LENGTH(64)" using len by simp
  have rep': "node_list (fb_next m) (fb_prev m) (fb_list m) (fb_level m) (bl_len m)
      (hd_at a l) (int l) (pg a p # map (pg a) ps)"
    using rep by (simp add: list_rep_def)
  obtain m' where "remove_block (pg a p) m = Inr m'" "mem_byte m' = mem_byte m"
      "node_list (fb_next m') (fb_prev m') (fb_list m') (fb_level m') (bl_len m')
        (hd_at a l) (int l) (map (pg a) ps)"
      "\<And>x. x \<notin> insert (hd_at a l) (set (map (pg a) ps)) \<Longrightarrow> fb_next m' x = fb_next m x \<and>
        fb_prev m' x = fb_prev m x \<and> fb_list m' x = fb_list m x \<and> fb_level m' x = fb_level m x \<and>
        bl_len m' x = bl_len m x"
    using bl.remove_first [OF rep' hd_nonzero [OF wf l] n d f] by blast
  then show thesis using that by (simp add: list_rep_def same_except_def)
qed

section \<open>The invariant\<close>

definition free_set :: "nat \<Rightarrow> (nat \<Rightarrow> nat list) \<Rightarrow> block set" where
  "free_set L fl = {(p, l). l < L \<and> p \<in> set (fl l)}"

definition used_set :: "(nat \<rightharpoonup> nat) \<Rightarrow> block set" where
  "used_set al = {(p, l). al p = Some l}"

definition state_rep :: "buddy_allocator \<Rightarrow> buddy_heap \<Rightarrow> (nat \<rightharpoonup> nat) \<Rightarrow> bool" where
  "state_rep a m al \<longleftrightarrow> (\<forall>i < npages a. mem_byte m (st_at a i) =
     (case al i of None \<Rightarrow> word_of_int BUDDY_NOTHING | Some l \<Rightarrow> word_of_int (int l)))"

definition binv ::
  "buddy_allocator \<Rightarrow> buddy_heap \<Rightarrow> (nat \<Rightarrow> nat list) \<Rightarrow> (nat \<rightharpoonup> nat) \<Rightarrow> block set \<Rightarrow> bool" where
  "binv a m fl al H \<longleftrightarrow> wf_alloc a \<and>
     (\<forall>l < nlevels a. list_rep a m l (fl l) \<and> distinct (fl l)) \<and>
     state_rep a m al \<and>
     free_set (nlevels a) fl \<inter> used_set al = {} \<and>
     H \<inter> (free_set (nlevels a) fl \<union> used_set al) = {} \<and>
     tiling (npages a) (nlevels a) (free_set (nlevels a) fl \<union> used_set al \<union> H)"

lemma in_free_set [simp]: "(p, l) \<in> free_set L fl \<longleftrightarrow> l < L \<and> p \<in> set (fl l)"
  by (simp add: free_set_def)

lemma in_used_set [simp]: "(p, l) \<in> used_set al \<longleftrightarrow> al p = Some l"
  by (simp add: used_set_def)

lemma free_set_push:
  "l < L \<Longrightarrow> free_set L (fl(l := p # fl l)) = insert (p, l) (free_set L fl)"
  by (auto simp: free_set_def)

lemma free_set_pop:
  "l < L \<Longrightarrow> fl l = p # ps \<Longrightarrow> p \<notin> set ps \<Longrightarrow> free_set L (fl(l := ps)) = free_set L fl - {(p, l)}"
  by (auto simp: free_set_def)

lemma used_set_upd:
  "al p = None \<Longrightarrow> used_set (al(p \<mapsto> l)) = insert (p, l) (used_set al)"
  by (auto simp: used_set_def split: if_splits)

lemma used_set_del:
  "al p = Some l \<Longrightarrow> used_set (al(p := None)) = used_set al - {(p, l)}"
  by (auto simp: used_set_def split: if_splits)

lemma binvD:
  assumes "binv a m fl al H"
  shows "wf_alloc a"
    and "\<And>l. l < nlevels a \<Longrightarrow> list_rep a m l (fl l)"
    and "\<And>l. l < nlevels a \<Longrightarrow> distinct (fl l)"
    and "state_rep a m al"
    and "tiling (npages a) (nlevels a) (free_set (nlevels a) fl \<union> used_set al \<union> H)"
    and "free_set (nlevels a) fl \<inter> used_set al = {}"
    and "H \<inter> (free_set (nlevels a) fl \<union> used_set al) = {}"
  using assms by (simp_all add: binv_def)

lemma binv_free_aligned:
  assumes "binv a m fl al H" and "l < nlevels a" and "p \<in> set (fl l)"
  shows "aligned (npages a) (nlevels a) (p, l)"
  using tiling_aligned [OF binvD(5) [OF assms(1)], of p l] assms(2,3) by simp

lemma binv_used_aligned:
  assumes "binv a m fl al H" and "al p = Some l"
  shows "aligned (npages a) (nlevels a) (p, l)"
  using tiling_aligned [OF binvD(5) [OF assms(1)], of p l] assms(2) by simp

lemma binv_hole_aligned:
  assumes "binv a m fl al H" and "(p, l) \<in> H"
  shows "aligned (npages a) (nlevels a) (p, l)"
  using tiling_aligned [OF binvD(5) [OF assms(1)], of p l] assms(2) by simp

text \<open>A page starts at most one block, whether free, allocated or in transit.\<close>

lemma binv_unique_start:
  assumes "binv a m fl al H"
    and "(p, k) \<in> free_set (nlevels a) fl \<union> used_set al \<union> H"
    and "(p, l) \<in> free_set (nlevels a) fl \<union> used_set al \<union> H"
  shows "k = l"
  using tiling_unique [OF binvD(5) [OF assms(1)] assms(2,3), of p] by simp

lemma free_list_length:
  assumes "binv a m fl al H" and "l < nlevels a"
  shows "length (fl l) \<le> npages a"
proof -
  have "set (fl l) \<subseteq> {..<npages a}" using binv_free_aligned [OF assms] alignedD(4) by blast
  then show ?thesis
    using binvD(3) [OF assms] by (metis card_lessThan card_mono distinct_card finite_lessThan)
qed

lemma list_rep_elsewhere:
  assumes "binv a m fl al H" and "same_except X m m'"
    and "k < nlevels a" and "hd_at a k \<notin> X" and "\<And>p. p \<in> set (fl k) \<Longrightarrow> pg a p \<notin> X"
  shows "list_rep a m' k (fl k)"
  using list_rep_frame [OF binvD(2) [OF assms(1,3)] assms(2)] assms(4,5) by blast

lemma state_rep_same: "mem_byte m' = mem_byte m \<Longrightarrow> state_rep a m' al = state_rep a m al"
  by (simp add: state_rep_def)

section \<open>Moving a block into a free list\<close>

lemma binv_list_add:
  assumes inv: "binv a m fl al (insert (p, l) H)" and nH: "(p, l) \<notin> H"
  obtains m' where "list_add (hd_at a l) (pg a p) m = Inr m'"
    and "binv a m' (fl(l := p # fl l)) al H"
proof -
  note wf = binvD(1) [OF inv]
  note al = alignedD [OF binv_hole_aligned [OF inv, of p l, simplified]]
  have pf: "p \<notin> set (fl l)" using binvD(7) [OF inv] al(1) by auto
  have "\<forall>q \<in> set (fl l). q < npages a"
    using binv_free_aligned [OF inv al(1)] alignedD(4) by blast
  then obtain m' where m': "list_add (hd_at a l) (pg a p) m = Inr m'"
      "list_rep a m' l (p # fl l)" "same_except {hd_at a l, pg a p} m m'"
    using list_add_rep [OF wf al(1) binvD(2) [OF inv al(1)] al(4) pf] by blast
  have reps: "list_rep a m' k ((fl(l := p # fl l)) k) \<and> distinct ((fl(l := p # fl l)) k)"
    if k: "k < nlevels a" for k
  proof (cases "k = l")
    case True
    then show ?thesis using m'(2) pf binvD(3) [OF inv al(1)] by simp
  next
    case False
    have "pg a q \<notin> {hd_at a l, pg a p}" if "q \<in> set (fl k)" for q
    proof -
      have "q < npages a" using binv_free_aligned [OF inv k that] alignedD(4) by blast
      moreover have "q \<noteq> p"
        using binv_unique_start [OF inv, of q k l] that k False by auto
      ultimately show ?thesis using pg_inj [OF wf _ al(4)] pg_not_hd [OF wf _ al(1)] by auto
    qed
    moreover have "hd_at a k \<notin> {hd_at a l, pg a p}"
      using hd_at_inj [OF wf k al(1)] pg_not_hd [OF wf al(4) k] False by auto
    ultimately have "list_rep a m' k (fl k)"
      using list_rep_elsewhere [OF inv m'(3) k] by blast
    then show ?thesis using False binvD(3) [OF inv k] by simp
  qed
  have "insert (p, l) (free_set (nlevels a) fl) \<union> used_set al \<union> H =
      free_set (nlevels a) fl \<union> used_set al \<union> insert (p, l) H" by blast
  moreover have "insert (p, l) (free_set (nlevels a) fl) \<inter> used_set al = {}"
      "H \<inter> (insert (p, l) (free_set (nlevels a) fl) \<union> used_set al) = {}"
    using binvD(6,7) [OF inv] nH by blast+
  ultimately have "binv a m' (fl(l := p # fl l)) al H"
    unfolding binv_def free_set_push [OF al(1)]
    using reps wf binvD(4,5) [OF inv] m'(3) by (simp add: same_except_def state_rep_def)
  then show thesis using that m'(1) by blast
qed

section \<open>Taking the first block of a free list\<close>

lemma binv_remove_first:
  assumes inv: "binv a m fl al H" and l: "l < nlevels a" and fl: "fl l = p # ps"
  obtains m' where "remove_block (pg a p) m = Inr m'"
    and "binv a m' (fl(l := ps)) al (insert (p, l) H)"
proof -
  note wf = binvD(1) [OF inv]
  have lt: "q < npages a" if "k < nlevels a" "q \<in> set (fl k)" for k q
    using binv_free_aligned [OF inv that] alignedD(4) by blast
  have dist: "distinct (p # ps)" using binvD(3) [OF inv l] fl by simp
  have "length ps \<le> npages a" using free_list_length [OF inv l] fl by simp
  then have len: "length ps < 2 ^ 64 - 1" using wf_allocD(10) [OF wf] by simp
  obtain m' where m': "remove_block (pg a p) m = Inr m'" "list_rep a m' l ps"
      "same_except (insert (hd_at a l) (pg a ` set ps)) m m'"
    using remove_first_rep [OF wf l _ _ dist len, of m] binvD(2) [OF inv l] lt [OF l] fl by auto
  have reps: "list_rep a m' k ((fl(l := ps)) k) \<and> distinct ((fl(l := ps)) k)"
    if k: "k < nlevels a" for k
  proof (cases "k = l")
    case True
    then show ?thesis using m'(2) dist by simp
  next
    case False
    have "pg a q \<notin> insert (hd_at a l) (pg a ` set ps)" if q: "q \<in> set (fl k)" for q
    proof -
      have "q \<noteq> r" if "r \<in> set ps" for r
        using binv_unique_start [OF inv, of q k l] q that k l fl False by auto
      then show ?thesis
        using lt [OF k q] lt [OF l] fl pg_inj [OF wf lt [OF k q]] pg_not_hd [OF wf _ l] by auto
    qed
    moreover have "hd_at a k \<notin> insert (hd_at a l) (pg a ` set ps)"
      using hd_at_inj [OF wf k l] pg_not_hd [OF wf _ k] lt [OF l] fl False
      by (auto simp: image_iff) (metis list.set_intros(2))
    ultimately have "list_rep a m' k (fl k)"
      using list_rep_elsewhere [OF inv m'(3) k] by blast
    then show ?thesis using False binvD(3) [OF inv k] by simp
  qed
  have pl: "(p, l) \<in> free_set (nlevels a) fl" using l fl by simp
  then have "free_set (nlevels a) fl - {(p, l)} \<union> used_set al \<union> insert (p, l) H =
      free_set (nlevels a) fl \<union> used_set al \<union> H" by blast
  moreover have "(free_set (nlevels a) fl - {(p, l)}) \<inter> used_set al = {}"
      "insert (p, l) H \<inter> (free_set (nlevels a) fl - {(p, l)} \<union> used_set al) = {}"
    using binvD(6,7) [OF inv] pl by blast+
  moreover have "free_set (nlevels a) (fl(l := ps)) = free_set (nlevels a) fl - {(p, l)}"
    using l fl dist by (intro free_set_pop) simp_all
  ultimately have "binv a m' (fl(l := ps)) al (insert (p, l) H)"
    unfolding binv_def
    using reps wf binvD(4,5) [OF inv] m'(3) by (simp add: same_except_def state_rep_def)
  then show thesis using that m'(1) by blast
qed

section \<open>Splitting and merging the block in transit\<close>

lemma binv_split:
  assumes inv: "binv a m fl al (insert (p, Suc k) H)" and nH: "(p, Suc k) \<notin> H"
  shows "binv a m fl al (insert (p + 2 ^ k, k) (insert (p, k) H))"
    and "(p, k) \<notin> H" and "(p + 2 ^ k, k) \<notin> insert (p, k) H"
proof -
  define B where "B = free_set (nlevels a) fl \<union> used_set al \<union> H"
  have t: "tiling (npages a) (nlevels a) (insert (p, Suc k) B)"
    using binvD(5) [OF inv] by (simp add: B_def)
  have n: "(p, Suc k) \<notin> B" using binvD(7) [OF inv] nH by (auto simp: B_def)
  have sub: "cells (p, k) \<subseteq> cells (p, Suc k)" "cells (p + 2 ^ k, k) \<subseteq> cells (p, Suc k)"
    by (auto simp: cells_Suc)
  have n1: "(p, k) \<notin> B" "(p + 2 ^ k, k) \<notin> B"
    using tiling_notin_if_overlap [OF t n] sub by blast+
  then show "(p, k) \<notin> H" "(p + 2 ^ k, k) \<notin> insert (p, k) H"
    by (simp_all add: B_def)
  have "tiling (npages a) (nlevels a) (insert (p, k) (insert (p + 2 ^ k, k) B))"
    using tiling_split [OF t n] .
  moreover have "insert (p, k) (insert (p + 2 ^ k, k) B) =
      free_set (nlevels a) fl \<union> used_set al \<union> insert (p + 2 ^ k, k) (insert (p, k) H)"
    by (auto simp: B_def)
  moreover have "insert (p + 2 ^ k, k) (insert (p, k) H) \<inter>
      (free_set (nlevels a) fl \<union> used_set al) = {}"
    using n1 binvD(7) [OF inv] unfolding B_def by blast
  ultimately show "binv a m fl al (insert (p + 2 ^ k, k) (insert (p, k) H))"
    using inv by (simp add: binv_def)
qed

lemma binv_merge:
  assumes inv: "binv a m fl al (insert (p, l) (insert (buddy_of l p, l) H))"
    and nH: "(p, l) \<notin> H" "(buddy_of l p, l) \<notin> H" and l: "Suc l < nlevels a"
  shows "binv a m fl al (insert (min p (buddy_of l p), Suc l) H)"
    and "(min p (buddy_of l p), Suc l) \<notin> H"
proof -
  define q where "q = min p (buddy_of l p)"
  define B where "B = free_set (nlevels a) fl \<union> used_set al \<union> H"
  have pl: "2 ^ l dvd p"
    using alignedD(2) [OF binv_hole_aligned [OF inv, of p l]] by simp
  have q: "2 ^ Suc l dvd q" "{(p, l), (buddy_of l p, l)} = {(q, l), (q + 2 ^ l, l)}"
    by (rule buddy_of_cases [OF pl]; auto simp: q_def)+
  have eq: "insert (p, l) (insert (buddy_of l p, l) B) = insert (q, l) (insert (q + 2 ^ l, l) B)"
    using q(2) by blast
  have "tiling (npages a) (nlevels a) (insert (p, l) (insert (buddy_of l p, l) B))"
    using binvD(5) [OF inv] by (simp add: B_def)
  then have t: "tiling (npages a) (nlevels a) (insert (q, l) (insert (q + 2 ^ l, l) B))"
    by (simp only: eq)
  have "(p, l) \<notin> B" "(buddy_of l p, l) \<notin> B"
    using binvD(7) [OF inv] nH unfolding B_def by blast+
  then have "b \<notin> B" if "b \<in> {(q, l), (q + 2 ^ l, l)}" for b
    using that unfolding q(2) [symmetric] by auto
  then have n: "(q, l) \<notin> B" "(q + 2 ^ l, l) \<notin> B" by simp_all
  have t2: "tiling (npages a) (nlevels a) (insert (q, Suc l) B)"
    using tiling_merge [OF t n q(1) l] .
  have nB: "(q, Suc l) \<notin> B"
  proof
    assume "(q, Suc l) \<in> B"
    then show False using tiling_unique [OF t, of "(q, Suc l)" "(q, l)" q] by simp
  qed
  then show "(min p (buddy_of l p), Suc l) \<notin> H" by (simp add: B_def q_def)
  have "insert (q, Suc l) B = free_set (nlevels a) fl \<union> used_set al \<union> insert (q, Suc l) H"
    by (auto simp: B_def)
  moreover have "insert (q, Suc l) H \<inter> (free_set (nlevels a) fl \<union> used_set al) = {}"
    using nB binvD(7) [OF inv] unfolding B_def by blast
  ultimately show "binv a m fl al (insert (min p (buddy_of l p), Suc l) H)"
    using inv t2 by (simp add: binv_def q_def)
qed

section \<open>Writing the state table\<close>

lemma list_rep_set_state [simp]: "list_rep a (set_state a' i v m) l ps = list_rep a m l ps"
  by (simp add: list_rep_def set_state_def)

lemma set_state_nat:
  "set_state a (of_nat p) v m = m \<lparr> mem_byte := (mem_byte m)(st_at a p := word_of_int v) \<rparr>"
  by (simp add: set_state_def st_at_def)

lemma binv_mark_used:
  assumes inv: "binv a m fl al (insert (p, l) H)" and nH: "(p, l) \<notin> H"
  shows "binv a (set_state a (of_nat p) (int l) m) fl (al(p \<mapsto> l)) H"
proof -
  note wf = binvD(1) [OF inv]
  note al = alignedD [OF binv_hole_aligned [OF inv, of p l, simplified]]
  have none: "al p = None"
  proof (cases "al p")
    case (Some k)
    then have "k = l" using binv_unique_start [OF inv, of p k l] by simp
    then show ?thesis using Some binvD(7) [OF inv] by auto
  qed
  note us = used_set_upd [where al = al and p = p and l = l, OF none]
  have "free_set (nlevels a) fl \<union> insert (p, l) (used_set al) \<union> H =
      free_set (nlevels a) fl \<union> used_set al \<union> insert (p, l) H" by blast
  moreover have "free_set (nlevels a) fl \<inter> insert (p, l) (used_set al) = {}"
      "H \<inter> (free_set (nlevels a) fl \<union> insert (p, l) (used_set al)) = {}"
    using binvD(6,7) [OF inv] nH by blast+
  moreover have "state_rep a (set_state a (of_nat p) (int l) m) (al(p \<mapsto> l))"
    using binvD(4) [OF inv] st_at_inj [OF wf _ al(4)]
    by (auto simp: state_rep_def set_state_nat)
  ultimately show ?thesis
    using inv unfolding binv_def us by simp
qed

lemma binv_mark_free:
  assumes inv: "binv a m fl al H" and used: "al p = Some l"
  shows "binv a (set_state a (of_nat p) BUDDY_NOTHING m) fl (al(p := None)) (insert (p, l) H)"
    and "(p, l) \<notin> H"
proof -
  note wf = binvD(1) [OF inv]
  note al = alignedD [OF binv_used_aligned [OF inv used]]
  note us = used_set_del [where al = al and p = p and l = l, OF used]
  have pl: "(p, l) \<in> used_set al" using used by simp
  show "(p, l) \<notin> H" using pl binvD(7) [OF inv] by blast
  have "free_set (nlevels a) fl \<union> (used_set al - {(p, l)}) \<union> insert (p, l) H =
      free_set (nlevels a) fl \<union> used_set al \<union> H" using pl by blast
  moreover have "free_set (nlevels a) fl \<inter> (used_set al - {(p, l)}) = {}"
      "insert (p, l) H \<inter> (free_set (nlevels a) fl \<union> (used_set al - {(p, l)})) = {}"
    using binvD(6,7) [OF inv] pl by blast+
  moreover have "state_rep a (set_state a (of_nat p) BUDDY_NOTHING m) (al(p := None))"
    using binvD(4) [OF inv] st_at_inj [OF wf _ al(4)]
    by (auto simp: state_rep_def set_state_nat)
  ultimately show "binv a (set_state a (of_nat p) BUDDY_NOTHING m) fl (al(p := None)) (insert (p, l) H)"
    using inv unfolding binv_def us by simp
qed

end
