(* ===== verification/Buddy_Alloc.thy ===== *)
theory Buddy_Alloc
  imports Buddy_Inv
begin

text \<open>
  Allocation: the abstract specification of \<open>lib_buddy_alloc\<close> on free lists and allocated
  blocks, and the proof that the code implements it.
\<close>

type_synonym astate = "(nat \<Rightarrow> nat list) \<times> (nat \<rightharpoonup> nat)"

section \<open>Specification\<close>

text \<open>The halves cut off while a block at \<open>p\<close> shrinks from level \<open>k\<close> to level \<open>l\<close>.\<close>

definition push_halves :: "nat \<Rightarrow> nat \<Rightarrow> nat \<Rightarrow> (nat \<Rightarrow> nat list) \<Rightarrow> (nat \<Rightarrow> nat list)" where
  "push_halves p l k fl = (\<lambda>j. if l \<le> j \<and> j < k then (p + 2 ^ j) # fl j else fl j)"

definition spec_alloc :: "nat \<Rightarrow> nat \<Rightarrow> astate \<Rightarrow> (nat \<times> astate) option" where
  "spec_alloc L l s = (case s of (fl, al) \<Rightarrow>
     (case find (\<lambda>k. fl k \<noteq> []) [l..<L] of
        None \<Rightarrow> None
      | Some k \<Rightarrow>
          (let p = hd (fl k)
           in Some (p, push_halves p l k (fl(k := tl (fl k))), al(p \<mapsto> l)))))"

lemma push_halves_refl [simp]: "push_halves p l l fl = fl"
  by (auto simp: push_halves_def)

lemma push_halves_Suc:
  "l \<le> k \<Longrightarrow> push_halves p l (Suc k) fl = push_halves p l k (fl(k := (p + 2 ^ k) # fl k))"
  by (auto simp: push_halves_def fun_eq_iff less_Suc_eq)

section \<open>The size argument\<close>

lemma int_shl1_word: "n < 31 \<Longrightarrow> (word_of_int (int_shl1 (int n)) :: u64) = 2 ^ n"
  by (simp add: int_shl1_small)

lemma pow2_word_inj: "i < 64 \<Longrightarrow> j < 64 \<Longrightarrow> ((2 :: u64) ^ i = 2 ^ j) = (i = j)"
  by (metis unat_pow2_u64 power_inject_exp one_less_numeral_iff semiring_norm(76))

lemma buddy_log2_from_pow2:
  "log + d = n \<Longrightarrow> n < 31 \<Longrightarrow> d < k \<Longrightarrow> buddy_log2_from (2 ^ n) k (int log) = int n"
proof (induction k arbitrary: log d)
  case (Suc k)
  show ?case
  proof (cases d)
    case 0
    then show ?thesis using Suc.prems by (simp add: int_shl1_word)
  next
    case (Suc d')
    have "(2 :: u64) ^ n \<noteq> 2 ^ log" using Suc Suc.prems by (simp add: pow2_word_inj)
    moreover have "buddy_log2_from (2 ^ n) k (int (log + 1)) = int n"
      using Suc.IH [of "log + 1" d'] Suc Suc.prems by simp
    ultimately show ?thesis using Suc Suc.prems by (simp add: int_shl1_word add.commute)
  qed
qed simp

lemma buddy_log2_pow2: "n < 31 \<Longrightarrow> buddy_log2 (2 ^ n) = int n"
  using buddy_log2_from_pow2 [of 0 n n 64] by (simp add: buddy_log2_def)

lemma buddy_log2_from_sound:
  "buddy_log2_from n k log \<noteq> -1 \<Longrightarrow>
    log \<le> buddy_log2_from n k log \<and> buddy_log2_from n k log < log + int k \<and>
    n = word_of_int (int_shl1 (buddy_log2_from n k log))"
  by (induction k arbitrary: log) (force split: if_splits)+

text \<open>
  On the 64 counts of the loop the shifted value is a power of two below \<open>2 ^ 31\<close>, or the
  sign-extended \<open>INT_MIN\<close>.
\<close>

lemma buddy_log2_sound:
  assumes "buddy_log2 n \<noteq> -1"
  shows "0 \<le> buddy_log2 n \<and> buddy_log2 n < 64 \<and> n = word_of_int (int_shl1 (buddy_log2 n))"
  using buddy_log2_from_sound [of n 64 0] assms by (simp add: buddy_log2_def)

lemma buddy_log2_level:
  assumes "buddy_log2 n = int l" and "l < 31"
  shows "n = 2 ^ l"
  using buddy_log2_sound [of n] assms int_shl1_word [of l] by simp

section \<open>Finding a block\<close>

lemma len_pos_iff:
  assumes "binv a m fl al H" and "l < nlevels a"
  shows "0 < bl_len m (hd_at a l) \<longleftrightarrow> fl l \<noteq> []"
proof -
  have "length (fl l) \<le> npages a" by (rule free_list_length [OF assms])
  then have "unat (of_nat (length (fl l)) :: u64) = length (fl l)"
    using wf_allocD(10) [OF binvD(1) [OF assms(1)]] by (intro unat_of_nat_small) simp
  moreover have "bl_len m (hd_at a l) = of_nat (length (fl l))"
    using list_rep_head(3) [OF binvD(2) [OF assms]] .
  ultimately show ?thesis by (simp add: word_less_nat_alt)
qed

lemma head_next:
  assumes "binv a m fl al H" and "l < nlevels a" and "fl l = p # ps"
  shows "fb_next m (hd_at a l) = pg a p" and "fb_level m (pg a p) = int l"
  using list_rep_head(4) [OF binvD(2) [OF assms(1,2)]] list_rep_node(2) [OF binvD(2) [OF assms(1,2)]]
    assms(3) by simp_all

lemma find_free_block_spec:
  assumes inv: "binv a m fl al H" and "l \<le> nlevels a"
  shows "find_free_block a (int l) m =
    (case find (\<lambda>k. fl k \<noteq> []) [l..<nlevels a] of None \<Rightarrow> 0 | Some k \<Rightarrow> pg a (hd (fl k)))"
  using assms(2)
proof (induction "nlevels a - l" arbitrary: l)
  case 0
  then show ?case
    using wf_allocD(3) [OF binvD(1) [OF inv]] by (simp add: find_free_block.simps)
next
  case (Suc d)
  then have l: "l < nlevels a" by simp
  have IH: "find_free_block a (int (Suc l)) m =
      (case find (\<lambda>k. fl k \<noteq> []) [Suc l..<nlevels a] of None \<Rightarrow> 0 | Some k \<Rightarrow> pg a (hd (fl k)))"
    using Suc.hyps(1) [of "Suc l"] Suc.hyps(2) l by simp
  have lv: "int l < b_levels a" using l wf_allocD(3) [OF binvD(1) [OF inv]] by simp
  have ha: "list_addr a (int l) = hd_at a l" by (simp add: hd_at_def)
  have up: "[l..<nlevels a] = l # [Suc l..<nlevels a]" using l by (rule upt_conv_Cons)
  show ?case
  proof (cases "fl l")
    case Nil
    then have "\<not> 0 < bl_len m (hd_at a l)" using len_pos_iff [OF inv l] by simp
    then show ?thesis
      using IH Nil lv by (simp add: find_free_block.simps [of a "int l"] ha up add.commute)
  next
    case (Cons p ps)
    then have "0 < bl_len m (hd_at a l)" using len_pos_iff [OF inv l] by simp
    then show ?thesis
      using Cons lv head_next(1) [OF inv l Cons]
      by (simp add: find_free_block.simps [of a "int l"] ha up)
  qed
qed

section \<open>Cutting a block down\<close>

lemma list_at_hd:
  assumes "wf_alloc a" and "l < nlevels a"
  shows "list_at a (int l) = Inr (hd_at a l)"
  using wf_allocD(3) [OF assms(1)] assms(2) by (simp add: list_at_def hd_at_def)

lemma buddy_devide_loop_spec:
  assumes "binv a m fl al (insert (p, k) H)" and "(p, k) \<notin> H" and "l \<le> k"
  obtains m' where "buddy_devide_loop a (pg a p) (int l) (int k) m = Inr m'"
    and "binv a m' (push_halves p l k fl) al (insert (p, l) H)" and "(p, l) \<notin> H"
  using assms
proof (induction k arbitrary: m fl thesis)
  case 0
  then show ?case by (simp add: buddy_devide_loop.simps)
next
  case (Suc k)
  show ?case
  proof (cases "l = Suc k")
    case True
    then show ?thesis using Suc.prems by (simp add: buddy_devide_loop.simps)
  next
    case False
    then have lk: "l \<le> k" using Suc.prems(4) by simp
    note inv = Suc.prems(2)
    note wf = binvD(1) [OF inv]
    have k: "k < nlevels a"
      using alignedD(1) [OF binv_hole_aligned [OF inv, of p "Suc k"]] by simp
    note sp = binv_split [OF inv Suc.prems(3)]
    obtain m1 where m1: "list_add (hd_at a k) (pg a (p + 2 ^ k)) m = Inr m1"
        "binv a m1 (fl(k := (p + 2 ^ k) # fl k)) al (insert (p, k) H)"
      using binv_list_add [OF sp(1,3)] .
    obtain m' where m': "buddy_devide_loop a (pg a p) (int l) (int k) m1 = Inr m'"
        "binv a m' (push_halves p l k (fl(k := (p + 2 ^ k) # fl k))) al (insert (p, l) H)"
        "(p, l) \<notin> H"
      using Suc.IH [OF _ m1(2) sp(2) lk] by blast
    have sh: "nat (int k mod 64) = k" using k wf_allocD(2) [OF wf] by simp
    have "buddy_devide_loop a (pg a p) (int l) (int (Suc k)) m = Inr m'"
      using m1(1) m'(1) lk k sh
      by (simp add: buddy_devide_loop.simps [of a _ _ "1 + int k"] list_at_hd [OF wf] pg_split)
    then show ?thesis using Suc.prems(1) m'(2,3) lk by (simp add: push_halves_Suc)
  qed
qed

lemma buddy_devide_spec:
  assumes inv: "binv a m fl al H" and k: "k < nlevels a" and fl: "fl k = p # ps" and l: "l \<le> k"
  obtains m' where "buddy_devide a (pg a p) (int l) m = Inr (pg a p, m')"
    and "binv a m' (push_halves p l k (fl(k := ps))) al (insert (p, l) H)" and "(p, l) \<notin> H"
proof -
  have nH: "(p, k) \<notin> H" using binvD(7) [OF inv] k fl by auto
  obtain m1 where m1: "remove_block (pg a p) m = Inr m1"
      "binv a m1 (fl(k := ps)) al (insert (p, k) H)"
    using binv_remove_first [OF inv k fl] .
  obtain m' where m': "buddy_devide_loop a (pg a p) (int l) (int k) m1 = Inr m'"
      "binv a m' (push_halves p l k (fl(k := ps))) al (insert (p, l) H)" "(p, l) \<notin> H"
    using buddy_devide_loop_spec [OF m1(2) nH l] .
  have "buddy_devide a (pg a p) (int l) m = Inr (pg a p, m')"
    using m1(1) m'(1) l head_next(2) [OF inv k fl] by (simp add: buddy_devide_def)
  then show thesis using that m'(2,3) by blast
qed

section \<open>The whole operation\<close>

lemma find_upt_SomeD:
  assumes "find P [l..<L] = Some k"
  shows "l \<le> k" and "k < L" and "P k" and "\<forall>j. l \<le> j \<and> j < k \<longrightarrow> \<not> P j"
proof -
  obtain i where i: "i < length [l..<L]" "P ([l..<L] ! i)" "k = [l..<L] ! i"
      "\<forall>j < i. \<not> P ([l..<L] ! j)"
    using assms by (auto simp: find_Some_iff)
  then show "l \<le> k" "k < L" "P k" by auto
  show "\<forall>j. l \<le> j \<and> j < k \<longrightarrow> \<not> P j"
  proof (intro allI impI)
    fix j assume "l \<le> j \<and> j < k"
    then have "j - l < i" "[l..<L] ! (j - l) = j" using i(1,3) by auto
    then show "\<not> P j" using i(4) by metis
  qed
qed

lemma lib_buddy_alloc_refines:
  assumes inv: "binv a m fl al H" and l: "l < nlevels a"
  shows "case spec_alloc (nlevels a) l (fl, al) of
      None \<Rightarrow> lib_buddy_alloc a (2 ^ l) m = Inr (0, m)
    | Some (p, fl', al') \<Rightarrow> \<exists>m'. lib_buddy_alloc a (2 ^ l) m = Inr (pg a p, m') \<and>
        binv a m' fl' al' H"
proof -
  note wf = binvD(1) [OF inv]
  have l31: "l < 31" using l wf_allocD(2) [OF wf] by simp
  have ff: "find_free_block a (int l) m =
      (case find (\<lambda>k. fl k \<noteq> []) [l..<nlevels a] of None \<Rightarrow> 0 | Some k \<Rightarrow> pg a (hd (fl k)))"
    using find_free_block_spec [OF inv, of l] l by simp
  have lv: "\<not> int l \<ge> b_levels a" using l wf_allocD(3) [OF wf] by simp
  note pre = buddy_log2_pow2 [OF l31] int_shl1_word [OF l31] lv ff
  show ?thesis
  proof (cases "find (\<lambda>k. fl k \<noteq> []) [l..<nlevels a]")
    case None
    then show ?thesis using pre by (simp add: spec_alloc_def lib_buddy_alloc_def)
  next
    case (Some k)
    note k = find_upt_SomeD [OF Some]
    obtain p ps where fl: "fl k = p # ps" using k(3) by (cases "fl k") auto
    have pN: "p < npages a"
      using binv_free_aligned [OF inv k(2), of p] fl alignedD(4) by simp
    obtain m1 where m1: "buddy_devide a (pg a p) (int l) m = Inr (pg a p, m1)"
        "binv a m1 (push_halves p l k (fl(k := ps))) al (insert (p, l) H)" "(p, l) \<notin> H"
      using buddy_devide_spec [OF inv k(2) fl k(1)] .
    have "lib_buddy_alloc a (2 ^ l) m = Inr (pg a p, set_state a (of_nat p) (int l) m1)"
      using pre Some fl m1(1) pg_nonzero [OF wf pN] get_page_number_pg [OF wf pN] k(1)
        head_next(2) [OF inv k(2) fl]
      by (simp add: lib_buddy_alloc_def)
    moreover have "binv a (set_state a (of_nat p) (int l) m1)
        (push_halves p l k (fl(k := ps))) (al(p \<mapsto> l)) H"
      using binv_mark_used [OF m1(2,3)] .
    ultimately show ?thesis using Some fl by (simp add: spec_alloc_def)
  qed
qed

end
