(* ===== verification/Buddy_Free.thy ===== *)
theory Buddy_Free
  imports Buddy_Alloc
begin

text \<open>
  Release.  With an unsigned plain \<open>char\<close>, as on the RISC-V target, a released block goes back to
  the free list of its own level; with a signed one it is merged with its neighbour as long as
  that is free.  Both are compared with their specifications here.
\<close>

section \<open>Specifications\<close>

definition spec_free :: "nat \<Rightarrow> astate \<Rightarrow> astate option" where
  "spec_free p s = (case s of (fl, al) \<Rightarrow>
     (case al p of None \<Rightarrow> None | Some l \<Rightarrow> Some (fl(l := p # fl l), al(p := None))))"

text \<open>
  Merging as the comment of \<open>add_free_block\<close> describes it, for at most \<open>d\<close> levels: while the
  neighbour is free, take it out of its list and go one level up.
\<close>

fun spec_merge :: "nat \<Rightarrow> nat \<Rightarrow> nat \<Rightarrow> (nat \<Rightarrow> nat list) \<Rightarrow> nat \<times> nat \<times> (nat \<Rightarrow> nat list)" where
  "spec_merge 0 l p fl = (l, p, fl)"
| "spec_merge (Suc d) l p fl =
     (if buddy_of l p \<in> set (fl l)
      then spec_merge d (Suc l) (min p (buddy_of l p)) (fl(l := remove1 (buddy_of l p) (fl l)))
      else (l, p, fl))"

definition spec_free_merge :: "nat \<Rightarrow> nat \<Rightarrow> astate \<Rightarrow> astate option" where
  "spec_free_merge L p s = (case s of (fl, al) \<Rightarrow>
     (case al p of
        None \<Rightarrow> None
      | Some l \<Rightarrow> (case spec_merge (L - 1 - l) l p fl of
          (l', p', fl') \<Rightarrow> Some (fl'(l' := p' # fl' l'), al(p := None)))))"

text \<open>Every neighbour taken out is the first of its list, and none is of the top level.\<close>

fun lifo_merge :: "nat \<Rightarrow> nat \<Rightarrow> nat \<Rightarrow> (nat \<Rightarrow> nat list) \<Rightarrow> bool" where
  "lifo_merge 0 l p fl \<longleftrightarrow> buddy_of l p \<notin> set (fl l)"
| "lifo_merge (Suc d) l p fl \<longleftrightarrow>
     (buddy_of l p \<in> set (fl l) \<longrightarrow>
        fl l = buddy_of l p # tl (fl l) \<and>
        lifo_merge d (Suc l) (min p (buddy_of l p)) (fl(l := tl (fl l))))"

section \<open>Blocks as the code tests them\<close>

lemma block_exists_iff:
  assumes wf: "wf_alloc a" and p: "p < 2 ^ 31" and l: "l < nlevels a"
  shows "block_exists a (int p) (int l) \<longleftrightarrow> 2 ^ l dvd p \<and> p + 2 ^ l \<le> npages a"
proof -
  have l31: "l < 31" using l wf_allocD(2) [OF wf] by simp
  have sh: "int_shl1 (int l) = 2 ^ l" using int_shl1_small [OF l31] .
  have "int p AND (2 ^ l - 1) = take_bit l (int p)"
    by (simp add: take_bit_eq_mask mask_eq_exp_minus_1)
  then have andz: "(int p AND (2 ^ l - 1) = 0) \<longleftrightarrow> 2 ^ l dvd p"
    by (simp add: take_bit_eq_mod dvd_eq_mod_eq_0 flip: of_nat_mod)
      (metis int_dvd_int_iff of_nat_numeral of_nat_power mod_0_imp_dvd dvd_imp_mod_0)
  have "(2::nat) ^ l < 2 ^ 31" using l31 by (intro power_strict_increasing) simp_all
  then have "p + 2 ^ l < 2 ^ 64" using p by simp
  then have "unat (of_nat (p + 2 ^ l) :: u64) = p + 2 ^ l" by (rule unat_of_nat_small)
  moreover have "word_of_int (int p + 2 ^ l) = (of_nat (p + 2 ^ l) :: u64)" by simp
  ultimately have "(word_of_int (int p + 2 ^ l) \<le> b_pages a) \<longleftrightarrow> p + 2 ^ l \<le> npages a"
    by (simp only: word_le_nat_alt npages_def)
  then show ?thesis
    using l wf_allocD(3) [OF wf] andz by (auto simp: block_exists_def sh)
qed

lemma npn_word:
  assumes "2 ^ l dvd p" and "l < 31"
  shows "(of_nat p :: u64) XOR push_bit (nat (int l mod 64)) 1 = of_nat (buddy_of l p)"
proof -
  have "nat (int l mod 64) = l" using assms(2) by simp
  then show ?thesis
    by (simp add: buddy_of_xor [OF assms(1)] of_nat_xor_eq push_bit_eq_mult)
qed

lemma i32_of_nat:
  assumes "p < 2 ^ 31"
  shows "i32_of_u64 (of_nat p) = int p"
proof -
  have "unat (of_nat p :: u64) = p" using assms by (intro unat_of_nat_small) simp
  then show ?thesis using i32_of_u64_small [of "of_nat p"] assms by simp
qed

lemma buddy_of_bound:
  assumes "wf_alloc a" and "p < npages a" and "l < nlevels a"
  shows "buddy_of l p < 2 ^ 31"
proof -
  have "(2::nat) ^ l \<le> 2 ^ 30"
    using wf_allocD(2) [OF assms(1)] assms(3) by (intro power_increasing) simp_all
  moreover have "p < 2 ^ 26" using wf_allocD(10) [OF assms(1)] assms(2) by simp
  ultimately show ?thesis by (simp add: buddy_of_def) linarith
qed

section \<open>The table byte of a page\<close>

lemma state_byte_used:
  assumes "binv a m fl al H" and "al p = Some l"
  shows "get_state cs a (of_nat p) m = int l"
proof -
  note al = alignedD [OF binv_used_aligned [OF assms]]
  have "mem_byte m (st_at a p) = word_of_int (int l)"
    using binvD(4) [OF assms(1)] al(4) assms(2) by (simp add: state_rep_def)
  moreover have "l < 31" using al(1) wf_allocD(2) [OF binvD(1) [OF assms(1)]] by simp
  ultimately show ?thesis
    by (simp add: get_state_def st_at_def int_of_char_def unsigned_of_nat signed_of_nat
        take_bit_nat_eq_self signed_take_bit_int_eq_self)
qed

lemma state_byte_unused:
  assumes "binv a m fl al H" and "al p = None" and "p < npages a"
  shows "get_state cs a (of_nat p) m = (if cs then -1 else 255)"
proof -
  have "mem_byte m (st_at a p) = word_of_int (-1)"
    using binvD(4) [OF assms(1)] assms(2,3) by (simp add: state_rep_def BUDDY_NOTHING_def)
  then show ?thesis
    by (simp add: get_state_def st_at_def int_of_char_def unsigned_minus_1_eq_mask
        mask_eq_exp_minus_1)
qed

lemma get_state_unsigned: "get_state False a i m \<noteq> BUDDY_NOTHING"
proof -
  have "0 \<le> get_state False a i m" by (simp add: get_state_def int_of_char_def)
  then show ?thesis by (simp add: BUDDY_NOTHING_def)
qed

section \<open>Unsigned char: no merging\<close>

lemma add_free_block_loop_unsigned:
  assumes "lvl < b_levels a" and "block_exists a (i32_of_u64 pn) lvl"
  shows "add_free_block_loop False a pn lvl m = Inr (pn, lvl, m)"
  using assms get_state_unsigned by (simp add: add_free_block_loop.simps Let_def)

lemma hole_exists:
  assumes "binv a m fl al H" and "(p, l) \<in> H"
  shows "block_exists a (i32_of_u64 (of_nat p)) (int l)" and "int l < b_levels a"
    and "p < npages a" and "l < nlevels a" and "2 ^ l dvd p" and "l < 31"
    and "i32_of_u64 (of_nat p) = int p"
proof -
  note wf = binvD(1) [OF assms(1)]
  note al = alignedD [OF binv_hole_aligned [OF assms]]
  show "p < npages a" "l < nlevels a" "2 ^ l dvd p" using al by simp_all
  show "l < 31" using al(1) wf_allocD(2) [OF wf] by simp
  show "int l < b_levels a" using al(1) wf_allocD(3) [OF wf] by simp
  have p: "p < 2 ^ 31" using al(4) wf_allocD(10) [OF wf] by simp
  then show "i32_of_u64 (of_nat p) = int p" by (rule i32_of_nat)
  then show "block_exists a (i32_of_u64 (of_nat p)) (int l)"
    using block_exists_iff [OF wf p al(1)] al(2,3) by simp
qed

lemma add_free_block_unsigned:
  assumes inv: "binv a m fl al (insert (p, l) H)" and nH: "(p, l) \<notin> H"
  obtains m' where "add_free_block False a (of_nat p) (int l) m = Inr m'"
    and "binv a m' (fl(l := p # fl l)) al H"
proof -
  note wf = binvD(1) [OF inv]
  have pH: "(p, l) \<in> insert (p, l) H" by simp
  note h = hole_exists [OF inv pH]
  obtain m' where m': "list_add (hd_at a l) (pg a p) m = Inr m'"
      "binv a m' (fl(l := p # fl l)) al H"
    using binv_list_add [OF inv nH] .
  have "add_free_block False a (of_nat p) (int l) m = Inr m'"
    using m'(1) h add_free_block_loop_unsigned [OF h(2,1), of m]
    by (simp add: add_free_block_def list_at_hd [OF wf] get_page_ptr_pg [OF wf])
  then show thesis using that m'(2) by blast
qed

lemma lib_buddy_free_refines:
  assumes inv: "binv a m fl al H" and used: "al p = Some l"
  shows "\<exists>m'. lib_buddy_free False a (pg a p) m = Inr m' \<and>
    binv a m' (fl(l := p # fl l)) (al(p := None)) H"
proof -
  note wf = binvD(1) [OF inv]
  note al = alignedD [OF binv_used_aligned [OF inv used]]
  note mf = binv_mark_free [OF inv used]
  obtain m' where "add_free_block False a (of_nat p) (int l)
        (set_state a (of_nat p) BUDDY_NOTHING m) = Inr m'"
      "binv a m' (fl(l := p # fl l)) (al(p := None)) H"
    using add_free_block_unsigned [OF mf] .
  then show ?thesis
    using state_byte_used [OF inv used, of False] al(1) wf_allocD(3) [OF wf]
    by (simp add: lib_buddy_free_def get_page_number_pg [OF wf al(4)])
qed

section \<open>Rejected releases\<close>

lemma lib_buddy_free_not_a_page:
  "get_page_number a x = -1 \<Longrightarrow>
    lib_buddy_free cs a x m = Inl (Panic ''buddy_free - address is not correct!'')"
  by (simp add: lib_buddy_free_def)

lemma lib_buddy_free_not_allocated:
  assumes inv: "binv a m fl al H" and "al p = None" and "p < npages a"
  shows "lib_buddy_free cs a (pg a p) m =
    Inl (if cs then Panic ''buddy_free - address is not correct!'' else AssertFailed Buddy_alloc_c 367)"
proof -
  note wf = binvD(1) [OF inv]
  have "b_levels a \<le> 31" using wf by (simp add: wf_alloc_def)
  then show ?thesis
    using state_byte_unused [OF assms, of cs]
    by (simp add: lib_buddy_free_def get_page_number_pg [OF wf assms(3)])
qed

section \<open>Signed char: merging\<close>

text \<open>
  What the tests of \<open>add_free_block\<close> find at the neighbour of a block that is neither free nor
  allocated: it does not exist, or it starts an allocated block, or it starts a free block of the
  same or a lower level.
\<close>

lemma neighbour_cases:
  assumes inv: "binv a m fl al {(p, l)}"
  obtains (absent) "\<not> buddy_of l p + 2 ^ l \<le> npages a" "buddy_of l p \<notin> set (fl l)"
  | (used) k where "buddy_of l p + 2 ^ l \<le> npages a" "al (buddy_of l p) = Some k"
      "buddy_of l p \<notin> set (fl l)"
  | (partly) k where "buddy_of l p + 2 ^ l \<le> npages a" "al (buddy_of l p) = None"
      "k < l" "fb_level m (pg a (buddy_of l p)) = int k" "buddy_of l p \<notin> set (fl l)"
  | (free) "buddy_of l p + 2 ^ l \<le> npages a" "al (buddy_of l p) = None"
      "fb_level m (pg a (buddy_of l p)) = int l" "buddy_of l p \<in> set (fl l)"
proof -
  define q where "q = buddy_of l p"
  note h = hole_exists [OF inv, of p l, simplified]
  have qp: "q \<noteq> p" using h(5) by (simp add: q_def buddy_of_neq)
  note uni = binv_unique_start [OF inv, of q]
  show thesis
  proof (cases "q + 2 ^ l \<le> npages a")
    case False
    moreover have "q \<notin> set (fl l)"
      using binv_free_aligned [OF inv h(4), of q] alignedD(3) False by blast
    ultimately show ?thesis using absent by (simp add: q_def)
  next
    case True
    obtain k where k: "k \<le> l" "(q, k) \<in> free_set (nlevels a) fl \<union> used_set al \<union> {(p, l)}"
      using tiling_neighbour [OF binvD(5) [OF inv], of p l] True by (auto simp: q_def)
    show ?thesis
    proof (cases "al q")
      case (Some j)
      have "q \<notin> set (fl l)"
      proof
        assume "q \<in> set (fl l)"
        then have "(q, l) \<in> free_set (nlevels a) fl \<inter> used_set al"
          using uni [of j l] Some h(4) by simp
        then show False using binvD(6) [OF inv] by blast
      qed
      then show ?thesis using used True Some by (simp add: q_def)
    next
      case None
      then have fk: "k < nlevels a" "q \<in> set (fl k)" using k(2) qp by auto
      then have lev: "fb_level m (pg a q) = int k"
        using list_rep_node(2) [OF binvD(2) [OF inv fk(1)]] by simp
      have "q \<in> set (fl l) \<longleftrightarrow> k = l" using uni [of k l] fk h(4) by auto
      then show ?thesis
        using k(1) True None lev partly [of k] free by (cases "k = l") (auto simp: q_def)
    qed
  qed
qed

lemma add_free_block_loop_unfold:
  assumes inv: "binv a m fl al {(p, l)}"
  shows "add_free_block_loop cs a (of_nat p) (int l) m =
    (if \<not> buddy_of l p + 2 ^ l \<le> npages a then Inr (of_nat p, int l, m)
     else if get_state cs a (of_nat (buddy_of l p)) m \<noteq> -1 then Inr (of_nat p, int l, m)
     else guardE (fb_level m (pg a (buddy_of l p)) \<le> int l) (AssertFailed Buddy_alloc_c 331)
       (if fb_level m (pg a (buddy_of l p)) < int l then Inr (of_nat p, int l, m)
        else bindE (remove_block (pg a (buddy_of l p)) m)
          (add_free_block_loop cs a (of_nat (min p (buddy_of l p))) (int (Suc l)))))"
proof -
  note h = hole_exists [OF inv, of p l, simplified]
  note wf = binvD(1) [OF inv]
  note b = buddy_of_bound [OF wf h(3,4)]
  have bd: "2 ^ l dvd buddy_of l p" using h(5) by (rule buddy_of_dvd)
  have ex: "block_exists a (i32_of_u64 (of_nat (buddy_of l p))) (int l) \<longleftrightarrow>
      buddy_of l p + 2 ^ l \<le> npages a"
    using block_exists_iff [OF wf b h(4)] bd i32_of_nat [OF b] by simp
  have ptr: "get_page_ptr a (i32_of_u64 (of_nat (buddy_of l p))) = pg a (buddy_of l p)"
    if "buddy_of l p + 2 ^ l \<le> npages a"
  proof -
    have "(0::nat) < 2 ^ l" by simp
    then have "buddy_of l p < npages a" using that by linarith
    then show ?thesis using get_page_ptr_pg [OF wf] i32_of_nat [OF b] by simp
  qed
  have p31: "p < 2 ^ 31" using h(3) wf_allocD(10) [OF wf] by simp
  have "unat (of_nat p :: u64) = p" "unat (of_nat (buddy_of l p) :: u64) = buddy_of l p"
    using p31 b by (intro unat_of_nat_small; simp)+
  then have mn: "(if (of_nat (buddy_of l p) :: u64) < of_nat p then of_nat (buddy_of l p)
      else of_nat p) = (of_nat (min p (buddy_of l p)) :: u64)"
    by (simp add: word_less_nat_alt min_def)
  show ?thesis
    unfolding add_free_block_loop.simps [of cs a "of_nat p"] npn_word [OF h(5,6)] Let_def ex mn
    using h(1,2,7) ptr by (simp add: BUDDY_NOTHING_def add.commute)
qed

lemma add_free_block_loop_stop:
  assumes inv: "binv a m fl al {(p, l)}" and "buddy_of l p \<notin> set (fl l)"
  shows "add_free_block_loop True a (of_nat p) (int l) m = Inr (of_nat p, int l, m)"
  using inv
proof (cases rule: neighbour_cases)
  case absent
  then show ?thesis by (simp add: add_free_block_loop_unfold [OF inv])
next
  case (used k)
  then show ?thesis
    using state_byte_used [OF inv used(2)] by (simp add: add_free_block_loop_unfold [OF inv])
next
  case (partly k)
  then show ?thesis by (simp add: add_free_block_loop_unfold [OF inv])
next
  case free
  then show ?thesis using assms(2) by simp
qed

lemma add_free_block_loop_step:
  assumes inv: "binv a m fl al {(p, l)}" and "buddy_of l p \<in> set (fl l)"
  shows "add_free_block_loop True a (of_nat p) (int l) m =
    bindE (remove_block (pg a (buddy_of l p)) m)
      (add_free_block_loop True a (of_nat (min p (buddy_of l p))) (int (Suc l)))"
  using inv
proof (cases rule: neighbour_cases)
  case free
  have "(0::nat) < 2 ^ l" by simp
  then have "buddy_of l p < npages a" using free(1) by linarith
  then have "get_state True a (of_nat (buddy_of l p)) m = -1"
    using state_byte_unused [OF inv free(2), of True] by simp
  then show ?thesis using free by (simp add: add_free_block_loop_unfold [OF inv])
qed (use assms(2) in simp_all)

lemma add_free_block_loop_signed:
  assumes "binv a m fl al {(p, l)}" and "lifo_merge d l p fl"
    and "spec_merge d l p fl = (l', p', fl')" and "d = nlevels a - 1 - l"
  shows "\<exists>m'. add_free_block_loop True a (of_nat p) (int l) m = Inr (of_nat p', int l', m') \<and>
    binv a m' fl' al {(p', l')}"
  using assms
proof (induction d arbitrary: l p fl m)
  case 0
  then show ?case using add_free_block_loop_stop [OF 0(1)] by auto
next
  case (Suc d)
  note inv = Suc.prems(1)
  define q where "q = buddy_of l p"
  show ?case
  proof (cases "q \<in> set (fl l)")
    case False
    then show ?thesis
      using add_free_block_loop_stop [OF inv] Suc.prems(1,3) by (simp add: q_def)
  next
    case True
    have l: "l < nlevels a" and sl: "Suc l < nlevels a"
      using hole_exists(4) [OF inv, of p l] Suc.prems(4) by simp_all
    have lifo: "fl l = q # tl (fl l)" "lifo_merge d (Suc l) (min p q) (fl(l := tl (fl l)))"
      using Suc.prems(2) True by (simp_all add: q_def)
    have rm: "remove1 q (fl l) = tl (fl l)" using lifo(1) by (metis remove1.simps(2))
    obtain m1 where m1: "remove_block (pg a q) m = Inr m1"
        "binv a m1 (fl(l := tl (fl l))) al (insert (q, l) {(p, l)})"
      using binv_remove_first [OF inv l lifo(1)] .
    have qp: "q \<noteq> p"
      using hole_exists(5) [OF inv, of p l] by (simp add: q_def buddy_of_neq)
    have "binv a m1 (fl(l := tl (fl l))) al (insert (p, l) (insert (buddy_of l p, l) {}))"
      using m1(2) by (simp add: q_def insert_commute)
    then have inv1: "binv a m1 (fl(l := tl (fl l))) al {(min p q, Suc l)}"
      using binv_merge(1) [OF _ _ _ sl, of m1 _ al p "{}"] by (simp add: q_def)
    have sp: "spec_merge d (Suc l) (min p q) (fl(l := tl (fl l))) = (l', p', fl')"
      using Suc.prems(3) True rm by (simp add: q_def)
    have step: "add_free_block_loop True a (of_nat p) (int l) m =
        add_free_block_loop True a (of_nat (min p q)) (int (Suc l)) m1"
      using add_free_block_loop_step [OF inv] True m1(1) by (simp add: q_def)
    show ?thesis
      unfolding step using Suc.IH [OF inv1 lifo(2) sp] Suc.prems(4) by simp
  qed
qed

lemma lib_buddy_free_merge_refines:
  assumes inv: "binv a m fl al {}" and used: "al p = Some l"
    and lifo: "lifo_merge (nlevels a - 1 - l) l p fl"
    and spec: "spec_free_merge (nlevels a) p (fl, al) = Some (fl', al')"
  shows "\<exists>m'. lib_buddy_free True a (pg a p) m = Inr m' \<and> binv a m' fl' al' {}"
proof -
  note wf = binvD(1) [OF inv]
  note al = alignedD [OF binv_used_aligned [OF inv used]]
  define m0 where "m0 = set_state a (of_nat p) BUDDY_NOTHING m"
  have inv0: "binv a m0 fl (al(p := None)) {(p, l)}"
    using binv_mark_free(1) [OF inv used] by (simp add: m0_def)
  obtain l2 p2 fl2 where sp: "spec_merge (nlevels a - 1 - l) l p fl = (l2, p2, fl2)"
    by (rule prod_cases3)
  obtain m1 where m1: "add_free_block_loop True a (of_nat p) (int l) m0 = Inr (of_nat p2, int l2, m1)"
      "binv a m1 fl2 (al(p := None)) {(p2, l2)}"
    using add_free_block_loop_signed [OF inv0 lifo sp refl] by blast
  obtain m' where m': "list_add (hd_at a l2) (pg a p2) m1 = Inr m'"
      "binv a m' (fl2(l2 := p2 # fl2 l2)) (al(p := None)) {}"
    using binv_list_add [OF m1(2)] by auto
  note h0 = hole_exists [OF inv0, of p l, simplified]
  note h1 = hole_exists [OF m1(2), of p2 l2, simplified]
  have "add_free_block True a (of_nat p) (int l) m0 = Inr m'"
    using m1(1) m'(1) h0 h1
    by (simp add: add_free_block_def list_at_hd [OF wf] get_page_ptr_pg [OF wf])
  then have "lib_buddy_free True a (pg a p) m = Inr m'"
    using state_byte_used [OF inv used, of True] al(1) wf_allocD(3) [OF wf]
    by (simp add: lib_buddy_free_def get_page_number_pg [OF wf al(4)] m0_def)
  moreover have "fl' = fl2(l2 := p2 # fl2 l2)" "al' = al(p := None)"
    using spec used sp by (simp_all add: spec_free_merge_def)
  ultimately show ?thesis using m'(2) by blast
qed

end
