(* ===== verification/Buddy_Init.thy ===== *)
theory Buddy_Init
  imports Buddy_Alloc
begin

text \<open>
  Initialisation: \<open>lib_buddy_init\<close> lays the metadata out in front of the pages and hands every
  working page to exactly one free list.
\<close>

section \<open>Specification\<close>

fun spec_init_lower :: "nat \<Rightarrow> nat \<Rightarrow> nat \<Rightarrow> (nat \<Rightarrow> nat list) \<Rightarrow> (nat \<Rightarrow> nat list)" where
  "spec_init_lower N 0 c fl = fl"
| "spec_init_lower N (Suc k) c fl =
     (if 2 ^ k \<le> N - c then spec_init_lower N k (c + 2 ^ k) (fl(k := c # fl k))
      else spec_init_lower N k c fl)"

definition spec_init_top :: "nat \<Rightarrow> nat \<Rightarrow> nat \<Rightarrow> nat list" where
  "spec_init_top t n = (\<lambda>l. if l = t then rev (map (\<lambda>i. i * 2 ^ t) [0..<n]) else [])"

definition spec_init :: "nat \<Rightarrow> nat \<Rightarrow> nat \<Rightarrow> nat list" where
  "spec_init N L = (let t = L - 1; n = N div 2 ^ t
     in spec_init_lower N t (n * 2 ^ t) (spec_init_top t n))"

section \<open>The invariant during initialisation\<close>

text \<open>Lists from level \<open>k\<close> up are initialised, and their blocks tile the first \<open>c\<close> pages.\<close>

definition iinv :: "buddy_allocator \<Rightarrow> buddy_heap \<Rightarrow> nat \<Rightarrow> (nat \<Rightarrow> nat list) \<Rightarrow> nat \<Rightarrow> bool" where
  "iinv a m k fl c \<longleftrightarrow> wf_alloc a \<and> c \<le> npages a \<and>
     (\<forall>l. k \<le> l \<and> l < nlevels a \<longrightarrow> list_rep a m l (fl l) \<and> distinct (fl l)) \<and>
     (\<forall>l < k. fl l = []) \<and> tiling c (nlevels a) (free_set (nlevels a) fl)"

lemma iinv_page_bound:
  assumes "iinv a m k fl c" and "l < nlevels a" and "p \<in> set (fl l)"
  shows "p < c" and "p < npages a"
proof -
  show "p < c"
    using assms tiling_aligned [of c "nlevels a" "free_set (nlevels a) fl" p l]
    by (auto simp: iinv_def dest: alignedD(4))
  then show "p < npages a" using assms(1) by (simp add: iinv_def)
qed

lemma tiling_extend:
  assumes "tiling c L B" and "2 ^ l dvd c" and "l < L"
  shows "tiling (c + 2 ^ l) L (insert (c, l) B)"
proof -
  have sub: "cells b \<subseteq> {..<c}" if "b \<in> B" for b using assms(1) that by (auto simp: tiling_def)
  have "cells b \<inter> cells (c, l) = {}" if "b \<in> B" for b
  proof (rule equals0I)
    fix x assume "x \<in> cells b \<inter> cells (c, l)"
    then have "x < c" "c \<le> x" using sub [OF that] by auto
    then show False by simp
  qed
  moreover have "aligned (c + 2 ^ l) L b" if "b \<in> B" for b
    using assms(1) that by (auto simp: tiling_def aligned_def trans_le_add1)
  moreover have "(\<Union>b \<in> insert (c, l) B. cells b) = {..<c + 2 ^ l}"
    using assms(1) by (auto simp: tiling_def cells_def)
  ultimately show ?thesis
    using assms by (auto simp: tiling_def aligned_def Int_commute)
qed

lemma iinv_list_init:
  assumes "iinv a m (Suc k) fl c" and "k < nlevels a"
  shows "iinv a (list_init (hd_at a k) (int k) m) k fl c"
    and "mem_byte (list_init (hd_at a k) (int k) m) = mem_byte m"
proof -
  let ?m = "list_init (hd_at a k) (int k) m"
  have wf: "wf_alloc a" using assms(1) by (simp add: iinv_def)
  have same: "same_except {hd_at a k} m ?m" by (simp add: same_except_def list_init_def)
  then show "mem_byte ?m = mem_byte m" by (simp add: same_except_def)
  have "list_rep a ?m l (fl l) \<and> distinct (fl l)" if l: "k \<le> l" "l < nlevels a" for l
  proof (cases "l = k")
    case True
    moreover have "fl k = []" using assms(1) by (simp add: iinv_def)
    ultimately show ?thesis by (simp add: list_rep_def node_list_def list_init_def)
  next
    case False
    then have "list_rep a m l (fl l)" "distinct (fl l)" using assms(1) l by (simp_all add: iinv_def)
    moreover have "hd_at a l \<notin> {hd_at a k}" using hd_at_inj [OF wf l(2) assms(2)] False by simp
    moreover have "pg a p \<notin> {hd_at a k}" if "p \<in> set (fl l)" for p
      using pg_not_hd [OF wf iinv_page_bound(2) [OF assms(1) l(2) that] assms(2)] by simp
    ultimately show ?thesis using list_rep_frame [OF _ same] by blast
  qed
  then show "iinv a ?m k fl c" using assms(1) by (auto simp: iinv_def less_Suc_eq)
qed

lemma iinv_list_add:
  assumes inv: "iinv a m k fl c" and k: "k \<le> l" "l < nlevels a"
    and c: "2 ^ l dvd c" "c + 2 ^ l \<le> npages a"
  obtains m' where "list_add (hd_at a l) (pg a c) m = Inr m'"
    and "iinv a m' k (fl(l := c # fl l)) (c + 2 ^ l)" and "mem_byte m' = mem_byte m"
proof -
  have wf: "wf_alloc a" using inv by (simp add: iinv_def)
  have "(0::nat) < 2 ^ l" by simp
  then have cN: "c < npages a" using c(2) by linarith
  have nin: "c \<notin> set (fl j)" if "j < nlevels a" for j using iinv_page_bound(1) [OF inv that] by blast
  have rep: "list_rep a m j (fl j)" "distinct (fl j)" if "k \<le> j" "j < nlevels a" for j
    using inv that by (simp_all add: iinv_def)
  have bnd: "\<forall>q \<in> set (fl l). q < npages a" using iinv_page_bound(2) [OF inv k(2)] by blast
  obtain m' where m': "list_add (hd_at a l) (pg a c) m = Inr m'" "list_rep a m' l (c # fl l)"
      "same_except {hd_at a l, pg a c} m m'"
    using list_add_rep [OF wf k(2) rep(1) [OF k] cN nin [OF k(2)] bnd] .
  have "list_rep a m' j ((fl(l := c # fl l)) j) \<and> distinct ((fl(l := c # fl l)) j)"
    if j: "k \<le> j" "j < nlevels a" for j
  proof (cases "j = l")
    case True
    then show ?thesis using m'(2) rep(2) [OF k] nin [OF k(2)] by simp
  next
    case False
    have "hd_at a j \<notin> {hd_at a l, pg a c}"
      using hd_at_inj [OF wf j(2) k(2)] pg_not_hd [OF wf cN j(2)] False by auto
    moreover have "pg a q \<notin> {hd_at a l, pg a c}" if "q \<in> set (fl j)" for q
      using pg_inj [OF wf iinv_page_bound(2) [OF inv j(2) that] cN] nin [OF j(2)] that
        pg_not_hd [OF wf iinv_page_bound(2) [OF inv j(2) that] k(2)] by auto
    ultimately show ?thesis
      using list_rep_frame [OF rep(1) [OF j] m'(3)] rep(2) [OF j] False by auto
  qed
  moreover have "tiling (c + 2 ^ l) (nlevels a) (free_set (nlevels a) (fl(l := c # fl l)))"
    using tiling_extend [OF _ c(1) k(2)] inv by (simp add: free_set_push [OF k(2)] iinv_def)
  moreover have "\<forall>j < k. (fl(l := c # fl l)) j = []" using inv k(1) by (simp add: iinv_def)
  ultimately have "iinv a m' k (fl(l := c # fl l)) (c + 2 ^ l)"
    using wf c(2) by (simp add: iinv_def)
  then show thesis using that m' by (simp add: same_except_def)
qed

section \<open>The loops\<close>

lemma init_top_step_spec:
  assumes inv: "iinv a m k fl c" and k: "k \<le> l" "l < nlevels a"
    and c: "2 ^ l dvd c" "c + 2 ^ l \<le> npages a"
  obtains m' where "init_top_step a (hd_at a l) (int l) (pg a c, of_nat (npages a - c), m) =
      Inr (pg a (c + 2 ^ l), of_nat (npages a - (c + 2 ^ l)), m')"
    and "iinv a m' k (fl(l := c # fl l)) (c + 2 ^ l)" and "mem_byte m' = mem_byte m"
proof -
  have wf: "wf_alloc a" using inv by (simp add: iinv_def)
  have l31: "l < 31" using k(2) wf_allocD(2) [OF wf] by simp
  obtain m' where m': "list_add (hd_at a l) (pg a c) m = Inr m'"
      "iinv a m' k (fl(l := c # fl l)) (c + 2 ^ l)" "mem_byte m' = mem_byte m"
    using iinv_list_add [OF assms] .
  have "pg a c + 2 ^ l * b_pgsize a = pg a (c + 2 ^ l)" by (simp add: pg_def algebra_simps)
  moreover have "(of_nat (npages a - c) :: u64) - 2 ^ l = of_nat (npages a - (c + 2 ^ l))"
    using c(2) by (simp add: of_nat_diff)
  ultimately show thesis
    using that m' by (simp add: init_top_step_def int_shl1_word [OF l31])
qed

lemma init_top_loop_spec:
  assumes inv: "iinv a m t (\<lambda>_. []) 0" and t: "t < nlevels a" and n: "n * 2 ^ t \<le> npages a"
  shows "\<exists>m'. foldE (\<lambda>_. init_top_step a (hd_at a t) (int t)) [0..<n]
        (pg a 0, of_nat (npages a), m) =
      Inr (pg a (n * 2 ^ t), of_nat (npages a - n * 2 ^ t), m') \<and>
    iinv a m' t (spec_init_top t n) (n * 2 ^ t) \<and> mem_byte m' = mem_byte m"
  using n
proof (induction n)
  case 0
  have "spec_init_top t 0 = (\<lambda>_. [])" by (auto simp: spec_init_top_def)
  then show ?case using inv by simp
next
  case (Suc n)
  then obtain m1 where m1: "foldE (\<lambda>_. init_top_step a (hd_at a t) (int t)) [0..<n]
        (pg a 0, of_nat (npages a), m) = Inr (pg a (n * 2 ^ t), of_nat (npages a - n * 2 ^ t), m1)"
      "iinv a m1 t (spec_init_top t n) (n * 2 ^ t)" "mem_byte m1 = mem_byte m"
    by auto
  have le: "n * 2 ^ t + 2 ^ t \<le> npages a" using Suc.prems by simp
  obtain m' where m': "init_top_step a (hd_at a t) (int t)
        (pg a (n * 2 ^ t), of_nat (npages a - n * 2 ^ t), m1) =
      Inr (pg a (n * 2 ^ t + 2 ^ t), of_nat (npages a - (n * 2 ^ t + 2 ^ t)), m')"
      "iinv a m' t ((spec_init_top t n)(t := n * 2 ^ t # spec_init_top t n t)) (n * 2 ^ t + 2 ^ t)"
      "mem_byte m' = mem_byte m1"
    using init_top_step_spec [OF m1(2) _ t _ le] by auto
  have "(spec_init_top t n)(t := n * 2 ^ t # spec_init_top t n t) = spec_init_top t (Suc n)"
    by (auto simp: spec_init_top_def)
  then show ?case using m1 m' by (simp add: foldE_append add.commute)
qed

lemma init_lower_spec:
  assumes "iinv a m k fl c" and "k < nlevels a" and "2 ^ k dvd c" and "npages a - c < 2 ^ k"
  shows "\<exists>s p m'. init_lower a k (hd_at a k) (pg a c, of_nat (npages a - c), m) = Inr (s, p, m') \<and>
    iinv a m' 0 (spec_init_lower (npages a) k c fl) (npages a) \<and> mem_byte m' = mem_byte m"
  using assms
proof (induction k arbitrary: m fl c)
  case 0
  then have "c = npages a" by (simp add: iinv_def)
  then show ?case using 0 by simp
next
  case (Suc k)
  note inv = Suc.prems(1)
  have wf: "wf_alloc a" using inv by (simp add: iinv_def)
  have k: "k < nlevels a" and k31: "k < 31" using Suc.prems(2) wf_allocD(2) [OF wf] by simp_all
  have hd: "hd_at a (Suc k) - sizeof_buddy_list = hd_at a k"
    by (simp add: hd_at_def list_addr_def algebra_simps)
  define m1 where "m1 = list_init (hd_at a k) (int k) m"
  note inv1 = iinv_list_init [OF inv k, folded m1_def]
  have kc: "2 ^ k dvd c" using Suc.prems(3) by (meson dvd_trans le_imp_power_dvd lessI less_imp_le)
  have rem: "unat (of_nat (npages a - c) :: u64) = npages a - c"
    using wf_allocD(10) [OF wf] by (intro unat_of_nat_small) simp
  have p2: "unat ((2 :: u64) ^ k) = 2 ^ k" using k31 by (intro unat_pow2_u64) simp
  have cmp: "(2 :: u64) ^ k \<le> of_nat (npages a - c) \<longleftrightarrow> 2 ^ k \<le> npages a - c"
    by (simp only: word_le_nat_alt rem p2)
  show ?case
  proof (cases "2 ^ k \<le> npages a - c")
    case True
    have "c \<le> npages a" using inv by (simp add: iinv_def)
    then have le: "c + 2 ^ k \<le> npages a" using True by linarith
    obtain m2 where m2: "init_top_step a (hd_at a k) (int k) (pg a c, of_nat (npages a - c), m1) =
        Inr (pg a (c + 2 ^ k), of_nat (npages a - (c + 2 ^ k)), m2)"
        "iinv a m2 k (fl(k := c # fl k)) (c + 2 ^ k)" "mem_byte m2 = mem_byte m1"
      using init_top_step_spec [OF inv1(1) le_refl k kc le] .
    have lt: "npages a - (c + 2 ^ k) < 2 ^ k" using Suc.prems(4) True by simp
    have "unat (of_nat (npages a - (c + 2 ^ k)) :: u64) = npages a - (c + 2 ^ k)"
      using wf_allocD(10) [OF wf] by (intro unat_of_nat_small) simp
    then have as: "(of_nat (npages a - (c + 2 ^ k)) :: u64) < 2 ^ k"
      using lt p2 by (simp only: word_less_nat_alt)
    have "2 ^ k dvd c + 2 ^ k" using kc by simp
    then obtain s p m3 where m3: "init_lower a k (hd_at a k)
        (pg a (c + 2 ^ k), of_nat (npages a - (c + 2 ^ k)), m2) = Inr (s, p, m3)"
        "iinv a m3 0 (spec_init_lower (npages a) k (c + 2 ^ k) (fl(k := c # fl k))) (npages a)"
        "mem_byte m3 = mem_byte m2"
      using Suc.IH [OF m2(2) k _ lt] by blast
    have "init_lower a (Suc k) (hd_at a (Suc k)) (pg a c, of_nat (npages a - c), m) = Inr (s, p, m3)"
      using m2(1) m3(1) True as cmp
      by (simp add: Let_def hd int_shl1_word [OF k31] m1_def [symmetric])
    then show ?thesis
      using m3(2,3) m2(3) inv1(2) True by (simp del: fun_upd_apply)
  next
    case False
    then have lt: "npages a - c < 2 ^ k" by simp
    then have as: "(of_nat (npages a - c) :: u64) < 2 ^ k"
      using rem p2 by (simp only: word_less_nat_alt)
    show ?thesis
      using Suc.IH [OF inv1(1) k kc lt] inv1(2) False as cmp
      by (simp add: Let_def hd int_shl1_word [OF k31] m1_def [symmetric])
  qed
qed

section \<open>The whole operation\<close>

lemma init_state_table_prefix:
  assumes "wf_alloc a" and "n \<le> npages a" and "i < npages a"
  shows "mem_byte (fold (\<lambda>i. set_state a (of_nat i) BUDDY_NOTHING) [0..<n] m) (st_at a i) =
    (if i < n then word_of_int BUDDY_NOTHING else mem_byte m (st_at a i))"
  using assms(2)
proof (induction n)
  case (Suc n)
  then show ?case
    using st_at_inj [OF assms(1,3), of n] by (auto simp: set_state_nat less_Suc_eq)
qed simp

lemma init_state_table_rep:
  assumes "wf_alloc a"
  shows "state_rep a (init_state_table a m) Map.empty"
  using init_state_table_prefix [OF assms, of "npages a"]
  by (simp add: state_rep_def init_state_table_def npages_def)

lemma init_lists_spec:
  assumes wf: "wf_alloc a"
  obtains m' where "init_lists a m = Inr m'" and "mem_byte m' = mem_byte m"
    and "iinv a m' 0 (spec_init (npages a) (nlevels a)) (npages a)"
proof -
  define t where "t = nlevels a - 1"
  define n where "n = npages a div 2 ^ t"
  have t: "t < nlevels a" "t < 31" and lv: "b_levels a - 1 = int t"
    using wf_allocD(1,2,3) [OF wf] by (simp_all add: t_def)
  have "iinv a m (Suc t) (\<lambda>_. []) 0"
    using wf t by (auto simp: iinv_def tiling_def t_def)
  note i0 = iinv_list_init [OF this t(1)]
  have le: "n * 2 ^ t \<le> npages a" by (simp add: n_def)
  obtain m1 where m1: "foldE (\<lambda>_. init_top_step a (hd_at a t) (int t)) [0..<n]
        (pg a 0, of_nat (npages a), list_init (hd_at a t) (int t) m) =
        Inr (pg a (n * 2 ^ t), of_nat (npages a - n * 2 ^ t), m1)"
      "iinv a m1 t (spec_init_top t n) (n * 2 ^ t)"
      "mem_byte m1 = mem_byte (list_init (hd_at a t) (int t) m)"
    using init_top_loop_spec [OF i0(1) t(1) le] by blast
  have lt: "npages a - n * 2 ^ t < 2 ^ t"
    unfolding n_def by (simp add: minus_div_mult_eq_mod)
  have "2 ^ t dvd n * 2 ^ t" by simp
  then obtain s p m' where m': "init_lower a t (hd_at a t)
        (pg a (n * 2 ^ t), of_nat (npages a - n * 2 ^ t), m1) = Inr (s, p, m')"
      "iinv a m' 0 (spec_init_lower (npages a) t (n * 2 ^ t) (spec_init_top t n)) (npages a)"
      "mem_byte m' = mem_byte m1"
    using init_lower_spec [OF m1(2) t(1) _ lt] by blast
  have cnt: "unat (drop_bit t (b_pages a)) = n"
    using t by (simp add: n_def npages_def drop_bit_eq_div unat_div unat_pow2_u64)
  have "unat (of_nat (npages a - n * 2 ^ t) :: u64) = npages a - n * 2 ^ t"
    using wf_allocD(10) [OF wf] by (intro unat_of_nat_small) simp
  then have as: "(of_nat (npages a - n * 2 ^ t) :: u64) < 2 ^ t"
    using lt unat_pow2_u64 [of t] t(2) by (simp add: word_less_nat_alt)
  have pn: "(of_nat (npages a) :: u64) = b_pages a" by (simp add: npages_def)
  have "init_lists a m = Inr m'"
    using m1(1) m'(1) as t
    by (simp add: init_lists_def lv Let_def cnt int_shl1_word hd_at_def [symmetric] pn pg_def)
  moreover have "spec_init_lower (npages a) t (n * 2 ^ t) (spec_init_top t n) =
      spec_init (npages a) (nlevels a)"
    by (simp add: spec_init_def Let_def t_def n_def)
  ultimately show thesis using that m'(2,3) m1(3) i0(2) by simp
qed

text \<open>The arguments for which no address or count of the allocator overflows.\<close>

definition init_args :: "int \<Rightarrow> u64 \<Rightarrow> u64 \<Rightarrow> addr \<Rightarrow> bool" where
  "init_args levels pgsize pages ptr \<longleftrightarrow>
     0 < levels \<and> levels \<le> 31 \<and> 32 \<le> unat pgsize \<and> 0 < unat ptr \<and>
     unat ptr + unat pgsize * unat pages < 2 ^ 64 \<and> unat pgsize * unat pages < 2 ^ 31"

lemma unat_get_serv_pages:
  assumes "init_args levels pgsize pages ptr"
  shows "unat (get_serv_pages levels pgsize pages) =
    (40 * nat levels + unat pages) div unat pgsize + 1"
proof -
  define L where "L = nat levels"
  have L: "levels = int L" "L \<le> 31" using assms by (auto simp: init_args_def L_def)
  have ps: "32 \<le> unat pgsize" using assms by (simp add: init_args_def)
  have "32 * unat pages \<le> unat pgsize * unat pages" using ps by (rule mult_le_mono1)
  moreover have "unat pgsize * unat pages < 2 ^ 31" using assms by (simp add: init_args_def)
  ultimately have "32 * unat pages < 2 ^ 31" by (rule le_less_trans)
  then have pb: "unat pages < 2 ^ 26" by simp
  have u40: "unat (40 :: u64) = 40" by simp
  have "unat ((40 :: u64) * of_nat L) = unat (40 :: u64) * L"
    using L(2) by (intro unat_mult_of_nat) (simp_all add: u40)
  then have m: "unat (of_nat L * (40 :: u64)) = 40 * L" by (simp add: mult.commute)
  have s: "unat (of_nat L * (40 :: u64) + pages) = 40 * L + unat pages"
    using m pb L(2) by (simp add: unat_add_no_wrap)
  have d: "unat ((of_nat L * (40 :: u64) + pages) div pgsize) = (40 * L + unat pages) div unat pgsize"
    by (simp add: unat_div s)
  have "(40 * L + unat pages) div unat pgsize \<le> 40 * L + unat pages" by (rule div_le_dividend)
  moreover have "40 * L + unat pages + 1 < 2 ^ 64" using L(2) pb by simp
  ultimately have "(40 * L + unat pages) div unat pgsize + 1 < 2 ^ 64" by linarith
  then have "unat ((of_nat L * (40 :: u64) + pages) div pgsize + 1) =
      (40 * L + unat pages) div unat pgsize + 1"
    using d unat_add_no_wrap [of "(of_nat L * (40 :: u64) + pages) div pgsize" 1] by simp
  then show ?thesis
    by (simp add: get_serv_pages_def Let_def sizeof_buddy_list_def L)
qed

definition init_desc :: "buddy_allocator \<Rightarrow> int \<Rightarrow> u64 \<Rightarrow> u64 \<Rightarrow> addr \<Rightarrow> buddy_allocator" where
  "init_desc mem levels pgsize pages ptr =
     mem \<lparr> b_levels := levels, b_pgsize := pgsize, b_lists := ptr,
           b_state_table := ptr + sizeof_buddy_list * word_of_int levels,
           b_pages := pages - get_serv_pages levels pgsize pages,
           b_data := ptr + get_serv_pages levels pgsize pages * pgsize \<rparr>"

lemma init_desc_wf:
  assumes args: "init_args levels pgsize pages ptr"
    and fits: "get_serv_pages levels pgsize pages \<le> pages"
  shows "wf_alloc (init_desc mem levels pgsize pages ptr)"
    and "npages (init_desc mem levels pgsize pages ptr) =
      unat pages - ((40 * nat levels + unat pages) div unat pgsize + 1)"
proof -
  define S where "S = unat (get_serv_pages levels pgsize pages)"
  define P where "P = unat pgsize"
  define n where "n = unat pages"
  have S: "S = (40 * nat levels + n) div P + 1"
    using unat_get_serv_pages [OF args] by (simp add: S_def P_def n_def)
  have ar: "32 \<le> P" "0 < unat ptr" "unat ptr + P * n < 2 ^ 64" "P * n < 2 ^ 31"
      "0 < levels" "levels \<le> 31"
    using args by (simp_all add: init_args_def P_def n_def)
  have Sn: "S \<le> n" using fits by (simp add: word_le_nat_alt S_def n_def)
  have PS: "P * S + P * (n - S) = P * n" using Sn by (simp flip: distrib_left)
  have np: "npages (init_desc mem levels pgsize pages ptr) = n - S"
    using fits by (simp add: npages_def init_desc_def unat_sub S_def n_def)
  then show "npages (init_desc mem levels pgsize pages ptr) =
      unat pages - ((40 * nat levels + unat pages) div unat pgsize + 1)"
    using S by (simp add: n_def P_def)
  have "unat (get_serv_pages levels pgsize pages * pgsize) = S * P"
    using unat_mult_lem [where 'a = 64, of "get_serv_pages levels pgsize pages" pgsize] PS ar(4)
    by (simp add: S_def P_def mult.commute)
  moreover have "unat ptr + S * P < 2 ^ 64" using ar(3) PS by (simp add: mult.commute)
  ultimately have data: "unat (b_data (init_desc mem levels pgsize pages ptr)) = unat ptr + S * P"
    by (simp add: init_desc_def unat_add_no_wrap)
  have "40 * nat levels + n < P * S"
    using ar(1) unfolding S by (simp add: dividend_less_times_div)
  then have "unat ptr + 40 * nat levels + (n - S) \<le> unat ptr + S * P"
    by (simp add: mult.commute)
  then show "wf_alloc (init_desc mem levels pgsize pages ptr)"
    unfolding wf_alloc_def np data using ar PS
    by (simp add: init_desc_def nlevels_def P_def [symmetric] mult.commute)
qed

lemma lib_buddy_init_establishes:
  assumes args: "init_args levels pgsize pages ptr"
    and fits: "get_serv_pages levels pgsize pages \<le> pages"
  shows "\<exists>m'. lib_buddy_init mem levels pgsize pages ptr m =
      Inr (0, init_desc mem levels pgsize pages ptr, m') \<and>
    binv (init_desc mem levels pgsize pages ptr) m'
      (spec_init (npages (init_desc mem levels pgsize pages ptr)) (nat levels)) Map.empty {}"
proof -
  define a where "a = init_desc mem levels pgsize pages ptr"
  note wf = init_desc_wf(1) [OF args fits, of mem, folded a_def]
  have L: "nlevels a = nat levels" by (simp add: a_def init_desc_def nlevels_def)
  obtain m' where m': "init_lists a (init_state_table a m) = Inr m'"
      "mem_byte m' = mem_byte (init_state_table a m)"
      "iinv a m' 0 (spec_init (npages a) (nlevels a)) (npages a)"
    using init_lists_spec [OF wf] .
  have "\<not> sizeof_free_block > pgsize" "\<not> get_serv_pages levels pgsize pages > pages" "levels > 0"
    using args fits
    by (auto simp: init_args_def sizeof_free_block_def word_less_nat_alt word_le_nat_alt)
  then have "lib_buddy_init mem levels pgsize pages ptr m = Inr (0, a, m')"
    using m'(1) by (simp add: lib_buddy_init_def a_def init_desc_def Let_def)
  moreover have "state_rep a m' Map.empty"
    using init_state_table_rep [OF wf, of m] m'(2) by (simp add: state_rep_def)
  then have "binv a m' (spec_init (npages a) (nlevels a)) Map.empty {}"
    using m'(3) by (simp add: binv_def iinv_def used_set_def)
  ultimately show ?thesis using L by (simp add: a_def)
qed

end
