(* ===== verification/Buddy_Safety.thy ===== *)
theory Buddy_Safety
  imports Buddy_Free Buddy_Init
begin

text \<open>
  The allocator and its callers as a transition system: callers allocate, release what they own,
  and write into the blocks they own.  With an unsigned plain \<open>char\<close>, as in the kernel, the
  invariant of the previous theories holds in every reachable state.
\<close>

section \<open>Callers\<close>

definition in_block :: "buddy_allocator \<Rightarrow> addr \<times> u64 \<Rightarrow> addr \<Rightarrow> bool" where
  "in_block a b x \<longleftrightarrow>
     unat (fst b) \<le> unat x \<and> unat x < unat (fst b) + unat (snd b) * unat (b_pgsize a)"

text \<open>
  A caller may change any byte of a block it owns, and with it any struct of the allocator
  that a stale header in that block looks like.
\<close>

definition user_write ::
  "buddy_allocator \<Rightarrow> (addr \<times> u64) set \<Rightarrow> buddy_heap \<Rightarrow> buddy_heap \<Rightarrow> bool" where
  "user_write a Own m m' \<longleftrightarrow> (\<forall>x. (\<forall>b \<in> Own. \<not> in_block a b x) \<longrightarrow>
     fb_next m' x = fb_next m x \<and> fb_prev m' x = fb_prev m x \<and> fb_list m' x = fb_list m x \<and>
     fb_level m' x = fb_level m x \<and> bl_len m' x = bl_len m x \<and> mem_byte m' x = mem_byte m x)"

text \<open>\<open>Own\<close> is the set of blocks handed out and not yet released, with their sizes in pages.\<close>

inductive buddy_reach :: "bool \<Rightarrow> buddy_allocator \<Rightarrow> buddy_heap \<Rightarrow> (addr \<times> u64) set \<Rightarrow> bool"
  for char_signed :: bool where
  init: "init_args levels pgsize pages ptr \<Longrightarrow>
    lib_buddy_init mem levels pgsize pages ptr m = Inr (0, a, m') \<Longrightarrow> buddy_reach char_signed a m' {}"
| alloc: "buddy_reach char_signed a m Own \<Longrightarrow> lib_buddy_alloc a n m = Inr (p, m') \<Longrightarrow> p \<noteq> 0 \<Longrightarrow>
    buddy_reach char_signed a m' (insert (p, n) Own)"
| alloc_fail: "buddy_reach char_signed a m Own \<Longrightarrow> lib_buddy_alloc a n m = Inr (0, m') \<Longrightarrow>
    buddy_reach char_signed a m' Own"
| free: "buddy_reach char_signed a m Own \<Longrightarrow> (p, n) \<in> Own \<Longrightarrow> lib_buddy_free char_signed a p m = Inr m' \<Longrightarrow>
    buddy_reach char_signed a m' (Own - {(p, n)})"
| usr: "buddy_reach char_signed a m Own \<Longrightarrow> user_write a Own m m' \<Longrightarrow> buddy_reach char_signed a m' Own"

section \<open>The invariant seen from outside\<close>

definition own_of :: "buddy_allocator \<Rightarrow> (nat \<rightharpoonup> nat) \<Rightarrow> (addr \<times> u64) set" where
  "own_of a al = {(pg a p, 2 ^ l) | p l. al p = Some l}"

lemma in_block_used:
  assumes "binv a m fl al H" and "al p = Some l"
  shows "in_block a (pg a p, 2 ^ l) x \<longleftrightarrow>
    unat (b_data a) + unat (b_pgsize a) * p \<le> unat x \<and>
    unat x < unat (b_data a) + unat (b_pgsize a) * (p + 2 ^ l)"
proof -
  note wf = binvD(1) [OF assms(1)]
  note al = alignedD [OF binv_used_aligned [OF assms]]
  have "unat ((2 :: u64) ^ l) = 2 ^ l"
    using al(1) wf_allocD(2) [OF wf] by (intro unat_pow2_u64) simp
  then show ?thesis
    using unat_pg [OF wf, of p] al(4) by (simp add: in_block_def algebra_simps)
qed

lemma page_in_block_iff:
  assumes "binv a m fl al H" and "al p = Some l" and "q < npages a"
  shows "in_block a (pg a p, 2 ^ l) (pg a q) \<longleftrightarrow> q \<in> cells (p, l)"
proof -
  note wf = binvD(1) [OF assms(1)]
  have pos: "0 < unat (b_pgsize a)" using wf_allocD(4) [OF wf] by simp
  have "unat (pg a q) = unat (b_data a) + unat (b_pgsize a) * q"
    using unat_pg [OF wf, of q] assms(3) by simp
  then show ?thesis using pos by (simp add: in_block_used [OF assms(1,2)])
qed

lemma low_not_in_block:
  assumes "binv a m fl al H" and "b \<in> own_of a al" and "unat x < unat (b_data a)"
  shows "\<not> in_block a b x"
  using assms in_block_used [OF assms(1)] by (auto simp: own_of_def)

lemma binv_user_write:
  assumes inv: "binv a m fl al H" and w: "user_write a (own_of a al) m m'"
  shows "binv a m' fl al H"
proof -
  note wf = binvD(1) [OF inv]
  have keep: "fb_next m' x = fb_next m x" "fb_prev m' x = fb_prev m x" "fb_list m' x = fb_list m x"
      "fb_level m' x = fb_level m x" "bl_len m' x = bl_len m x" "mem_byte m' x = mem_byte m x"
    if "\<forall>b \<in> own_of a al. \<not> in_block a b x" for x
    using w that by (simp_all add: user_write_def)
  have hd: "\<forall>b \<in> own_of a al. \<not> in_block a b (hd_at a l)" if "l < nlevels a" for l
    using low_not_in_block [OF inv] unat_hd_at [OF wf, of l] that wf_allocD(7) [OF wf] by simp
  have st: "\<forall>b \<in> own_of a al. \<not> in_block a b (st_at a i)" if "i < npages a" for i
    using low_not_in_block [OF inv] unat_st_at [OF wf, of i] that wf_allocD(7) [OF wf] by simp
  have fr: "\<forall>b \<in> own_of a al. \<not> in_block a b (pg a q)" if l: "l < nlevels a" and q: "q \<in> set (fl l)" for l q
  proof
    fix b assume "b \<in> own_of a al"
    then obtain p k where b: "b = (pg a p, 2 ^ k)" "al p = Some k" by (auto simp: own_of_def)
    have qN: "q < npages a" using binv_free_aligned [OF inv l q] alignedD(4) by blast
    have "q \<notin> cells (p, k)"
    proof
      assume "q \<in> cells (p, k)"
      then have "(q, l) = (p, k)"
        using tiling_unique [OF binvD(5) [OF inv], of "(q, l)" "(p, k)" q] l q b(2) by simp
      then have "(q, l) \<in> free_set (nlevels a) fl \<inter> used_set al" using l q b(2) by simp
      then show False using binvD(6) [OF inv] by blast
    qed
    then show "\<not> in_block a b (pg a q)" using page_in_block_iff [OF inv b(2) qN] b(1) by simp
  qed
  have "list_rep a m' l (fl l)" if l: "l < nlevels a" for l
    using binvD(2) [OF inv l] unfolding list_rep_def
    by (rule node_list_cong) (use keep hd [OF l] fr [OF l] in auto)
  moreover have "state_rep a m' al"
    using binvD(4) [OF inv] keep(6) st by (simp add: state_rep_def)
  ultimately show ?thesis using inv by (simp add: binv_def)
qed

section \<open>Allocation with any argument\<close>

lemma int_shl1_31: "int_shl1 (int 31) = - (2 ^ 31)"
  by (simp add: int_shl1_def)

lemma int_shl1_periodic: "int_shl1 (n + 32) = int_shl1 n"
  by (simp add: int_shl1_def)

lemma buddy_log2_from_least:
  "log \<le> j \<Longrightarrow> j < log + int k \<Longrightarrow> n = word_of_int (int_shl1 j) \<Longrightarrow>
    buddy_log2_from n k log \<noteq> -1 \<and> buddy_log2_from n k log \<le> j" if "0 \<le> log"
  using that
proof (induction k arbitrary: log)
  case (Suc k)
  show ?case
  proof (cases "n = word_of_int (int_shl1 log)")
    case True
    then show ?thesis using Suc.prems by simp
  next
    case False
    then have "log \<noteq> j" using Suc.prems(3) by auto
    then show ?thesis using Suc.IH [of "log + 1"] Suc.prems False by simp
  qed
qed simp

lemma buddy_log2_range:
  assumes "buddy_log2 n \<noteq> -1"
  obtains l where "buddy_log2 n = int l" and "l \<le> 31"
proof -
  note s = buddy_log2_sound [OF assms]
  have "buddy_log2 n \<le> 31"
  proof (rule ccontr)
    assume "\<not> buddy_log2 n \<le> 31"
    then have "0 \<le> buddy_log2 n - 32" "buddy_log2 n - 32 < 64"
        "n = word_of_int (int_shl1 (buddy_log2 n - 32))"
      using s int_shl1_periodic [of "buddy_log2 n - 32"] by simp_all
    then have "buddy_log2 n \<le> buddy_log2 n - 32"
      using buddy_log2_from_least [of 0 "buddy_log2 n - 32" 64 n] by (simp add: buddy_log2_def)
    then show False by simp
  qed
  then show thesis using that [of "nat (buddy_log2 n)"] s by simp
qed

lemma lib_buddy_alloc_cases:
  assumes inv: "binv a m fl al H"
  obtains (bad) "lib_buddy_alloc a n m = Inr (0, m)" "\<nexists>l. l < nlevels a \<and> n = 2 ^ l"
  | (level) l where "l < nlevels a" "n = 2 ^ l"
proof (cases "\<exists>l. l < nlevels a \<and> n = 2 ^ l")
  case True
  then show thesis using level by blast
next
  case False
  note wf = binvD(1) [OF inv]
  have "lib_buddy_alloc a n m = Inr (0, m)"
  proof (cases "buddy_log2 n = -1")
    case True
    then show ?thesis by (simp add: lib_buddy_alloc_def)
  next
    case nb: False
    obtain l where l: "buddy_log2 n = int l" "l \<le> 31" using buddy_log2_range [OF nb] .
    have n: "n = word_of_int (int_shl1 (int l))" using buddy_log2_sound [OF nb] l(1) by simp
    have "\<not> l < nlevels a"
      using False n int_shl1_word [of l] wf_allocD(2) [OF wf] by auto
    then have "int l \<ge> b_levels a" using wf_allocD(3) [OF wf] by simp
    then show ?thesis using l(1) n by (simp add: lib_buddy_alloc_def)
  qed
  then show thesis using bad False by blast
qed

lemma own_of_upd:
  "al p = None \<Longrightarrow> own_of a (al(p \<mapsto> l)) = insert (pg a p, 2 ^ l) (own_of a al)"
  by (auto simp: own_of_def split: if_splits)

lemma own_of_del:
  assumes "binv a m fl al H" and "al p = Some l"
  shows "own_of a (al(p := None)) = own_of a al - {(pg a p, 2 ^ l)}"
proof -
  note wf = binvD(1) [OF assms(1)]
  have "q = p" if "al q = Some k" "pg a q = pg a p" for q k
    using that pg_inj [OF wf] alignedD(4) [OF binv_used_aligned [OF assms(1)]] assms(2) by blast
  moreover have "own_of a (al(p := None)) = {(pg a q, 2 ^ k) | q k. al q = Some k \<and> q \<noteq> p}"
    by (auto simp: own_of_def split: if_splits)
  moreover have "own_of a al = insert (pg a p, 2 ^ l) {(pg a q, 2 ^ k) | q k. al q = Some k \<and> q \<noteq> p}"
    using assms(2) by (auto simp: own_of_def)
  ultimately show ?thesis by auto
qed

lemma spec_alloc_fresh:
  assumes inv: "binv a m fl al {}" and sp: "spec_alloc (nlevels a) l (fl, al) = Some (p, fl', al')"
  shows "al p = None" and "al' = al(p \<mapsto> l)" and "p < npages a"
proof -
  obtain k where k: "find (\<lambda>k. fl k \<noteq> []) [l..<nlevels a] = Some k" "p = hd (fl k)" "al' = al(p \<mapsto> l)"
    using sp by (auto simp: spec_alloc_def Let_def split: option.splits)
  note kk = find_upt_SomeD [OF k(1)]
  have pk: "p \<in> set (fl k)" using k(2) kk(3) by simp
  show "p < npages a" using binv_free_aligned [OF inv kk(2) pk] alignedD(4) by blast
  show "al' = al(p \<mapsto> l)" by (rule k(3))
  show "al p = None"
  proof (cases "al p")
    case (Some j)
    then have "(p, k) \<in> free_set (nlevels a) fl \<inter> used_set al"
      using binv_unique_start [OF inv, of p j k] kk(2) pk by simp
    then show ?thesis using binvD(6) [OF inv] by blast
  qed
qed

section \<open>Reachable states\<close>

definition reach_inv :: "buddy_allocator \<Rightarrow> buddy_heap \<Rightarrow> (addr \<times> u64) set \<Rightarrow> bool" where
  "reach_inv a m Own \<longleftrightarrow> (\<exists>fl al. binv a m fl al {} \<and> Own = own_of a al)"

lemma reach_inv_init:
  assumes "init_args levels pgsize pages ptr"
    and "lib_buddy_init mem levels pgsize pages ptr m = Inr (0, a, m')"
  shows "reach_inv a m' {}"
proof -
  have "get_serv_pages levels pgsize pages \<le> pages"
  proof (rule ccontr)
    assume "\<not> get_serv_pages levels pgsize pages \<le> pages"
    then show False using assms(2)
      by (auto simp: lib_buddy_init_def Let_def guardE_eq_Inr split: if_splits)
  qed
  then obtain m'' where
    "lib_buddy_init mem levels pgsize pages ptr m = Inr (0, init_desc mem levels pgsize pages ptr, m'')"
    "binv (init_desc mem levels pgsize pages ptr) m''
      (spec_init (npages (init_desc mem levels pgsize pages ptr)) (nat levels)) Map.empty {}"
    using lib_buddy_init_establishes [OF assms(1)] by blast
  then show ?thesis using assms(2) by (auto simp: reach_inv_def own_of_def)
qed

lemma reach_inv_alloc:
  assumes "reach_inv a m Own" and "lib_buddy_alloc a n m = Inr (p, m')"
  shows "reach_inv a m' (if p = 0 then Own else insert (p, n) Own)"
proof -
  obtain fl al where inv: "binv a m fl al {}" and Own: "Own = own_of a al"
    using assms(1) by (auto simp: reach_inv_def)
  note wf = binvD(1) [OF inv]
  show ?thesis
    using inv
  proof (cases rule: lib_buddy_alloc_cases [of _ _ _ _ _ n])
    case bad
    then show ?thesis using assms by simp
  next
    case (level l)
    show ?thesis
    proof (cases "spec_alloc (nlevels a) l (fl, al)")
      case None
      then show ?thesis using lib_buddy_alloc_refines [OF inv level(1)] assms level(2) by simp
    next
      case (Some r)
      then obtain q fl' al' where sp: "spec_alloc (nlevels a) l (fl, al) = Some (q, fl', al')"
        by (cases r) auto
      note fr = spec_alloc_fresh [OF inv sp]
      obtain m2 where "lib_buddy_alloc a (2 ^ l) m = Inr (pg a q, m2)" "binv a m2 fl' al' {}"
        using lib_buddy_alloc_refines [OF inv level(1)] sp by auto
      then have "p = pg a q" "binv a m' fl' al' {}" using assms(2) level(2) by simp_all
      then show ?thesis
        using pg_nonzero [OF wf fr(3)] own_of_upd [of al q a l] fr(1,2) level(2) Own
        by (auto simp: reach_inv_def)
    qed
  qed
qed

lemma reach_inv_free:
  assumes "reach_inv a m Own" and "(p, n) \<in> Own"
  shows "\<exists>m'. lib_buddy_free False a p m = Inr m' \<and> reach_inv a m' (Own - {(p, n)})"
proof -
  obtain fl al where inv: "binv a m fl al {}" and Own: "Own = own_of a al"
    using assms(1) by (auto simp: reach_inv_def)
  obtain q l where q: "p = pg a q" "n = 2 ^ l" "al q = Some l"
    using assms(2) Own by (auto simp: own_of_def)
  obtain m' where "lib_buddy_free False a (pg a q) m = Inr m'"
      "binv a m' (fl(l := q # fl l)) (al(q := None)) {}"
    using lib_buddy_free_refines [OF inv q(3)] by blast
  then show ?thesis
    using own_of_del [OF inv q(3)] Own q(1,2) by (auto simp: reach_inv_def)
qed

lemma buddy_reach_inv: "buddy_reach False a m Own \<Longrightarrow> reach_inv a m Own"
proof (induction rule: buddy_reach.induct)
  case (init levels pgsize pages ptr mem m a m')
  then show ?case by (rule reach_inv_init)
next
  case (alloc a m Own n p m')
  then show ?case using reach_inv_alloc [of a m Own n p m'] by simp
next
  case (alloc_fail a m Own n m')
  then show ?case using reach_inv_alloc [of a m Own n 0 m'] by simp
next
  case (free a m Own p n m')
  then show ?case using reach_inv_free [of a m Own p n] by auto
next
  case (usr a m Own m')
  then show ?case using binv_user_write unfolding reach_inv_def by blast
qed

section \<open>What callers can rely on\<close>

lemma alloc_total:
  assumes "reach_inv a m Own"
  shows "\<exists>p m'. lib_buddy_alloc a n m = Inr (p, m')"
proof -
  obtain fl al where inv: "binv a m fl al {}" using assms by (auto simp: reach_inv_def)
  show ?thesis
    using inv
  proof (cases rule: lib_buddy_alloc_cases [of _ _ _ _ _ n])
    case (level l)
    show ?thesis
      using lib_buddy_alloc_refines [OF inv level(1)] level(2)
      by (cases "spec_alloc (nlevels a) l (fl, al)") auto
  qed auto
qed

lemma own_disjoint:
  assumes "reach_inv a m Own" and "b \<in> Own" and "c \<in> Own" and "b \<noteq> c"
  shows "\<not> (in_block a b x \<and> in_block a c x)"
proof
  assume x: "in_block a b x \<and> in_block a c x"
  obtain fl al where inv: "binv a m fl al {}" and Own: "Own = own_of a al"
    using assms(1) by (auto simp: reach_inv_def)
  note wf = binvD(1) [OF inv]
  obtain p l where b: "b = (pg a p, 2 ^ l)" "al p = Some l" using assms(2) Own by (auto simp: own_of_def)
  obtain q k where c: "c = (pg a q, 2 ^ k)" "al q = Some k" using assms(3) Own by (auto simp: own_of_def)
  define S where "S = unat (b_pgsize a)"
  define i where "i = (unat x - unat (b_data a)) div S"
  have S: "0 < S" using wf_allocD(4) [OF wf] by (simp add: S_def)
  have cell: "i \<in> cells (r, j)" if "al r = Some j" "in_block a (pg a r, 2 ^ j) x" for r j
  proof -
    have "S * r \<le> unat x - unat (b_data a)" "unat x - unat (b_data a) < S * (r + 2 ^ j)"
      using iffD1 [OF in_block_used [OF inv that(1)] that(2)] unfolding S_def by linarith+
    then show ?thesis
      using S unfolding i_def
      by (simp add: less_eq_div_iff_mult_less_eq div_less_iff_less_mult mult.commute)
  qed
  have "(p, l) = (q, k)"
    using tiling_unique [OF binvD(5) [OF inv], of "(p, l)" "(q, k)" i] cell b c x by simp
  then show False using assms(4) b(1) c(1) by simp
qed

lemma own_in_data:
  assumes "reach_inv a m Own" and "b \<in> Own" and "in_block a b x"
  shows "unat (b_data a) \<le> unat x"
    and "unat x < unat (b_data a) + unat (b_pgsize a) * unat (b_pages a)"
proof -
  obtain fl al where inv: "binv a m fl al {}" and Own: "Own = own_of a al"
    using assms(1) by (auto simp: reach_inv_def)
  obtain p l where b: "b = (pg a p, 2 ^ l)" "al p = Some l" using assms(2) Own by (auto simp: own_of_def)
  note al = alignedD [OF binv_used_aligned [OF inv b(2)]]
  have x: "unat (b_data a) + unat (b_pgsize a) * p \<le> unat x"
      "unat x < unat (b_data a) + unat (b_pgsize a) * (p + 2 ^ l)"
    using in_block_used [OF inv b(2)] assms(3) b(1) by simp_all
  then show "unat (b_data a) \<le> unat x" by simp
  have "unat (b_pgsize a) * (p + 2 ^ l) \<le> unat (b_pgsize a) * npages a"
    using al(3) by (rule mult_le_mono2)
  then show "unat x < unat (b_data a) + unat (b_pgsize a) * unat (b_pages a)"
    using x(2) unfolding npages_def by linarith
qed

text \<open>What the descriptor says about the blocks handed out.\<close>

lemma own_cases:
  assumes "reach_inv a m Own" and "(p, n) \<in> Own"
  obtains i l where "p = pg a i" and "n = 2 ^ l" and "i + 2 ^ l \<le> npages a" and "i < npages a"
    and "l < 64" and "wf_alloc a"
proof -
  obtain fl al where inv: "binv a m fl al {}" and Own: "Own = own_of a al"
    using assms(1) by (auto simp: reach_inv_def)
  obtain i l where i: "p = pg a i" "n = 2 ^ l" "al i = Some l" using assms(2) Own by (auto simp: own_of_def)
  note al = alignedD [OF binv_used_aligned [OF inv i(3)]]
  show thesis
    using that [OF i(1,2) al(3,4) _ binvD(1) [OF inv]] al(1) wf_allocD(2) [OF binvD(1) [OF inv]] by simp
qed

lemma own_bounds:
  assumes "reach_inv a m Own" and "(p, n) \<in> Own"
  shows "0 < unat p" and "0 < unat n" and "unat p + unat n * unat (b_pgsize a) < 2 ^ 64"
    and "unat (b_pgsize a) dvd unat (b_data a) \<Longrightarrow> unat (b_pgsize a) dvd unat p"
proof -
  obtain i l where i: "p = pg a i" "n = 2 ^ l" "i + 2 ^ l \<le> npages a" "i < npages a" "l < 64" and wf: "wf_alloc a"
    using own_cases [OF assms] .
  have n: "unat n = 2 ^ l" using i(2,5) unat_pow2_u64 by simp
  have p: "unat p = unat (b_data a) + unat (b_pgsize a) * i" using unat_pg [OF wf, of i] i(1,4) by simp
  show "0 < unat p" using pg_nonzero [OF wf i(4)] i(1) by (simp add: unat_gt_0)
  show "0 < unat n" using n by simp
  have "unat (b_pgsize a) * (i + 2 ^ l) \<le> unat (b_pgsize a) * npages a" using i(3) by (rule mult_le_mono2)
  then have "unat (b_data a) + (unat (b_pgsize a) * i + unat (b_pgsize a) * 2 ^ l) < 2 ^ 64"
    unfolding distrib_left using wf_allocD(8) [OF wf] by linarith
  then show "unat p + unat n * unat (b_pgsize a) < 2 ^ 64"
    unfolding p n by (simp only: mult.commute add.assoc)
  show "unat (b_pgsize a) dvd unat p" if "unat (b_pgsize a) dvd unat (b_data a)" unfolding p using that by simp
qed

lemma own_finite:
  assumes "reach_inv a m Own"
  shows "finite Own" and "card Own < 2 ^ 32"
proof -
  obtain fl al where inv: "binv a m fl al {}" and Own: "Own = own_of a al"
    using assms by (auto simp: reach_inv_def)
  have dom: "dom al \<subseteq> {..<npages a}" using alignedD(4) [OF binv_used_aligned [OF inv]] by auto
  have eq: "Own = (\<lambda>i. (pg a i, 2 ^ the (al i))) ` dom al" unfolding Own own_of_def by force
  have fin: "finite (dom al)" using dom finite_subset by blast
  then show "finite Own" unfolding eq by simp
  have "card Own \<le> card (dom al)" unfolding eq using fin by (rule card_image_le)
  also have "\<dots> \<le> npages a" using card_mono [OF _ dom] by simp
  finally show "card Own < 2 ^ 32" using wf_allocD(10) [OF binvD(1) [OF inv]] by simp
qed

lemma alloc_not_owned:
  assumes "reach_inv a m Own" and "lib_buddy_alloc a n m = Inr (p, m')" and "p \<noteq> 0"
  shows "(p, k) \<notin> Own"
proof
  assume pk: "(p, k) \<in> Own"
  obtain fl al where inv: "binv a m fl al {}" and Own: "Own = own_of a al"
    using assms(1) by (auto simp: reach_inv_def)
  note wf = binvD(1) [OF inv]
  obtain i j where i: "p = pg a i" "al i = Some j" using pk Own by (auto simp: own_of_def)
  have lt: "i < npages a" using alignedD(4) [OF binv_used_aligned [OF inv i(2)]] .
  show False
    using inv
  proof (cases rule: lib_buddy_alloc_cases [of _ _ _ _ _ n])
    case bad
    then show False using assms(2,3) by simp
  next
    case (level l)
    show False
    proof (cases "spec_alloc (nlevels a) l (fl, al)")
      case None
      then show ?thesis using lib_buddy_alloc_refines [OF inv level(1)] assms(2,3) level(2) by simp
    next
      case (Some r)
      then obtain q fl' al' where sp: "spec_alloc (nlevels a) l (fl, al) = Some (q, fl', al')" by (cases r) auto
      note fr = spec_alloc_fresh [OF inv sp]
      have "p = pg a q" using lib_buddy_alloc_refines [OF inv level(1)] sp assms(2) level(2) by auto
      then have "i = q" using pg_inj [OF wf lt fr(3)] i(1) by simp
      then show False using fr(1) i(2) by simp
    qed
  qed
qed

end
