(* ===== verification/Buddy_Bugs.thy ===== *)
theory Buddy_Bugs
  imports Buddy_Safety
begin

text \<open>
  Where the code departs from what its comments promise: \<open>insert_block\<close> leaves the \<open>prev\<close> field of
  the old first block alone, so that \<open>remove_block\<close> works for the first block of a list only;
  merging does not stop at the top level; and with an unsigned plain \<open>char\<close> there is no merging
  at all.
\<close>

section \<open>Removing a block that is not the first\<close>

lemma remove_block_drops_prefix:
  assumes inv: "binv a m fl al H" and l: "l < nlevels a" and fl: "fl l = xs @ q # ys"
  shows "\<exists>m'. remove_block (pg a q) m = Inr m' \<and>
    chain (fb_next m') (fb_next m' (hd_at a l)) (map (pg a) ys) \<and>
    bl_len m' (hd_at a l) = of_nat (length xs + length ys)"
proof -
  note wf = binvD(1) [OF inv]
  have mem: "\<forall>p \<in> set (fl l). p < npages a"
    using binv_free_aligned [OF inv l] alignedD(4) by blast
  have rep: "node_list (fb_next m) (fb_prev m) (fb_list m) (fb_level m) (bl_len m)
      (hd_at a l) (int l) (map (pg a) xs @ pg a q # map (pg a) ys)"
    using binvD(2) [OF inv l] fl by (simp add: list_rep_def)
  have n: "hd_at a l \<notin> set (map (pg a) xs @ pg a q # map (pg a) ys)"
    using pg_not_hd [OF wf _ l] mem fl by (auto dest: sym)
  have d: "distinct (map (pg a) xs @ pg a q # map (pg a) ys)"
    using distinct_map_pg [OF wf mem binvD(3) [OF inv l]] fl by simp
  have "length (fl l) < 2 ^ 64" using free_list_length [OF inv l] wf_allocD(10) [OF wf] by simp
  then have f: "length (map (pg a) xs @ pg a q # map (pg a) ys) < 2 ^ LENGTH(64)" using fl by simp
  show ?thesis
    using bl.remove_node [OF rep hd_nonzero [OF wf l] n d f] by (metis length_map)
qed

section \<open>Merging two blocks of the top level\<close>

lemma lib_buddy_free_top_level:
  assumes inv: "binv a m fl al {}" and used: "al p = Some (nlevels a - 1)"
    and first: "fl (nlevels a - 1) = buddy_of (nlevels a - 1) p # ps"
  shows "lib_buddy_free True a (pg a p) m = Inl OutOfBounds"
proof -
  define l where "l = nlevels a - 1"
  note wf = binvD(1) [OF inv]
  have l: "l < nlevels a" "b_levels a = int (Suc l)"
    using wf_allocD(1,3) [OF wf] by (simp_all add: l_def)
  have used': "al p = Some l" using used by (simp add: l_def)
  note al = alignedD [OF binv_used_aligned [OF inv used']]
  define m0 where "m0 = set_state a (of_nat p) BUDDY_NOTHING m"
  have inv0: "binv a m0 fl (al(p := None)) {(p, l)}"
    using binv_mark_free(1) [OF inv used'] by (simp add: m0_def)
  note h0 = hole_exists [OF inv0, of p l, simplified]
  have fl: "fl l = buddy_of l p # ps" using first by (simp add: l_def)
  obtain m1 where m1: "remove_block (pg a (buddy_of l p)) m0 = Inr m1"
    using binv_remove_first [OF inv0 l(1) fl] .
  have "add_free_block_loop True a (of_nat p) (int l) m0 =
      Inr (of_nat (min p (buddy_of l p)), int (Suc l), m1)"
    using add_free_block_loop_step [OF inv0] fl m1 l(2)
    by (simp add: add_free_block_loop.simps [of True a _ "1 + int l"])
  then have "add_free_block True a (of_nat p) (int l) m0 = Inl OutOfBounds"
    using h0 l(2) by (simp add: add_free_block_def list_at_def)
  then show ?thesis
    using state_byte_used [OF inv used', of True] l
    by (simp add: lib_buddy_free_def get_page_number_pg [OF wf al(4)] m0_def)
qed

section \<open>Concrete runs\<close>

text \<open>A caller's script: allocate a number of pages, or release an owned block.\<close>

datatype buddy_op = Alloc u64 | Release addr u64

fun run_ops :: "bool \<Rightarrow> buddy_allocator \<Rightarrow> buddy_op list \<Rightarrow> buddy_heap \<times> (addr \<times> u64) list \<Rightarrow>
    (buddy_heap \<times> (addr \<times> u64) list) res" where
  "run_ops cs a [] s = Inr s"
| "run_ops cs a (Alloc n # ops) (m, own) =
     bindE (lib_buddy_alloc a n m) (\<lambda>(p, m').
       run_ops cs a ops (m', if p = 0 then own else (p, n) # own))"
| "run_ops cs a (Release p n # ops) (m, own) =
     (if (p, n) \<in> set own
      then bindE (lib_buddy_free cs a p m) (\<lambda>m'. run_ops cs a ops (m', removeAll (p, n) own))
      else run_ops cs a ops (m, own))"

lemma run_ops_reach:
  "run_ops cs a ops (m, own) = Inr (m', own') \<Longrightarrow> buddy_reach cs a m (set own) \<Longrightarrow>
    buddy_reach cs a m' (set own')"
proof (induction ops arbitrary: m own)
  case (Cons oper ops)
  show ?case
  proof (cases oper)
    case (Alloc n)
    obtain p m1 where 1: "lib_buddy_alloc a n m = Inr (p, m1)"
        "run_ops cs a ops (m1, if p = 0 then own else (p, n) # own) = Inr (m', own')"
      using Cons.prems(1) Alloc by (auto simp: bindE_eq_Inr)
    have "buddy_reach cs a m1 (set (if p = 0 then own else (p, n) # own))"
      using 1(1) Cons.prems(2) by (auto intro: buddy_reach.alloc buddy_reach.alloc_fail)
    then show ?thesis using Cons.IH 1(2) by blast
  next
    case (Release p n)
    then show ?thesis
      using Cons buddy_reach.free [OF Cons.prems(2), of p n]
      by (auto simp: bindE_eq_Inr split: if_splits)
  qed
qed simp

definition zero_heap :: buddy_heap where
  "zero_heap = \<lparr>fb_next = (\<lambda>_. 0), fb_prev = (\<lambda>_. 0), fb_list = (\<lambda>_. 0), fb_level = (\<lambda>_. 0),
     bl_len = (\<lambda>_. 0), mem_byte = (\<lambda>_. 0)\<rparr>"

definition no_alloc :: buddy_allocator where
  "no_alloc = \<lparr>b_levels = 0, b_pgsize = 0, b_lists = 0, b_state_table = 0, b_pages = 0, b_data = 0\<rparr>"

text \<open>Initialise an allocator over zeroed memory at address 4096, then run a script.\<close>

definition run_from_init :: "bool \<Rightarrow> int \<Rightarrow> u64 \<Rightarrow> u64 \<Rightarrow> buddy_op list \<Rightarrow>
    (buddy_allocator \<times> buddy_heap \<times> (addr \<times> u64) list) res" where
  "run_from_init cs levels pgsize pages ops =
    bindE (lib_buddy_init no_alloc levels pgsize pages 4096 zero_heap) (\<lambda>(r, a, m).
      bindE (run_ops cs a ops (m, [])) (\<lambda>(m', own). Inr (a, m', own)))"

definition bad_script :: "buddy_op list" where
  "bad_script = [Alloc 1, Alloc 1, Alloc 1, Alloc 1, Release 4352 1, Release 4224 1, Release 4480 1,
     Alloc 2, Release 4416 1, Alloc 1]"

lemma run_from_init_reach:
  assumes "run_from_init cs levels pgsize pages ops = Inr (a, m, own)"
    and "init_args levels pgsize pages 4096"
    and "map_sum id fst (lib_buddy_init no_alloc levels pgsize pages 4096 zero_heap) = Inr 0"
  shows "buddy_reach cs a m (set own)"
proof -
  obtain m0 where i: "lib_buddy_init no_alloc levels pgsize pages 4096 zero_heap = Inr (0, a, m0)"
      "run_ops cs a ops (m0, []) = Inr (m, own)"
    using assms(1,3) by (auto simp: run_from_init_def bindE_eq_Inr)
  have "buddy_reach cs a m0 (set [])" using buddy_reach.init [OF assms(2) i(1)] by simp
  then show ?thesis by (rule run_ops_reach [OF i(2)])
qed

lemma bad_script_run:
  "map_sum id (\<lambda>(a, m, own). (b_pgsize a, own)) (run_from_init True 2 64 7 bad_script) =
     Inr (64, [(4288, 1), (4224, 2)])"
  by code_simp

lemma bad_script_init:
  "map_sum id fst (lib_buddy_init no_alloc 2 64 7 4096 zero_heap) = Inr 0"
  by code_simp

lemma init_args_example: "init_args 2 64 7 4096"
  by (simp add: init_args_def)

end
