(* ===== verification/Buddy_Stat.thy ===== *)
theory Buddy_Stat
  imports Buddy_Inv
begin

text \<open>
  Statistics: \<open>lib_buddy_stat\<close> adds up the lengths of the free lists; by the tiling this is the
  number of pages that belong to no allocated block.
\<close>

definition free_pages :: "nat \<Rightarrow> (nat \<Rightarrow> nat list) \<Rightarrow> nat" where
  "free_pages L fl = (\<Sum>l < L. length (fl l) * 2 ^ l)"

definition used_pages :: "nat \<Rightarrow> (nat \<rightharpoonup> nat) \<Rightarrow> nat" where
  "used_pages N al = (\<Sum>p < N. case al p of None \<Rightarrow> 0 | Some l \<Rightarrow> 2 ^ l)"

lemma tiling_finite: "tiling N L B \<Longrightarrow> finite B"
proof (rule finite_subset)
  assume t: "tiling N L B"
  show "B \<subseteq> {..<N} \<times> {..<L}"
  proof
    fix b assume "b \<in> B"
    then show "b \<in> {..<N} \<times> {..<L}"
      using t alignedD(1,4) [of N L "fst b" "snd b"] tiling_aligned [OF t, of "fst b" "snd b"]
      by (cases b) auto
  qed
qed simp

lemma tiling_sum:
  assumes "tiling N L B"
  shows "(\<Sum>b \<in> B. 2 ^ snd b) = N"
proof -
  have "card (\<Union>b \<in> B. cells b) = (\<Sum>b \<in> B. card (cells b))"
    using assms tiling_finite [OF assms]
    by (intro card_UN_disjoint) (auto simp: tiling_def cells_def)
  moreover have "(\<Union>b \<in> B. cells b) = {..<N}" using assms by (simp add: tiling_def)
  ultimately show ?thesis by (simp add: cells_def)
qed

lemma free_set_sum:
  assumes "\<And>l. l < L \<Longrightarrow> distinct (fl l)"
  shows "(\<Sum>b \<in> free_set L fl. 2 ^ snd b) = free_pages L fl"
proof -
  have eq: "free_set L fl = (\<Union>l \<in> {..<L}. (\<lambda>p. (p, l)) ` set (fl l))"
    by (auto simp: free_set_def)
  have "(\<Sum>b \<in> (\<lambda>p. (p, l)) ` set (fl l). 2 ^ snd b) = length (fl l) * 2 ^ l" if "l < L" for l
    using distinct_card [OF assms [OF that]] by (subst sum.reindex) (auto simp: inj_on_def)
  then show ?thesis
    unfolding eq free_pages_def by (subst sum.UNION_disjoint) auto
qed

lemma used_set_sum:
  assumes "\<And>p l. al p = Some l \<Longrightarrow> p < N"
  shows "(\<Sum>b \<in> used_set al. 2 ^ snd b) = used_pages N al"
proof -
  have eq: "used_set al = (\<lambda>p. (p, the (al p))) ` {p. p < N \<and> al p \<noteq> None}"
    using assms by (force simp: used_set_def)
  have "(\<Sum>b \<in> used_set al. 2 ^ snd b) = (\<Sum>p \<in> {p. p < N \<and> al p \<noteq> None}. 2 ^ the (al p))"
    unfolding eq by (subst sum.reindex) (auto simp: inj_on_def)
  also have "\<dots> = (\<Sum>p \<in> {p. p < N \<and> al p \<noteq> None}. case al p of None \<Rightarrow> 0 | Some l \<Rightarrow> 2 ^ l)"
    by (intro sum.cong) auto
  also have "\<dots> = used_pages N al"
    unfolding used_pages_def by (intro sum.mono_neutral_left) auto
  finally show ?thesis .
qed

lemma page_accounting:
  assumes inv: "binv a m fl al {}"
  shows "free_pages (nlevels a) fl + used_pages (npages a) al = npages a"
proof -
  have t: "tiling (npages a) (nlevels a) (free_set (nlevels a) fl \<union> used_set al)"
    using binvD(5) [OF inv] by simp
  have "(\<Sum>b \<in> free_set (nlevels a) fl \<union> used_set al. (2::nat) ^ snd b) =
      (\<Sum>b \<in> free_set (nlevels a) fl. 2 ^ snd b) + (\<Sum>b \<in> used_set al. 2 ^ snd b)"
    using tiling_finite [OF t] binvD(6) [OF inv] by (intro sum.union_disjoint) auto
  moreover have "(\<Sum>b \<in> used_set al. 2 ^ snd b) = used_pages (npages a) al"
    by (rule used_set_sum) (rule alignedD(4) [OF binv_used_aligned [OF inv]])
  moreover have "(\<Sum>b \<in> free_set (nlevels a) fl. 2 ^ snd b) = free_pages (nlevels a) fl"
    using binvD(3) [OF inv] by (rule free_set_sum)
  ultimately show ?thesis using tiling_sum [OF t] by simp
qed

lemma stat_fold:
  assumes inv: "binv a m fl al H" and "n \<le> nlevels a"
  shows "fold (stat_step a m) [0..<n] (0, []) =
    (of_nat (free_pages n fl), map (\<lambda>l. of_nat (length (fl l))) [0..<n])"
  using assms(2)
proof (induction n)
  case (Suc n)
  have "bl_len m (list_addr a (int n)) = of_nat (length (fl n))"
    using list_rep_head(3) [OF binvD(2) [OF inv, of n]] Suc.prems by (simp add: hd_at_def)
  moreover have "n mod 64 = n" using Suc.prems wf_allocD(2) [OF binvD(1) [OF inv]] by simp
  ultimately show ?case
    using Suc by (simp add: stat_step_def Let_def free_pages_def push_bit_eq_mult)
qed (simp add: free_pages_def)

lemma lib_buddy_stat_spec:
  assumes inv: "binv a m fl al {}"
  shows "snd (lib_buddy_stat a m) =
    (of_nat (npages a - used_pages (npages a) al), map (\<lambda>l. of_nat (length (fl l))) [0..<nlevels a])"
proof -
  have "nat (b_levels a) = nlevels a" by (simp add: nlevels_def)
  moreover have "free_pages (nlevels a) fl = npages a - used_pages (npages a) al"
    using page_accounting [OF inv] by simp
  ultimately show ?thesis
    using stat_fold [OF inv, of "nlevels a"] by (simp add: lib_buddy_stat_def Let_def)
qed

end
