(* ===== verification/Buddy_Props.thy ===== *)
theory Buddy_Props
  imports Buddy_Bugs Buddy_Stat
begin

text \<open>The properties of the buddy allocator, with an example allocator for each of them.\<close>

section \<open>An example allocator\<close>

text \<open>Two levels, pages of 64 bytes, seven pages of memory at address 4096: five working pages.\<close>

definition ex_alloc :: buddy_allocator where
  "ex_alloc = init_desc no_alloc 2 64 7 4096"

lemma ex_alloc_fields:
  "nlevels ex_alloc = 2" "npages ex_alloc = 5" "b_pgsize ex_alloc = 64" "b_data ex_alloc = 4224"
  by (simp_all add: ex_alloc_def init_desc_def nlevels_def npages_def get_serv_pages_def
      sizeof_buddy_list_def)

lemma ex_init:
  obtains m where "lib_buddy_init no_alloc 2 64 7 4096 zero_heap = Inr (0, ex_alloc, m)"
    and "binv ex_alloc m (spec_init 5 2) Map.empty {}"
proof -
  have "get_serv_pages 2 64 7 \<le> 7" by (simp add: get_serv_pages_def sizeof_buddy_list_def)
  then show thesis
    using lib_buddy_init_establishes [OF init_args_example, of no_alloc zero_heap] that
      ex_alloc_fields(2) by (auto simp: ex_alloc_def)
qed

lemma ex_spec_init: "spec_init 5 2 = (\<lambda>l. if l = 0 then [4] else if l = 1 then [2, 0] else [])"
proof -
  have "spec_init 5 2 = spec_init_lower 5 (Suc 0) 4 (spec_init_top 1 2)"
    by (simp add: spec_init_def Let_def)
  then show ?thesis by (auto simp: spec_init_top_def upt_rec fun_eq_iff)
qed

lemma ex_spec_alloc:
  "spec_alloc 2 0 (spec_init 5 2, Map.empty) =
     Some (4, (\<lambda>l. if l = 1 then [2, 0] else []), Map.empty(4 \<mapsto> 0))"
  by (auto simp: spec_alloc_def ex_spec_init push_halves_def fun_eq_iff upt_rec)

text \<open>The example after one allocation of one page, which is page 4.\<close>

lemma ex_one_used:
  obtains m where "binv ex_alloc m (\<lambda>l. if l = 1 then [2, 0] else []) (Map.empty(4 \<mapsto> 0)) {}"
proof -
  obtain m where inv: "binv ex_alloc m (spec_init 5 2) Map.empty {}" using ex_init .
  show thesis
    using lib_buddy_alloc_refines [OF inv, of 0] ex_spec_alloc that by (auto simp: ex_alloc_fields)
qed

text \<open>A kernel-build state in which blocks of one and of two pages are allocated.\<close>

lemma ex_reach_run:
  "map_sum id (\<lambda>(a, m, own). (b_pgsize a, own)) (run_from_init False 2 64 7 [Alloc 1, Alloc 2]) =
     Inr (64, [(4352, 2), (4480, 1)])"
  by code_simp

lemma ex_reach:
  obtains a m where "buddy_reach False a m {(4352, 2), (4480, 1)}" and "b_pgsize a = 64"
proof -
  obtain a m where r: "run_from_init False 2 64 7 [Alloc 1, Alloc 2] =
      Inr (a, m, [(4352, 2), (4480, 1)])" "b_pgsize a = 64"
    using ex_reach_run
    by (cases "run_from_init False 2 64 7 [Alloc 1, Alloc 2]") auto
  show thesis
    using run_from_init_reach [OF r(1) init_args_example bad_script_init] that r(2) by simp
qed

section \<open>Safety of the kernel build\<close>

text \<open>C1: in the kernel build (plain \<open>char\<close> unsigned), in every state reached from initialisation
  by allocations, releases of owned blocks and arbitrary writes into owned blocks, no byte
  belongs to two blocks that are handed out.\<close>

theorem kernel_blocks_disjoint:
  assumes "buddy_reach False a m Own" and "b \<in> Own" and "c \<in> Own" and "b \<noteq> c"
  shows "\<not> (in_block a b x \<and> in_block a c x)"
  using own_disjoint [OF buddy_reach_inv [OF assms(1)] assms(2-4)] .

theorem kernel_blocks_disjoint_witness:
  "\<exists>a m. buddy_reach False a m {(4352, 2), (4480, 1)} \<and>
     \<not> (in_block a (4352, 2) 4400 \<and> in_block a (4480, 1) 4400) \<and> in_block a (4352, 2) 4400"
proof -
  obtain a m where r: "buddy_reach False a m {(4352, 2), (4480, 1)}" "b_pgsize a = 64" using ex_reach .
  have "\<not> (in_block a (4352, 2) 4400 \<and> in_block a (4480, 1) 4400)"
    using kernel_blocks_disjoint [OF r(1), of "(4352, 2)" "(4480, 1)"] by simp
  moreover have "in_block a (4352, 2) 4400" using r(2) by (simp add: in_block_def)
  ultimately show ?thesis using r(1) by blast
qed



text \<open>C3: in every reachable state of the kernel build no \<open>ASSERT\<close> of the library fails:
  allocation returns for every argument, and releasing an owned block succeeds.\<close>

theorem kernel_ops_total:
  assumes "buddy_reach False a m Own"
  shows "(\<exists>p m'. lib_buddy_alloc a n m = Inr (p, m')) \<and>
    (\<forall>b \<in> Own. \<exists>m'. lib_buddy_free False a (fst b) m = Inr m')"
  using alloc_total [OF buddy_reach_inv [OF assms]] reach_inv_free [OF buddy_reach_inv [OF assms]]
  by (metis prod.collapse)

theorem kernel_ops_total_witness:
  "\<exists>a m. buddy_reach False a m {(4352, 2), (4480, 1)} \<and>
     (\<exists>p m'. lib_buddy_alloc a 3 m = Inr (p, m')) \<and>
     (\<exists>m'. lib_buddy_free False a 4352 m = Inr m')"
proof -
  obtain a m where r: "buddy_reach False a m {(4352, 2), (4480, 1)}" using ex_reach by blast
  show ?thesis using kernel_ops_total [OF r, of 3] r by auto
qed

section \<open>Refinement\<close>

text \<open>C4: \<open>lib_buddy_alloc\<close> implements its specification.  It takes the first block of the smallest
  non-empty level that is large enough, gives the halves it cuts off to the lists below, and records
  the block as allocated; when there is no such level it returns null and changes nothing.\<close>

theorem alloc_refines_spec:
  assumes "binv a m fl al H" and "l < nlevels a"
  shows "case spec_alloc (nlevels a) l (fl, al) of
      None \<Rightarrow> lib_buddy_alloc a (2 ^ l) m = Inr (0, m)
    | Some (p, fl', al') \<Rightarrow> \<exists>m'. lib_buddy_alloc a (2 ^ l) m = Inr (pg a p, m') \<and>
        binv a m' fl' al' H"
  using lib_buddy_alloc_refines [OF assms] .

theorem alloc_refines_spec_witness:
  "\<exists>m m'. binv ex_alloc m (spec_init 5 2) Map.empty {} \<and>
     lib_buddy_alloc ex_alloc 1 m = Inr (pg ex_alloc 4, m') \<and>
     binv ex_alloc m' (\<lambda>l. if l = 1 then [2, 0] else []) (Map.empty(4 \<mapsto> 0)) {}"
proof -
  obtain m where inv: "binv ex_alloc m (spec_init 5 2) Map.empty {}" using ex_init .
  show ?thesis
    using alloc_refines_spec [OF inv, of 0] ex_spec_alloc inv by (auto simp: ex_alloc_fields)
qed

text \<open>C5: a request that is not a power of two below \<open>2 ^ levels\<close> is answered with null, and the
  memory is unchanged.\<close>

theorem alloc_bad_size:
  assumes "binv a m fl al H" and "\<And>l. l < nlevels a \<Longrightarrow> n \<noteq> 2 ^ l"
  shows "lib_buddy_alloc a n m = Inr (0, m)"
  using assms(1)
proof (cases rule: lib_buddy_alloc_cases [of _ _ _ _ _ n])
  case (level l)
  then show ?thesis using assms(2) by blast
qed

theorem alloc_bad_size_witness:
  "\<exists>m. binv ex_alloc m (spec_init 5 2) Map.empty {} \<and> lib_buddy_alloc ex_alloc 3 m = Inr (0, m)"
proof -
  obtain m where inv: "binv ex_alloc m (spec_init 5 2) Map.empty {}" using ex_init .
  have "(3 :: u64) \<noteq> 2 ^ l" if "l < nlevels ex_alloc" for l
  proof -
    have "l = 0 \<or> l = 1" using that by (auto simp: ex_alloc_fields)
    then show ?thesis by auto
  qed
  then show ?thesis using alloc_bad_size [OF inv, of 3] inv by blast
qed

text \<open>C6: in the kernel build, releasing an allocated block makes it the first free block of its
  level and clears its table entry; nothing else changes in the abstract state.\<close>

theorem kernel_free_refines_spec:
  assumes "binv a m fl al H" and "spec_free p (fl, al) = Some (fl', al')"
  shows "\<exists>m'. lib_buddy_free False a (pg a p) m = Inr m' \<and> binv a m' fl' al' H"
proof -
  obtain l where "al p = Some l" "fl' = fl(l := p # fl l)" "al' = al(p := None)"
    using assms(2) by (auto simp: spec_free_def split: option.splits)
  then show ?thesis using lib_buddy_free_refines [OF assms(1)] by blast
qed

theorem kernel_free_refines_spec_witness:
  "\<exists>m m'. binv ex_alloc m (\<lambda>l. if l = 1 then [2, 0] else []) (Map.empty(4 \<mapsto> 0)) {} \<and>
     lib_buddy_free False ex_alloc (pg ex_alloc 4) m = Inr m'"
proof -
  obtain m where inv: "binv ex_alloc m (\<lambda>l. if l = 1 then [2, 0] else []) (Map.empty(4 \<mapsto> 0)) {}"
    using ex_one_used .
  show ?thesis
    using kernel_free_refines_spec [OF inv, of 4] inv by (auto simp: spec_free_def)
qed

text \<open>C7: with a signed plain \<open>char\<close>, releasing a block merges it with its neighbour level by level
  as the specification does, provided each neighbour merged is the first block of its free list
  and none is of the top level.\<close>

theorem merging_free_refines_spec:
  assumes "binv a m fl al {}" and "al p = Some l"
    and "lifo_merge (nlevels a - 1 - l) l p fl"
    and "spec_free_merge (nlevels a) p (fl, al) = Some (fl', al')"
  shows "\<exists>m'. lib_buddy_free True a (pg a p) m = Inr m' \<and> binv a m' fl' al' {}"
  using lib_buddy_free_merge_refines [OF assms] .

lemma ex_three_used:
  obtains m where "binv ex_alloc m (\<lambda>l. if l = 0 then [3] else []) (Map.empty(4 \<mapsto> 0, 2 \<mapsto> 0, 0 \<mapsto> 1)) {}"
proof -
  let ?fl1 = "\<lambda>l :: nat. if l = 1 then [2, 0] else [] :: nat list"
  let ?fl2 = "\<lambda>l :: nat. if l = 0 then [3] else if l = 1 then [0] else [] :: nat list"
  obtain m where inv: "binv ex_alloc m ?fl1 (Map.empty(4 \<mapsto> 0)) {}" using ex_one_used .
  have "spec_alloc 2 0 (?fl1, Map.empty(4 \<mapsto> 0)) = Some (2, ?fl2, Map.empty(4 \<mapsto> 0, 2 \<mapsto> 0))"
    by (auto simp: spec_alloc_def push_halves_def fun_eq_iff upt_rec)
  then obtain m2 where inv2: "binv ex_alloc m2 ?fl2 (Map.empty(4 \<mapsto> 0, 2 \<mapsto> 0)) {}"
    using lib_buddy_alloc_refines [OF inv, of 0] by (auto simp: ex_alloc_fields)
  have "spec_alloc 2 1 (?fl2, Map.empty(4 \<mapsto> 0, 2 \<mapsto> 0)) =
      Some (0, (\<lambda>l. if l = 0 then [3] else []), Map.empty(4 \<mapsto> 0, 2 \<mapsto> 0, 0 \<mapsto> 1))"
    by (auto simp: spec_alloc_def push_halves_def fun_eq_iff upt_rec)
  then show thesis
    using lib_buddy_alloc_refines [OF inv2, of 1] that by (auto simp: ex_alloc_fields)
qed

theorem merging_free_refines_spec_witness:
  "\<exists>m m'. binv ex_alloc m (\<lambda>l. if l = 0 then [3] else []) (Map.empty(4 \<mapsto> 0, 2 \<mapsto> 0, 0 \<mapsto> 1)) {} \<and>
     lib_buddy_free True ex_alloc (pg ex_alloc 2) m = Inr m' \<and>
     binv ex_alloc m' (\<lambda>l. if l = 1 then [2] else []) (Map.empty(4 \<mapsto> 0, 0 \<mapsto> 1)) {}"
proof -
  obtain m where inv: "binv ex_alloc m (\<lambda>l. if l = 0 then [3] else [])
      (Map.empty(4 \<mapsto> 0, 2 \<mapsto> 0, 0 \<mapsto> 1)) {}"
    using ex_three_used .
  have lifo: "lifo_merge (nlevels ex_alloc - 1 - 0) 0 2 (\<lambda>l. if l = 0 then [3] else [])"
    by (simp add: ex_alloc_fields buddy_of_def)
  have sp: "spec_free_merge (nlevels ex_alloc) 2 ((\<lambda>l. if l = 0 then [3] else []),
      Map.empty(4 \<mapsto> 0, 2 \<mapsto> 0, 0 \<mapsto> 1)) =
      Some ((\<lambda>l. if l = 1 then [2] else []), Map.empty(4 \<mapsto> 0, 0 \<mapsto> 1))"
    by (auto simp: spec_free_merge_def ex_alloc_fields buddy_of_def fun_eq_iff)
  show ?thesis using merging_free_refines_spec [OF inv _ lifo sp] inv by auto
qed

section \<open>Initialisation, statistics and rejected calls\<close>



text \<open>C9: \<open>lib_buddy_stat\<close> reports as free exactly the pages that belong to no allocated block, and
  for each level the number of its free blocks.\<close>

theorem stat_reports_free_pages:
  assumes "binv a m fl al {}"
  shows "snd (lib_buddy_stat a m) = (of_nat (npages a - used_pages (npages a) al),
    map (\<lambda>l. of_nat (length (fl l))) [0..<nlevels a])"
  using lib_buddy_stat_spec [OF assms] .

theorem stat_reports_free_pages_witness:
  "\<exists>m. binv ex_alloc m (\<lambda>l. if l = 1 then [2, 0] else []) (Map.empty(4 \<mapsto> 0)) {} \<and>
     snd (lib_buddy_stat ex_alloc m) = (4, [0, 2])"
proof -
  obtain m where inv: "binv ex_alloc m (\<lambda>l. if l = 1 then [2, 0] else []) (Map.empty(4 \<mapsto> 0)) {}"
    using ex_one_used .
  have "used_pages 5 (Map.empty(4 \<mapsto> 0)) = 1"
    by (simp add: used_pages_def lessThan_Suc numeral_eq_Suc)
  then show ?thesis
    using stat_reports_free_pages [OF inv] inv by (auto simp: ex_alloc_fields upt_rec)
qed

text \<open>C10: releasing a page at which no allocated block starts never reaches the free lists: the
  host build panics with the user message, the kernel build, which reads the table entry as 255,
  fails the internal assertion instead.\<close>

theorem free_unallocated_rejected:
  assumes "binv a m fl al H" and "al p = None" and "p < npages a"
  shows "lib_buddy_free char_signed a (pg a p) m =
    Inl (if char_signed then Panic ''buddy_free - address is not correct!''
         else AssertFailed Buddy_alloc_c 367)"
  using lib_buddy_free_not_allocated [OF assms] .

theorem free_unallocated_rejected_witness:
  "\<exists>m. binv ex_alloc m (spec_init 5 2) Map.empty {} \<and>
     lib_buddy_free False ex_alloc (pg ex_alloc 3) m = Inl (AssertFailed Buddy_alloc_c 367)"
proof -
  obtain m where inv: "binv ex_alloc m (spec_init 5 2) Map.empty {}" using ex_init .
  show ?thesis using free_unallocated_rejected [OF inv, of 3 False] inv by (auto simp: ex_alloc_fields)
qed

section \<open>Where the code departs from its comments\<close>

text \<open>C11: \<open>remove_block\<close> on a block that is not the first of its list also drops every block in front
  of it, while the length field still counts them: \<open>insert_block\<close> never updates the \<open>prev\<close> field of the
  block that was first.\<close>

theorem remove_block_loses_blocks:
  assumes "binv a m fl al H" and "l < nlevels a" and "fl l = xs @ q # ys"
  shows "\<exists>m'. remove_block (pg a q) m = Inr m' \<and>
    chain (fb_next m') (fb_next m' (hd_at a l)) (map (pg a) ys) \<and>
    bl_len m' (hd_at a l) = of_nat (length xs + length ys)"
  using remove_block_drops_prefix [OF assms] .

theorem remove_block_loses_blocks_witness:
  "\<exists>m m'. binv ex_alloc m (spec_init 5 2) Map.empty {} \<and>
     remove_block (pg ex_alloc 0) m = Inr m' \<and> fb_next m' (hd_at ex_alloc 1) = 0 \<and>
     bl_len m' (hd_at ex_alloc 1) = 1"
proof -
  obtain m where inv: "binv ex_alloc m (spec_init 5 2) Map.empty {}" using ex_init .
  have "spec_init 5 2 1 = [2] @ 0 # []" by (simp add: ex_spec_init)
  then show ?thesis
    using remove_block_loses_blocks [OF inv, of 1 "[2]" 0 "[]"] inv by (auto simp: ex_alloc_fields)
qed

text \<open>C12: with merging enabled, releasing a top-level block whose neighbour is the first free
  top-level block indexes \<open>lists\<close> one past its end: the loop stops only after the level has been
  incremented to \<open>levels\<close>.\<close>

theorem top_level_merge_out_of_bounds:
  assumes "binv a m fl al {}" and "al p = Some (nlevels a - 1)"
    and "fl (nlevels a - 1) = buddy_of (nlevels a - 1) p # ps"
  shows "lib_buddy_free True a (pg a p) m = Inl OutOfBounds"
  using lib_buddy_free_top_level [OF assms] .

theorem top_level_merge_out_of_bounds_witness:
  "\<exists>m. binv ex_alloc m (\<lambda>l. if l = 0 then [4] else if l = 1 then [0] else []) (Map.empty(2 \<mapsto> 1)) {} \<and>
     lib_buddy_free True ex_alloc (pg ex_alloc 2) m = Inl OutOfBounds"
proof -
  obtain m0 where inv0: "binv ex_alloc m0 (spec_init 5 2) Map.empty {}" using ex_init .
  have "spec_alloc 2 1 (spec_init 5 2, Map.empty) =
      Some (2, (\<lambda>l. if l = 0 then [4] else if l = 1 then [0] else []), Map.empty(2 \<mapsto> 1))"
    by (auto simp: spec_alloc_def ex_spec_init push_halves_def fun_eq_iff upt_rec)
  then obtain m where inv: "binv ex_alloc m (\<lambda>l. if l = 0 then [4] else if l = 1 then [0] else [])
      (Map.empty(2 \<mapsto> 1)) {}"
    using lib_buddy_alloc_refines [OF inv0, of 1] by (auto simp: ex_alloc_fields)
  have "buddy_of 1 2 = 0" by (simp add: buddy_of_def)
  then show ?thesis
    using top_level_merge_out_of_bounds [OF inv, of 2 "[]"] inv by (auto simp: ex_alloc_fields)
qed

text \<open>C13: with merging enabled (plain \<open>char\<close> signed), ordinary allocations and releases reach a state
  in which two blocks that are handed out share a byte.\<close>

theorem host_double_allocation:
  "\<exists>a m Own b c x. buddy_reach True a m Own \<and> b \<in> Own \<and> c \<in> Own \<and> b \<noteq> c \<and>
     in_block a b x \<and> in_block a c x"
proof -
  obtain a m where r: "run_from_init True 2 64 7 bad_script = Inr (a, m, [(4288, 1), (4224, 2)])"
      "b_pgsize a = 64"
    using bad_script_run by (cases "run_from_init True 2 64 7 bad_script") auto
  have "buddy_reach True a m (set [(4288, 1), (4224, 2)])"
    using run_from_init_reach [OF r(1) init_args_example bad_script_init] .
  moreover have "in_block a (4288, 1) 4300" "in_block a (4224, 2) 4300"
    using r(2) by (simp_all add: in_block_def)
  moreover have "(4288, 1) \<noteq> (4224 :: addr, 2 :: u64)" by simp
  ultimately show ?thesis
    by (intro exI [of _ a] exI [of _ m] exI [of _ "set [(4288, 1), (4224, 2)]"]
        exI [of _ "(4288, 1)"] exI [of _ "(4224, 2)"] exI [of _ 4300]) simp
qed


end
