(* ===== verification/Slab.thy ===== *)
theory Slab
  imports Prelude
begin

text \<open>
  The slab allocator library, lib/slab_alloc: the structs of slab\_alloc.h and every function of
  slab\_alloc.c, in the order of the file.  Memory is one map per struct field and a byte map for
  the occupancy bytes at the end of each page.  The page allocator is reached through the function
  pointers of \<open>slab_alloc_t\<close>; its state is the type parameter \<open>'b\<close> and is threaded through.
\<close>

section \<open>Data\<close>

text \<open>
  \<open>slab_page_t\<close> has the fields next, prev, list and used\_cells and stands at the start of every
  page; \<open>slab_list_t\<close> is such a struct at offset 0 followed by \<open>len\<close>, so \<open>&list->head\<close> and \<open>list\<close>
  are the same address.
\<close>

record slab_heap =
  sp_next :: "addr \<Rightarrow> addr"
  sp_prev :: "addr \<Rightarrow> addr"
  sp_list :: "addr \<Rightarrow> addr"
  sp_used :: "addr \<Rightarrow> u32"
  sl_len :: "addr \<Rightarrow> u32"
  s_byte :: "addr \<Rightarrow> u8"

definition sizeof_slab_page :: u64 where
  "sizeof_slab_page = 32"

definition sizeof_slab_list :: u64 where
  "sizeof_slab_list = 40"

record 'b slab_alloc_t =
  sl_lists :: addr
  sl_pgsize :: u32
  sl_ssize :: u32
  sl_cells :: u32
  sl_buddy_alloc :: "u64 \<Rightarrow> 'b \<Rightarrow> (addr \<times> 'b) res"
  sl_buddy_free :: "addr \<Rightarrow> 'b \<Rightarrow> 'b res"
  sl_pgbegin :: "addr \<Rightarrow> addr"

section \<open>List operations\<close>

definition slab_list_init :: "addr \<Rightarrow> u32 \<Rightarrow> slab_heap \<Rightarrow> slab_heap" where
  "slab_list_init list used_cells m = m
     \<lparr> sp_prev := (sp_prev m)(list := 0),
       sp_next := (sp_next m)(list := 0),
       sp_list := (sp_list m)(list := list),
       sp_used := (sp_used m)(list := used_cells),
       sl_len := (sl_len m)(list := 0) \<rparr>"

definition slab_list_insert :: "addr \<Rightarrow> addr \<Rightarrow> slab_heap \<Rightarrow> slab_heap res" where
  "slab_list_insert base_block new_block m =
    (let list = sp_list m base_block in
     guardE (sp_used m list = sp_used m base_block) (AssertFailed Slab_alloc_c 71)
      (let m1 = m \<lparr> sp_used := (sp_used m)(new_block := sp_used m list) \<rparr>;
           m2 = m1 \<lparr> sp_list := (sp_list m1)(new_block := list) \<rparr>;
           m3 = m2 \<lparr> sp_prev := (sp_prev m2)(new_block := base_block) \<rparr>;
           m4 = m3 \<lparr> sp_next := (sp_next m3)(new_block := sp_next m3 base_block) \<rparr>;
           m5 = m4 \<lparr> sp_next := (sp_next m4)(base_block := new_block) \<rparr>
       in Inr (m5 \<lparr> sl_len := (sl_len m5)(list := sl_len m5 list + 1) \<rparr>)))"

definition slab_list_remove :: "addr \<Rightarrow> slab_heap \<Rightarrow> slab_heap res" where
  "slab_list_remove block m =
    guardE (block \<noteq> 0) NullDeref
     (let list = sp_list m block in
      guardE (sp_prev m block \<noteq> 0) (AssertFailed Slab_alloc_c 85)
       (guardE (0 < sl_len m list) (AssertFailed Slab_alloc_c 86)
         (let prev = sp_prev m block;
              next = sp_next m block;
              m1 = m \<lparr> sp_next := (sp_next m)(prev := next) \<rparr>;
              m2 = (if next \<noteq> 0 then m1 \<lparr> sp_prev := (sp_prev m1)(next := prev) \<rparr> else m1)
          in Inr (m2 \<lparr> sl_len := (sl_len m2)(list := sl_len m2 list - 1) \<rparr>))))"

definition slab_list_add :: "addr \<Rightarrow> addr \<Rightarrow> slab_heap \<Rightarrow> slab_heap res" where
  "slab_list_add list new_block m = slab_list_insert list new_block m"

text \<open>\<open>&slab->lists[i]\<close>: only the first \<open>cells\<close> lists of the array exist.\<close>

definition slab_list_addr :: "'b slab_alloc_t \<Rightarrow> u32 \<Rightarrow> addr" where
  "slab_list_addr slab i = sl_lists slab + sizeof_slab_list * ucast i"

definition slab_list_at :: "'b slab_alloc_t \<Rightarrow> u32 \<Rightarrow> addr res" where
  "slab_list_at slab i = guardE (i < sl_cells slab) OutOfBounds (Inr (slab_list_addr slab i))"

section \<open>Layout of a page\<close>

text \<open>The product \<open>slab->cells * slab->ssize\<close> is a 32-bit one.\<close>

definition bitmaps_ptr :: "'b slab_alloc_t \<Rightarrow> addr \<Rightarrow> addr" where
  "bitmaps_ptr slab page = page + sizeof_slab_page + ucast (sl_cells slab * sl_ssize slab)"

definition cells_ptr :: "addr \<Rightarrow> addr" where
  "cells_ptr page = page + sizeof_slab_page"

section \<open>Initialisation\<close>

text \<open>The loop of \<open>serv_pages\<close> has no exit besides its test: \<open>None\<close> means that it never returns.\<close>

partial_function (option) serv_pages_loop :: "u64 \<Rightarrow> u64 \<Rightarrow> u64 \<Rightarrow> u64 option" where
  "serv_pages_loop pgsize n res =
    (if n \<le> res * pgsize then Some res else serv_pages_loop pgsize n (res * 2))"

declare serv_pages_loop.simps [code]

definition serv_pages :: "u64 \<Rightarrow> u64 \<Rightarrow> u64 res" where
  "serv_pages pgsize n =
    (case serv_pages_loop pgsize n 1 of None \<Rightarrow> Inl Diverges | Some res \<Rightarrow> Inr res)"

definition slab_init_lists ::
  "'b slab_alloc_t \<Rightarrow> slab_heap \<times> 'b \<Rightarrow> ('b slab_alloc_t \<times> slab_heap \<times> 'b) res" where
  "slab_init_lists slab = (\<lambda>(m, w).
    (let lists_size = sizeof_slab_list * ucast (sl_cells slab) in
     bindE (serv_pages (ucast (sl_pgsize slab)) lists_size) (\<lambda>serv.
       bindE (sl_buddy_alloc slab serv w) (\<lambda>(p, w').
         (let slab' = slab \<lparr> sl_lists := p \<rparr> in
          guardE (sl_lists slab' \<noteq> 0) (AssertFailed Slab_alloc_c 133)
           (Inr (slab',
                 fold (\<lambda>i. slab_list_init (slab_list_addr slab' (of_nat i)) (of_nat i))
                   [0..<unat (sl_cells slab')] m,
                 w')))))))"

text \<open>\<open>pgsize - sizeof(slab_page_t)\<close> is computed with 64 bits and \<open>1 + ssize\<close> with 32 bits.\<close>

definition lib_slab_init ::
  "u32 \<Rightarrow> u32 \<Rightarrow> (u64 \<Rightarrow> 'b \<Rightarrow> (addr \<times> 'b) res) \<Rightarrow> (addr \<Rightarrow> 'b \<Rightarrow> 'b res) \<Rightarrow> (addr \<Rightarrow> addr) \<Rightarrow>
     'b slab_alloc_t \<Rightarrow> slab_heap \<times> 'b \<Rightarrow> ('b slab_alloc_t \<times> slab_heap \<times> 'b) res" where
  "lib_slab_init pgsize ssize buddy_alloc buddy_free pgbegin slab s =
    guardE (1 + ssize \<noteq> 0) DivByZero
     (slab_init_lists
       (slab \<lparr> sl_pgsize := pgsize, sl_ssize := ssize, sl_buddy_alloc := buddy_alloc,
               sl_buddy_free := buddy_free, sl_pgbegin := pgbegin,
               sl_cells := ucast ((ucast pgsize - sizeof_slab_page) div ucast (1 + ssize)) \<rparr>) s)"

section \<open>Allocation\<close>

definition set_byte :: "addr \<Rightarrow> u8 \<Rightarrow> slab_heap \<Rightarrow> slab_heap" where
  "set_byte p v m = m \<lparr> s_byte := (s_byte m)(p := v) \<rparr>"

definition new_page :: "'b slab_alloc_t \<Rightarrow> slab_heap \<times> 'b \<Rightarrow> (addr \<times> slab_heap \<times> 'b) res" where
  "new_page slab = (\<lambda>(m, w).
    bindE (sl_buddy_alloc slab 1 w) (\<lambda>(page, w').
      guardE (page \<noteq> 0) (AssertFailed Slab_alloc_c 167)
       (let bitmaps = bitmaps_ptr slab page;
            m1 = fold (\<lambda>i. set_byte (bitmaps + of_nat i) 0) [0..<unat (sl_cells slab)] m
        in guardE (s_byte m1 bitmaps = 0) (AssertFailed Slab_alloc_c 172)
            (bindE (slab_list_at slab 0) (\<lambda>list0.
              bindE (slab_list_add list0 page m1) (\<lambda>m2.
                guardE (bitmaps_ptr slab page = bitmaps) (AssertFailed Slab_alloc_c 174)
                 (guardE (s_byte m2 bitmaps = 0) (AssertFailed Slab_alloc_c 175)
                   (guardE (sp_used m2 page = 0) (AssertFailed Slab_alloc_c 176)
                     (guardE (sp_list m2 page = list0) (AssertFailed Slab_alloc_c 177)
                       (Inr (page, m2, w')))))))))))"

text \<open>The search \<open>while(bitmaps[i] == 1)\<close> of \<open>page_alloc_cell\<close>.\<close>

function find_cell :: "addr \<Rightarrow> u32 \<Rightarrow> slab_heap \<Rightarrow> u32 \<Rightarrow> u32 res" where
  "find_cell bitmaps used m i =
    (if s_byte m (bitmaps + ucast i) = 1 then
       (if i < used then find_cell bitmaps used m (i + 1) else Inl (AssertFailed Slab_alloc_c 187))
     else Inr i)"
  by pat_completeness auto
termination
proof (relation "measure (\<lambda>(bitmaps, used, m, i). unat used - unat i)")
  fix bitmaps :: addr and used i :: u32 and m :: slab_heap
  assume lt: "i < used"
  then have "unat (i + 1) = unat i + 1" by (rule unat_suc_less)
  then show "((bitmaps, used, m, i + 1), (bitmaps, used, m, i)) \<in> measure (\<lambda>(bitmaps, used, m, i). unat used - unat i)"
    using lt by (simp add: word_less_nat_alt)
qed simp

definition page_alloc_cell :: "'b slab_alloc_t \<Rightarrow> addr \<Rightarrow> slab_heap \<Rightarrow> (addr \<times> slab_heap) res" where
  "page_alloc_cell slab page m =
    guardE (page \<noteq> 0) NullDeref
     (guardE (sp_used m page < sl_cells slab) (AssertFailed Slab_alloc_c 182)
       (let bitmaps = bitmaps_ptr slab page in
        bindE (find_cell bitmaps (sp_used m page) m 0) (\<lambda>i.
          guardE (s_byte m (bitmaps + ucast i) = 0) (AssertFailed Slab_alloc_c 191)
           (bindE (slab_list_remove page (set_byte (bitmaps + ucast i) 1 m)) (\<lambda>m1.
             bindE (slab_list_at slab (sp_used m1 page + 1)) (\<lambda>list.
               bindE (slab_list_add list page m1) (\<lambda>m2.
                 Inr (cells_ptr page + ucast (i * sl_ssize slab), m2))))))))"

text \<open>The loop of \<open>lib_slab_alloc\<close> over the lists; the argument is \<open>cells + 1\<close>.\<close>

fun find_list :: "'b slab_alloc_t \<Rightarrow> nat \<Rightarrow> slab_heap \<Rightarrow> addr option" where
  "find_list slab 0 m = None"
| "find_list slab (Suc cells) m =
    (let list = slab_list_addr slab (of_nat cells) in
     if 0 < sl_len m list then Some list else find_list slab cells m)"

definition lib_slab_alloc :: "'b slab_alloc_t \<Rightarrow> slab_heap \<times> 'b \<Rightarrow> (addr \<times> slab_heap \<times> 'b) res" where
  "lib_slab_alloc slab = (\<lambda>(m, w).
    (let cells = sint (sl_cells slab - 2) in
     case find_list slab (nat (cells + 1)) m of
       Some list \<Rightarrow>
         bindE (page_alloc_cell slab (sp_next m list) m) (\<lambda>(p, m'). Inr (p, m', w))
     | None \<Rightarrow>
         guardE (-1 \<le> cells) (AssertFailed Slab_alloc_c 212)
          (bindE (new_page slab (m, w)) (\<lambda>(page, m1, w1).
            bindE (page_alloc_cell slab page m1) (\<lambda>(p, m2). Inr (p, m2, w1))))))"

section \<open>Release\<close>

text \<open>
  The index is a signed 64-bit division that rounds towards zero, converted to \<open>int\<close>; as a
  subscript it is sign-extended again.
\<close>

definition cell_index :: "u64 \<Rightarrow> u32 \<Rightarrow> int" where
  "cell_index d ssize =
    i32_of_u64 (word_of_int (sgn (sint d) * (\<bar>sint d\<bar> div uint ssize)))"

definition page_clean_cell :: "'b slab_alloc_t \<Rightarrow> addr \<Rightarrow> addr \<Rightarrow> slab_heap \<Rightarrow> slab_heap res" where
  "page_clean_cell slab page ptr m =
    (let bitmaps = bitmaps_ptr slab page; cells = cells_ptr page in
     guardE (sl_ssize slab \<noteq> 0) DivByZero
      (let i = cell_index (ptr - cells) (sl_ssize slab) in
       guardE (s_byte m (bitmaps + word_of_int i) = 1) (AssertFailed Slab_alloc_c 227)
        (Inr (set_byte (bitmaps + word_of_int i) 0 m))))"

definition lib_slab_free :: "'b slab_alloc_t \<Rightarrow> addr \<Rightarrow> slab_heap \<times> 'b \<Rightarrow> (slab_heap \<times> 'b) res" where
  "lib_slab_free slab ptr = (\<lambda>(m, w).
    (let page = sl_pgbegin slab ptr in
     bindE (slab_list_remove page m) (\<lambda>m1.
       bindE
        (if sp_used m1 page = 1 then
           bindE (sl_buddy_free slab page w) (\<lambda>w'. Inr (m1, w'))
         else
           bindE (slab_list_at slab (sp_used m1 page - 1)) (\<lambda>list.
             bindE (slab_list_add list page m1) (\<lambda>m2. Inr (m2, w))))
        (\<lambda>(m2, w').
           bindE (page_clean_cell slab page ptr m2) (\<lambda>m3. Inr (m3, w'))))))"

end
