(* ===== verification/Slab_Inv.thy ===== *)
theory Slab_Inv
  imports Slab Node_List
begin

text \<open>
  What the memory of a slab allocator looks like: the lists of pages by number of used cells, the
  occupancy bytes of each page, and the effect of the list operations on them.
\<close>

section \<open>Addresses\<close>

definition ncells :: "'b slab_alloc_t \<Rightarrow> nat" where
  "ncells slab = unat (sl_cells slab)"

definition nssize :: "'b slab_alloc_t \<Rightarrow> nat" where
  "nssize slab = unat (sl_ssize slab)"

definition npgsize :: "'b slab_alloc_t \<Rightarrow> nat" where
  "npgsize slab = unat (sl_pgsize slab)"

definition shd :: "'b slab_alloc_t \<Rightarrow> nat \<Rightarrow> addr" where
  "shd slab k = sl_lists slab + 40 * of_nat k"

definition sbit :: "'b slab_alloc_t \<Rightarrow> addr \<Rightarrow> nat \<Rightarrow> addr" where
  "sbit slab p i = bitmaps_ptr slab p + of_nat i"

definition scell :: "'b slab_alloc_t \<Rightarrow> addr \<Rightarrow> nat \<Rightarrow> addr" where
  "scell slab p i = cells_ptr p + of_nat (i * nssize slab)"

text \<open>Allocators that can be used: at least two cells fit into a page.\<close>

definition wf_slab :: "'b slab_alloc_t \<Rightarrow> bool" where
  "wf_slab slab \<longleftrightarrow> 2 \<le> ncells slab \<and> 0 < nssize slab \<and>
     32 + ncells slab * (nssize slab + 1) \<le> npgsize slab \<and> npgsize slab < 2 ^ 31 \<and>
     0 < unat (sl_lists slab) \<and> unat (sl_lists slab) + 40 * ncells slab < 2 ^ 64"

definition page_ok :: "'b slab_alloc_t \<Rightarrow> addr \<Rightarrow> bool" where
  "page_ok slab p \<longleftrightarrow> p \<noteq> 0 \<and> npgsize slab dvd unat p \<and> unat p + npgsize slab < 2 ^ 64 \<and>
     (unat p + npgsize slab \<le> unat (sl_lists slab) \<or>
      unat (sl_lists slab) + 40 * ncells slab \<le> unat p)"

lemma wf_slabD:
  assumes "wf_slab slab"
  shows "2 \<le> ncells slab" and "0 < nssize slab"
    and "32 + ncells slab * nssize slab + ncells slab \<le> npgsize slab" and "npgsize slab < 2 ^ 31"
    and "ncells slab * nssize slab < 2 ^ 31" and "ncells slab < 2 ^ 31" and "nssize slab < 2 ^ 31"
    and "0 < unat (sl_lists slab)" and "unat (sl_lists slab) + 40 * ncells slab < 2 ^ 64"
proof -
  show n: "2 \<le> ncells slab" "0 < nssize slab" "npgsize slab < 2 ^ 31"
      "0 < unat (sl_lists slab)" "unat (sl_lists slab) + 40 * ncells slab < 2 ^ 64"
    using assms by (simp_all add: wf_slab_def)
  show p: "32 + ncells slab * nssize slab + ncells slab \<le> npgsize slab"
    using assms by (simp add: wf_slab_def algebra_simps)
  have "1 * nssize slab \<le> ncells slab * nssize slab" using n(1) by (intro mult_le_mono1) simp
  then show "ncells slab * nssize slab < 2 ^ 31" "ncells slab < 2 ^ 31" "nssize slab < 2 ^ 31"
    using n(3) p by linarith+
qed

lemma page_okD:
  assumes "page_ok slab p"
  shows "p \<noteq> 0" and "npgsize slab dvd unat p" and "unat p + npgsize slab < 2 ^ 64"
  using assms by (simp_all add: page_ok_def)

lemma shd_eq: "shd slab k = sl_lists slab + of_nat (40 * k)"
  by (simp add: shd_def)

lemma unat_shd:
  assumes "wf_slab slab" and "k < ncells slab"
  shows "unat (shd slab k) = unat (sl_lists slab) + 40 * k"
  unfolding shd_eq using wf_slabD(9) [OF assms(1)] assms(2) by (intro unat_add_of_nat) simp

lemma shd_inj:
  assumes "wf_slab slab" and "j < ncells slab" and "k < ncells slab" and "shd slab j = shd slab k"
  shows "j = k"
proof -
  have "unat (sl_lists slab) + 40 * j = unat (sl_lists slab) + 40 * k"
    using unat_shd [OF assms(1,2)] unat_shd [OF assms(1,3)] unfolding assms(4) by (rule trans [OF sym])
  then show ?thesis by simp
qed

lemma shd_nonzero:
  assumes "wf_slab slab" and "k < ncells slab"
  shows "shd slab k \<noteq> 0"
  using unat_shd [OF assms] wf_slabD(8) [OF assms(1)] by auto

lemma page_not_shd:
  assumes "wf_slab slab" and "page_ok slab p" and "k < ncells slab"
  shows "p \<noteq> shd slab k"
  using unat_shd [OF assms(1,3)] assms wf_slabD(3) [OF assms(1)] by (auto simp: page_ok_def)

lemma slab_list_addr_shd:
  assumes "wf_slab slab" and "k < ncells slab"
  shows "slab_list_addr slab (of_nat k) = shd slab k"
  using wf_slabD(6) [OF assms(1)] assms(2) ucast_of_nat_u32 [of k]
  by (simp add: slab_list_addr_def shd_def sizeof_slab_list_def)

lemma slab_list_at_shd:
  assumes "wf_slab slab" and "k < ncells slab"
  shows "slab_list_at slab (of_nat k) = Inr (shd slab k)"
proof -
  have "unat (of_nat k :: u32) = k" using wf_slabD(6) [OF assms(1)] assms(2) by (intro unat_of_nat_u32) simp
  then have "(of_nat k :: u32) < sl_cells slab" using assms(2) by (simp add: word_less_nat_alt ncells_def)
  then show ?thesis by (simp add: slab_list_at_def slab_list_addr_shd [OF assms])
qed

lemma bitmaps_ptr_eq:
  assumes "wf_slab slab"
  shows "bitmaps_ptr slab p = p + of_nat (32 + ncells slab * nssize slab)"
proof -
  have "sl_cells slab * sl_ssize slab = of_nat (ncells slab * nssize slab)"
    by (simp add: ncells_def nssize_def)
  then have "(ucast (sl_cells slab * sl_ssize slab) :: u64) = of_nat (ncells slab * nssize slab)"
    using ucast_of_nat_u32 [of "ncells slab * nssize slab"] wf_slabD(5) [OF assms] by simp
  then show ?thesis by (simp add: bitmaps_ptr_def sizeof_slab_page_def)
qed

lemma unat_sbit:
  assumes "wf_slab slab" and "page_ok slab p" and "i < ncells slab"
  shows "unat (sbit slab p i) = unat p + (32 + ncells slab * nssize slab + i)"
proof -
  have "sbit slab p i = p + of_nat (32 + ncells slab * nssize slab + i)"
    by (simp add: sbit_def bitmaps_ptr_eq [OF assms(1)])
  also have "unat \<dots> = unat p + (32 + ncells slab * nssize slab + i)"
    using wf_slabD(3) [OF assms(1)] page_okD(3) [OF assms(2)] assms(3) by (intro unat_add_of_nat) simp
  finally show ?thesis .
qed

lemma scell_end:
  assumes "i < ncells slab"
  shows "i * nssize slab + nssize slab \<le> ncells slab * nssize slab"
proof -
  have "Suc i * nssize slab \<le> ncells slab * nssize slab" using assms by (intro mult_le_mono1) simp
  then show ?thesis by simp
qed

lemma unat_scell:
  assumes "wf_slab slab" and "page_ok slab p" and "i < ncells slab"
  shows "unat (scell slab p i) = unat p + (32 + i * nssize slab)"
proof -
  have "scell slab p i = p + of_nat (32 + i * nssize slab)"
    by (simp add: scell_def cells_ptr_def sizeof_slab_page_def)
  also have "unat \<dots> = unat p + (32 + i * nssize slab)"
    using wf_slabD(3) [OF assms(1)] page_okD(3) [OF assms(2)] scell_end [OF assms(3)]
    by (intro unat_add_of_nat) simp
  finally show ?thesis .
qed

text \<open>Offsets inside a page determine the page.\<close>

lemma page_of_offset:
  assumes "npgsize slab dvd unat p" and "d < npgsize slab"
  shows "unat p + d - (unat p + d) mod npgsize slab = unat p"
proof -
  obtain k where k: "unat p = npgsize slab * k" using assms(1) by (rule dvdE)
  have "(unat p + d) mod npgsize slab = d" unfolding k using assms(2) by simp
  then show ?thesis by simp
qed

lemma same_page:
  assumes "page_ok slab p" and "page_ok slab q" and "d < npgsize slab" and "e < npgsize slab"
    and "unat p + d = unat q + e"
  shows "p = q"
proof -
  have "unat p = unat p + d - (unat p + d) mod npgsize slab"
    by (rule page_of_offset [OF page_okD(2) [OF assms(1)] assms(3), symmetric])
  also have "\<dots> = unat q"
    unfolding assms(5) by (rule page_of_offset [OF page_okD(2) [OF assms(2)] assms(4)])
  finally show ?thesis by (rule word_unat_eq_iff [THEN iffD2])
qed

lemma sbit_inj:
  assumes "wf_slab slab" and "page_ok slab p" and "page_ok slab q" and "i < ncells slab" and "j < ncells slab"
    and "sbit slab p i = sbit slab q j"
  shows "p = q \<and> i = j"
proof -
  note u = unat_sbit [OF assms(1,2,4)] unat_sbit [OF assms(1,3,5)]
  have eq: "unat p + (32 + ncells slab * nssize slab + i) = unat q + (32 + ncells slab * nssize slab + j)"
    using u assms(6) by simp
  have "p = q"
    using wf_slabD(3) [OF assms(1)] assms(4,5) by (intro same_page [OF assms(2,3) _ _ eq]) linarith+
  then show ?thesis using eq by simp
qed

section \<open>Lists of pages\<close>

interpretation sl: node_ops sp_next sp_prev sp_list sp_used sl_len s_byte slab_list_add slab_list_remove
proof unfold_locales
  fix h :: slab_heap and l n :: addr
  assume "sp_list h l = l" and "n \<noteq> l"
  then show "\<exists>h'. slab_list_add l n h = Inr h' \<and> sp_next h' = (sp_next h)(n := sp_next h l, l := n) \<and>
      sp_prev h' = (sp_prev h)(n := l) \<and> sp_list h' = (sp_list h)(n := l) \<and>
      sp_used h' = (sp_used h)(n := sp_used h l) \<and> sl_len h' = (sl_len h)(l := sl_len h l + 1) \<and>
      s_byte h' = s_byte h"
    by (simp add: slab_list_add_def slab_list_insert_def Let_def)
next
  fix h :: slab_heap and b :: addr
  assume "b \<noteq> 0" and "b \<noteq> sp_list h b" and "sp_prev h b \<noteq> 0" and "0 < sl_len h (sp_list h b)"
  then show "\<exists>h'. slab_list_remove b h = Inr h' \<and> sp_next h' = (sp_next h)(sp_prev h b := sp_next h b) \<and>
      sp_prev h' = (if sp_next h b \<noteq> 0 then (sp_prev h)(sp_next h b := sp_prev h b) else sp_prev h) \<and>
      sp_list h' = sp_list h \<and> sp_used h' = sp_used h \<and>
      sl_len h' = (sl_len h)(sp_list h b := sl_len h (sp_list h b) - 1) \<and> s_byte h' = s_byte h"
    by (simp add: slab_list_remove_def Let_def)
qed

definition slab_list_rep :: "'b slab_alloc_t \<Rightarrow> slab_heap \<Rightarrow> nat \<Rightarrow> addr list \<Rightarrow> bool" where
  "slab_list_rep slab m k ps \<longleftrightarrow>
     node_list (sp_next m) (sp_prev m) (sp_list m) (sp_used m) (sl_len m) (shd slab k) (of_nat k) ps"

text \<open>\<open>L k\<close> are the pages with \<open>k\<close> used cells, in the order of list \<open>k\<close>.\<close>

definition lists_rep :: "'b slab_alloc_t \<Rightarrow> slab_heap \<Rightarrow> (nat \<Rightarrow> addr list) \<Rightarrow> bool" where
  "lists_rep slab m L \<longleftrightarrow>
     (\<forall>k < ncells slab. slab_list_rep slab m k (L k)) \<and>
     (\<forall>k \<ge> ncells slab. L k = []) \<and>
     (\<forall>k. distinct (L k)) \<and>
     (\<forall>j k. j \<noteq> k \<longrightarrow> set (L j) \<inter> set (L k) = {}) \<and>
     (\<forall>k. \<forall>p \<in> set (L k). page_ok slab p)"

lemma lists_repD:
  assumes "lists_rep slab m L"
  shows "\<And>k. k < ncells slab \<Longrightarrow> slab_list_rep slab m k (L k)"
    and "\<And>k. ncells slab \<le> k \<Longrightarrow> L k = []"
    and "\<And>k. distinct (L k)"
    and "\<And>j k p. p \<in> set (L j) \<Longrightarrow> p \<in> set (L k) \<Longrightarrow> j = k"
    and "\<And>k p. p \<in> set (L k) \<Longrightarrow> page_ok slab p"
    and "\<And>k p. p \<in> set (L k) \<Longrightarrow> k < ncells slab"
proof -
  show l: "L k = []" if "ncells slab \<le> k" for k using assms that by (simp add: lists_rep_def)
  show "k < ncells slab" if "p \<in> set (L k)" for k p
    using l [of k] that by (cases "ncells slab \<le> k") auto
  show "j = k" if "p \<in> set (L j)" "p \<in> set (L k)" for j k p
    using assms that unfolding lists_rep_def by (metis disjoint_iff)
qed (use assms in \<open>auto simp: lists_rep_def\<close>)

lemma lists_rep_node:
  assumes "lists_rep slab m L" and "p \<in> set (L k)"
  shows "sp_used m p = of_nat k" and "sp_list m p = shd slab k"
proof -
  have "slab_list_rep slab m k (L k)" using lists_repD(1,6) [OF assms(1)] assms(2) by blast
  then show "sp_used m p = of_nat k" and "sp_list m p = shd slab k"
    using assms(2) by (auto simp: slab_list_rep_def dest: node_listD(5))
qed

lemma slab_list_rep_frame:
  assumes "slab_list_rep slab m k ps"
    and "\<And>x. x \<in> insert (shd slab k) (set ps) \<Longrightarrow>
      sp_next m' x = sp_next m x \<and> sp_prev m' x = sp_prev m x \<and> sp_list m' x = sp_list m x \<and>
      sp_used m' x = sp_used m x \<and> sl_len m' x = sl_len m x"
  shows "slab_list_rep slab m' k ps"
  using assms unfolding slab_list_rep_def by (rule node_list_cong)

lemma slab_list_rep_bytes:
  "slab_list_rep slab (m \<lparr> s_byte := b \<rparr>) k ps = slab_list_rep slab m k ps"
  by (simp add: slab_list_rep_def)

lemma lists_rep_bytes: "lists_rep slab (m \<lparr> s_byte := b \<rparr>) L = lists_rep slab m L"
  by (simp add: lists_rep_def slab_list_rep_bytes)

text \<open>Only list \<open>k\<close> changes when the structs outside its head and its nodes are kept.\<close>

lemma lists_rep_change:
  assumes wf: "wf_slab slab" and L: "lists_rep slab m L" and k: "k < ncells slab"
    and new: "slab_list_rep slab m' k ps" "distinct ps"
    and fresh: "\<And>p j. p \<in> set ps \<Longrightarrow> page_ok slab p \<and> (p \<in> set (L j) \<longrightarrow> j = k)"
    and X: "X \<subseteq> insert (shd slab k) (set (L k) \<union> set ps)"
    and frame: "\<And>x. x \<notin> X \<Longrightarrow>
      sp_next m' x = sp_next m x \<and> sp_prev m' x = sp_prev m x \<and> sp_list m' x = sp_list m x \<and>
      sp_used m' x = sp_used m x \<and> sl_len m' x = sl_len m x"
  shows "lists_rep slab m' (L(k := ps))"
proof -
  note D = lists_repD [OF L]
  have "slab_list_rep slab m' j (L j)" if j: "j < ncells slab" "j \<noteq> k" for j
  proof (rule slab_list_rep_frame [OF D(1) [OF j(1)]])
    fix x assume x: "x \<in> insert (shd slab j) (set (L j))"
    have "x \<notin> X"
    proof (cases "x = shd slab j")
      case True
      moreover have "shd slab j \<noteq> shd slab k" using shd_inj [OF wf j(1) k] j(2) by blast
      moreover have "shd slab j \<notin> set (L k) \<union> set ps"
        using page_not_shd [OF wf _ j(1)] D(5) fresh by blast
      ultimately show ?thesis using X by blast
    next
      case False
      then have x: "x \<in> set (L j)" using x by simp
      then have "x \<noteq> shd slab k" using page_not_shd [OF wf D(5) k] by blast
      moreover have "x \<notin> set (L k)" using D(4) [OF x] j(2) by blast
      moreover have "x \<notin> set ps" using fresh x j(2) by blast
      ultimately show ?thesis using X by blast
    qed
    then show "sp_next m' x = sp_next m x \<and> sp_prev m' x = sp_prev m x \<and> sp_list m' x = sp_list m x \<and>
      sp_used m' x = sp_used m x \<and> sl_len m' x = sl_len m x" by (rule frame)
  qed
  moreover have "set (L j) \<inter> set ps = {}" if "j \<noteq> k" for j using fresh that by blast
  moreover have "set (L i) \<inter> set (L j) = {}" if "i \<noteq> j" for i j using D(4) that by blast
  ultimately show ?thesis
    using new fresh k D(2,3,5) unfolding lists_rep_def by (auto simp: Int_commute)
qed

lemma slab_list_add_rep:
  assumes wf: "wf_slab slab" and L: "lists_rep slab m L" and k: "k < ncells slab"
    and p: "page_ok slab p" "\<And>j. p \<notin> set (L j)"
  obtains m' where "slab_list_add (shd slab k) p m = Inr m'" and "lists_rep slab m' (L(k := p # L k))"
    and "s_byte m' = s_byte m" and "sp_used m' p = of_nat k" and "sp_list m' p = shd slab k"
proof -
  note D = lists_repD [OF L]
  have ps: "p \<noteq> shd slab k" "p \<noteq> 0" "p \<notin> set (L k)" "shd slab k \<notin> set (L k)"
    using page_not_shd [OF wf p(1) k] page_okD(1) [OF p(1)] p(2) page_not_shd [OF wf D(5) k] by blast+
  obtain m' where m': "slab_list_add (shd slab k) p m = Inr m'" "s_byte m' = s_byte m"
      "node_list (sp_next m') (sp_prev m') (sp_list m') (sp_used m') (sl_len m') (shd slab k) (of_nat k) (p # L k)"
      "\<And>x. x \<noteq> shd slab k \<Longrightarrow> x \<noteq> p \<Longrightarrow> sp_next m' x = sp_next m x \<and> sp_prev m' x = sp_prev m x \<and>
        sp_list m' x = sp_list m x \<and> sp_used m' x = sp_used m x \<and> sl_len m' x = sl_len m x"
    using sl.add_node [OF D(1) [OF k, unfolded slab_list_rep_def] ps] by blast
  have "lists_rep slab m' (L(k := p # L k))"
  proof (rule lists_rep_change [OF wf L k, where X = "{shd slab k, p}"])
    show "slab_list_rep slab m' k (p # L k)" using m'(3) by (simp add: slab_list_rep_def)
    show "distinct (p # L k)" using D(3) ps(3) by simp
    show "page_ok slab q \<and> (q \<in> set (L j) \<longrightarrow> j = k)" if "q \<in> set (p # L k)" for q j
      using that p D(4,5) by auto
  qed (use m'(4) in auto)
  moreover have "sp_used m' p = of_nat k \<and> sp_list m' p = shd slab k"
    using node_listD(5) [OF m'(3), of p] by simp
  ultimately show thesis using that m'(1,2) by blast
qed

lemma slab_list_remove_rep:
  assumes wf: "wf_slab slab" and L: "lists_rep slab m L" and Lk: "L k = p # ps"
    and fits: "length (L k) < 2 ^ 32"
  obtains m' where "slab_list_remove p m = Inr m'" and "lists_rep slab m' (L(k := ps))"
    and "s_byte m' = s_byte m" and "sp_used m' p = of_nat k"
proof -
  note D = lists_repD [OF L]
  have k: "k < ncells slab" using D(6) [of p k] Lk by simp
  have l: "node_list (sp_next m) (sp_prev m) (sp_list m) (sp_used m) (sl_len m) (shd slab k) (of_nat k) (p # ps)"
    using D(1) [OF k] Lk by (simp add: slab_list_rep_def)
  have hd0: "shd slab k \<notin> set (p # ps)" using page_not_shd [OF wf D(5) k] Lk by metis
  have "distinct (p # ps)" "length (p # ps) < 2 ^ LENGTH(32)" using D(3) [of k] fits Lk by simp_all
  then obtain m' where m': "slab_list_remove p m = Inr m'" "s_byte m' = s_byte m"
      "node_list (sp_next m') (sp_prev m') (sp_list m') (sp_used m') (sl_len m') (shd slab k) (of_nat k) ps"
      "\<And>x. x \<notin> insert (shd slab k) (set ps) \<Longrightarrow> sp_next m' x = sp_next m x \<and> sp_prev m' x = sp_prev m x \<and>
        sp_list m' x = sp_list m x \<and> sp_used m' x = sp_used m x \<and> sl_len m' x = sl_len m x"
    using sl.remove_first [OF l shd_nonzero [OF wf k] hd0] by blast
  have "lists_rep slab m' (L(k := ps))"
  proof (rule lists_rep_change [OF wf L k, where X = "insert (shd slab k) (set ps)"])
    show "slab_list_rep slab m' k ps" using m'(3) by (simp add: slab_list_rep_def)
    show "distinct ps" using \<open>distinct (p # ps)\<close> by simp
    show "page_ok slab q \<and> (q \<in> set (L j) \<longrightarrow> j = k)" if "q \<in> set ps" for q j
    proof -
      have "q \<in> set (L k)" using that Lk by simp
      then show ?thesis using D(4,5) by blast
    qed
  qed (use m'(4) in auto)
  moreover have "sp_used m' p = of_nat k"
  proof -
    have "p \<notin> insert (shd slab k) (set ps)" using hd0 \<open>distinct (p # ps)\<close> by auto
    then show ?thesis using m'(4) [of p] node_listD(5) [OF l, of p] by simp
  qed
  ultimately show thesis using that m'(1,2) by blast
qed

end
