(* ===== verification/Slab_Ops.thy ===== *)
theory Slab_Ops
  imports Slab_Inv
begin

text \<open>
  The functions of the slab library that work on one page, and the search for a page, against the
  representation of lists and occupancy bytes.
\<close>

section \<open>Occupancy bytes\<close>

definition bits_rep :: "'b slab_alloc_t \<Rightarrow> slab_heap \<Rightarrow> addr \<Rightarrow> nat set \<Rightarrow> bool" where
  "bits_rep slab m p S \<longleftrightarrow> (\<forall>i < ncells slab. s_byte m (sbit slab p i) = (if i \<in> S then 1 else 0))"

text \<open>\<open>U p\<close> are the used cells of page \<open>p\<close>; a page stands in the list of their number.\<close>

definition slab_rep ::
  "'b slab_alloc_t \<Rightarrow> slab_heap \<Rightarrow> (nat \<Rightarrow> addr list) \<Rightarrow> (addr \<Rightarrow> nat set) \<Rightarrow> bool" where
  "slab_rep slab m L U \<longleftrightarrow> lists_rep slab m L \<and>
     (\<forall>k. \<forall>p \<in> set (L k). U p \<subseteq> {..<ncells slab} \<and> card (U p) = k \<and> bits_rep slab m p (U p))"

lemma slab_repD:
  assumes "slab_rep slab m L U"
  shows "lists_rep slab m L"
    and "\<And>k p. p \<in> set (L k) \<Longrightarrow> U p \<subseteq> {..<ncells slab}"
    and "\<And>k p. p \<in> set (L k) \<Longrightarrow> card (U p) = k"
    and "\<And>k p. p \<in> set (L k) \<Longrightarrow> bits_rep slab m p (U p)"
  using assms by (auto simp: slab_rep_def)

lemma bits_rep_cong: "s_byte m' = s_byte m \<Longrightarrow> bits_rep slab m' p S = bits_rep slab m p S"
  by (simp add: bits_rep_def)

lemma s_byte_set_byte [mem_simps]: "s_byte (set_byte x v m) = (s_byte m)(x := v)"
  by (simp add: set_byte_def)

lemma bits_rep_set_same:
  assumes "wf_slab slab" and "page_ok slab p" and "i < ncells slab" and "bits_rep slab m p S"
  shows "bits_rep slab (set_byte (sbit slab p i) 1 m) p (insert i S)"
    and "bits_rep slab (set_byte (sbit slab p i) 0 m) p (S - {i})"
  using assms sbit_inj [OF assms(1,2,2) _ assms(3)]
  by (auto simp: bits_rep_def mem_simps)

lemma bits_rep_set_other:
  assumes "wf_slab slab" and "page_ok slab p" and "page_ok slab q" and "p \<noteq> q" and "i < ncells slab"
  shows "bits_rep slab (set_byte (sbit slab p i) v m) q S = bits_rep slab m q S"
proof -
  have "sbit slab q j \<noteq> sbit slab p i" if "j < ncells slab" for j
    using sbit_inj [OF assms(1,3,2) that assms(5)] assms(4) by blast
  then show ?thesis by (simp add: bits_rep_def mem_simps)
qed

section \<open>Finding a free cell\<close>

definition first_free :: "nat set \<Rightarrow> nat \<Rightarrow> bool" where
  "first_free S i \<longleftrightarrow> i \<notin> S \<and> (\<forall>j < i. j \<in> S)"

lemma first_free_exists:
  assumes "S \<subseteq> {..<n}" and "card S < n"
  obtains i where "first_free S i" and "i < n" and "i \<le> card S"
proof -
  have "\<exists>i. i \<notin> S" using assms by (metis card_lessThan lessThan_iff less_irrefl subsetI subset_antisym)
  then obtain i where i: "i \<notin> S" "\<forall>j < i. j \<in> S" using exists_least_iff [of "\<lambda>i. i \<notin> S"] by blast
  have fin: "finite S" using assms(1) finite_subset by blast
  have "card {..<i} \<le> card S" using i(2) fin by (intro card_mono) auto
  then show thesis using that i assms(2) by (auto simp: first_free_def)
qed

lemma find_cell_first:
  assumes wf: "wf_slab slab" and bits: "bits_rep slab m p S" and i: "first_free S i" "i < ncells slab"
    and c: "i \<le> c" "c < ncells slab" and j: "j \<le> i"
  shows "find_cell (bitmaps_ptr slab p) (of_nat c) m (of_nat j) = Inr (of_nat i)"
  using j
proof (induction "i - j" arbitrary: j)
  have byte: "s_byte m (bitmaps_ptr slab p + ucast (of_nat r :: u32)) = (if r \<in> S then 1 else 0)"
    if "r < ncells slab" for r
  proof -
    have "(ucast (of_nat r :: u32) :: u64) = of_nat r"
      using that wf_slabD(6) [OF wf] by (intro ucast_of_nat_u32) simp
    then show ?thesis using bits that by (simp add: bits_rep_def sbit_def)
  qed
  {
    case 0
    then have "j = i" by simp
    then show ?case using byte [OF i(2)] i(1) by (simp add: first_free_def)
  next
    case (Suc d)
    then have lt: "j < i" by simp
    have u: "unat (of_nat r :: u32) = r" if "r < ncells slab" for r
      using that wf_slabD(6) [OF wf] by (intro unat_of_nat_u32) simp
    have "(of_nat j :: u32) < of_nat c"
      using lt c i(2) u [of j] u [of c] by (simp add: word_less_nat_alt)
    moreover have "s_byte m (bitmaps_ptr slab p + ucast (of_nat j :: u32)) = 1"
      using byte [of j] lt i by (simp add: first_free_def)
    moreover have "find_cell (bitmaps_ptr slab p) (of_nat c) m (of_nat (Suc j)) = Inr (of_nat i)"
      using Suc lt by (intro Suc.hyps(1)) simp_all
    ultimately show ?case by (subst find_cell.simps) (simp add: add.commute)
  }
qed

section \<open>Allocating a cell of a page\<close>

text \<open>
  Moving the first page of list \<open>k\<close> to the front of list \<open>k'\<close>, after one of its bytes changed:
  what \<open>page_alloc_cell\<close> and \<open>lib_slab_free\<close> have in common.
\<close>

definition move_page :: "nat \<Rightarrow> nat \<Rightarrow> (nat \<Rightarrow> addr list) \<Rightarrow> nat \<Rightarrow> addr list" where
  "move_page k k' L = (case L k of [] \<Rightarrow> L | p # ps \<Rightarrow> L(k := ps, k' := p # L k'))"

lemma in_move_page:
  assumes "L k = p # ps" and "k \<noteq> k'" and "q \<in> set (move_page k k' L j)"
  shows "q = p \<and> j = k' \<or> q \<in> set (L j)"
  using assms by (auto simp: move_page_def split: if_splits)

lemma move_page_rep:
  assumes wf: "wf_slab slab" and L: "lists_rep slab m L" and Lk: "L k = p # ps"
    and fits: "length (L k) < 2 ^ 32" and k': "k' < ncells slab" "k' \<noteq> k"
  obtains m1 m2 where "slab_list_remove p m = Inr m1" and "sp_used m1 p = of_nat k"
    and "slab_list_at slab (of_nat k') = Inr (shd slab k')"
    and "slab_list_add (shd slab k') p m1 = Inr m2" and "lists_rep slab m2 (move_page k k' L)"
    and "s_byte m1 = s_byte m" and "s_byte m2 = s_byte m"
proof -
  note D = lists_repD [OF L]
  obtain m1 where m1: "slab_list_remove p m = Inr m1" "lists_rep slab m1 (L(k := ps))"
      "s_byte m1 = s_byte m" "sp_used m1 p = of_nat k"
    using slab_list_remove_rep [OF wf L Lk fits] by blast
  have pk: "p \<in> set (L k)" using Lk by simp
  have ps: "p \<notin> set ps" using D(3) [of k] Lk by simp
  have fresh: "p \<notin> set ((L(k := ps)) j)" for j using ps D(4) [OF pk, of j] by auto
  obtain m2 where m2: "slab_list_add (shd slab k') p m1 = Inr m2"
      "lists_rep slab m2 ((L(k := ps))(k' := p # (L(k := ps)) k'))" "s_byte m2 = s_byte m1"
    using slab_list_add_rep [OF wf m1(2) k'(1) D(5) [OF pk] fresh] by blast
  have "lists_rep slab m2 (move_page k k' L)" using m2(2) k'(2) Lk by (simp add: move_page_def)
  then show thesis using that m1 m2 slab_list_at_shd [OF wf k'(1)] by simp
qed

lemma slab_rep_moved:
  assumes rep: "slab_rep slab m L U" and Lk: "L k = p # ps" and k': "k' \<noteq> k"
    and L': "lists_rep slab m' (move_page k k' L)"
    and S: "S \<subseteq> {..<ncells slab}" "card S = k'" "bits_rep slab m' p S"
    and others: "\<And>q j. q \<in> set (L j) \<Longrightarrow> q \<noteq> p \<Longrightarrow> bits_rep slab m' q (U q)"
  shows "slab_rep slab m' (move_page k k' L) (U(p := S))"
proof -
  note D = slab_repD [OF rep] and LD = lists_repD [OF L']
  have p': "p \<in> set (move_page k k' L k')" using Lk k' by (simp add: move_page_def)
  have "(U(p := S)) q \<subseteq> {..<ncells slab} \<and> card ((U(p := S)) q) = j \<and> bits_rep slab m' q ((U(p := S)) q)"
    if q: "q \<in> set (move_page k k' L j)" for q j
  proof (cases "q = p")
    case True
    then have "j = k'" using LD(4) [OF p', of j] q by simp
    then show ?thesis using True S by simp
  next
    case False
    then have "q \<in> set (L j)" using in_move_page [of L, OF Lk k'[symmetric] q] by blast
    then show ?thesis using False D(2,3) others by simp
  qed
  then show ?thesis using L' by (simp add: slab_rep_def)
qed

lemma page_alloc_cell_spec:
  assumes wf: "wf_slab slab" and rep: "slab_rep slab m L U" and Lk: "L k = p # ps"
    and k: "Suc k < ncells slab" and fits: "length (L k) < 2 ^ 32"
  obtains i m' where "first_free (U p) i" and "i < ncells slab"
    and "page_alloc_cell slab p m = Inr (scell slab p i, m')"
    and "slab_rep slab m' (move_page k (Suc k) L) (U(p := insert i (U p)))"
    and "s_byte m' = (s_byte m)(sbit slab p i := 1)"
proof -
  note D = slab_repD [OF rep] and LD = lists_repD [OF slab_repD(1) [OF rep]]
  have p: "p \<in> set (L k)" using Lk by simp
  note pok = LD(5) [OF p]
  have n: "ncells slab < 2 ^ 31" by (rule wf_slabD(6) [OF wf])
  have cU: "card (U p) = k" by (rule D(3) [OF p])
  obtain i where i: "first_free (U p) i" "i < ncells slab" "i \<le> k"
    using first_free_exists [OF D(2) [OF p]] cU k by auto
  have used: "sp_used m p = of_nat k"
    by (rule lists_rep_node(1) [OF D(1) p])
  have ui: "(ucast (of_nat i :: u32) :: u64) = of_nat i"
    using i(2) n by (intro ucast_of_nat_u32) simp
  have find: "find_cell (bitmaps_ptr slab p) (sp_used m p) m 0 = Inr (of_nat i)"
    using find_cell_first [OF wf D(4) [OF p] i(1,2,3), of 0] k unfolding used by simp
  let ?m0 = "set_byte (sbit slab p i) 1 m"
  have L0: "lists_rep slab ?m0 L" using D(1) by (simp add: set_byte_def lists_rep_bytes)
  obtain m1 m2 where m: "slab_list_remove p ?m0 = Inr m1" "sp_used m1 p = of_nat k"
      "slab_list_at slab (of_nat (Suc k)) = Inr (shd slab (Suc k))"
      "slab_list_add (shd slab (Suc k)) p m1 = Inr m2" "lists_rep slab m2 (move_page k (Suc k) L)"
      "s_byte m2 = s_byte ?m0"
    using move_page_rep [OF wf L0 Lk fits k n_not_Suc_n [symmetric]] by blast
  have byte0: "s_byte m (sbit slab p i) = 0"
    using D(4) [OF p] i(1,2) by (simp add: bits_rep_def first_free_def)
  have lt: "(of_nat k :: u32) < sl_cells slab"
    using k n unat_of_nat_u32 [of k] by (simp add: word_less_nat_alt ncells_def)
  have prod: "(ucast (of_nat i * sl_ssize slab) :: u64) = of_nat (i * nssize slab)"
  proof -
    have "i * nssize slab < 2 ^ 32" using scell_end [OF i(2)] wf_slabD(5) [OF wf] by simp
    then show ?thesis using ucast_of_nat_u32 [of "i * nssize slab"] by (simp add: nssize_def)
  qed
  have "page_alloc_cell slab p m = Inr (scell slab p i, m2)"
    using page_okD(1) [OF pok] lt find byte0 m used ui prod
    by (simp add: page_alloc_cell_def Let_def scell_def sbit_def add.commute)
  moreover have "slab_rep slab m2 (move_page k (Suc k) L) (U(p := insert i (U p)))"
  proof (rule slab_rep_moved [OF rep Lk])
    show "insert i (U p) \<subseteq> {..<ncells slab}" using D(2) [OF p] i(2) by simp
    have "finite (U p)" using D(2) [OF p] finite_subset by blast
    then show "card (insert i (U p)) = Suc k" using i(1) cU by (simp add: first_free_def)
    show "bits_rep slab m2 p (insert i (U p))"
      using bits_rep_set_same(1) [OF wf pok i(2) D(4) [OF p]] by (simp add: bits_rep_cong [OF m(6)])
    show "bits_rep slab m2 q (U q)" if "q \<in> set (L j)" "q \<noteq> p" for q j
      using bits_rep_set_other [OF wf pok LD(5) [OF that(1)] that(2) [symmetric] i(2)] D(4) [OF that(1)]
      by (simp add: bits_rep_cong [OF m(6)])
  qed (use m(5) in simp_all)
  ultimately show thesis using that i(1,2) m(6) by (simp add: mem_simps)
qed

section \<open>Finding a page\<close>

lemma slab_len_pos:
  assumes "wf_slab slab" and "lists_rep slab m L" and "k < ncells slab" and "length (L k) < 2 ^ 32"
  shows "0 < sl_len m (shd slab k) \<longleftrightarrow> L k \<noteq> []"
proof -
  have "sl_len m (shd slab k) = of_nat (length (L k))"
    using lists_repD(1) [OF assms(2,3)] unfolding slab_list_rep_def by (rule node_listD(4))
  moreover have "unat (of_nat (length (L k)) :: u32) = length (L k)"
    using assms(4) by (rule unat_of_nat_u32)
  ultimately show ?thesis by (simp add: word_less_nat_alt)
qed

text \<open>The search takes the fullest page among the lists below \<open>n\<close>.\<close>

lemma find_list_spec:
  assumes wf: "wf_slab slab" and L: "lists_rep slab m L" and small: "\<And>k. length (L k) < 2 ^ 32"
    and n: "n \<le> ncells slab"
  shows "(find_list slab n m = None \<longleftrightarrow> (\<forall>k < n. L k = [])) \<and>
    (\<forall>l. find_list slab n m = Some l \<longrightarrow>
      (\<exists>k < n. l = shd slab k \<and> L k \<noteq> [] \<and> (\<forall>j. k < j \<and> j < n \<longrightarrow> L j = [])))"
  using n
proof (induction n)
  case (Suc n)
  then have IH: "find_list slab n m = None \<longleftrightarrow> (\<forall>k < n. L k = [])"
      "\<And>l. find_list slab n m = Some l \<Longrightarrow>
        \<exists>k < n. l = shd slab k \<and> L k \<noteq> [] \<and> (\<forall>j. k < j \<and> j < n \<longrightarrow> L j = [])"
    by auto
  have n: "n < ncells slab" using Suc.prems by simp
  note h = slab_list_addr_shd [OF wf n] and pos = slab_len_pos [OF wf L n small]
  show ?case
  proof (cases "L n = []")
    case False
    then show ?thesis using pos by (auto simp: h Let_def less_Suc_eq)
  next
    case True
    then have eq: "find_list slab (Suc n) m = find_list slab n m" using pos by (simp add: h Let_def)
    have "\<exists>k < Suc n. l = shd slab k \<and> L k \<noteq> [] \<and> (\<forall>j. k < j \<and> j < Suc n \<longrightarrow> L j = [])"
      if l: "find_list slab n m = Some l" for l
    proof -
      obtain k where k: "k < n" "l = shd slab k" "L k \<noteq> []" "\<forall>j. k < j \<and> j < n \<longrightarrow> L j = []"
        using IH(2) [OF l] by blast
      then show ?thesis using True by (intro exI [of _ k]) (auto simp: less_Suc_eq)
    qed
    then show ?thesis using True IH(1) unfolding eq by (auto simp: less_Suc_eq)
  qed
qed simp

lemma slab_head_next:
  assumes "lists_rep slab m L" and "k < ncells slab" and "L k = p # ps"
  shows "sp_next m (shd slab k) = p"
  using node_listD(1) [OF lists_repD(1) [OF assms(1,2), unfolded slab_list_rep_def]] assms(3) by simp

end
