(* ===== verification/Slab_Alloc.thy ===== *)
theory Slab_Alloc
  imports Slab_Ops
begin

text \<open>
  The slab library as a client of a page allocator: what the page allocator has to promise, the
  invariant of the slab allocator, and initialisation, allocation and release under it.
\<close>

section \<open>The page allocator's interface\<close>

definition page_block :: "nat \<Rightarrow> addr \<times> u64 \<Rightarrow> addr \<Rightarrow> bool" where
  "page_block pgsize b x \<longleftrightarrow> unat (fst b) \<le> unat x \<and> unat x < unat (fst b) + unat (snd b) * pgsize"

locale page_provider =
  fixes palloc :: "u64 \<Rightarrow> 'b \<Rightarrow> (addr \<times> 'b) res"
    and pfree :: "addr \<Rightarrow> 'b \<Rightarrow> 'b res"
    and pgbegin :: "addr \<Rightarrow> addr"
    and pgsize :: nat
    and pinv :: "'b \<Rightarrow> (addr \<times> u64) set \<Rightarrow> bool"
  assumes pgsize_pos: "0 < pgsize"
    and alloc_total: "pinv w Own \<Longrightarrow> \<exists>p w'. palloc n w = Inr (p, w')"
    and alloc_owns: "pinv w Own \<Longrightarrow> palloc n w = Inr (p, w') \<Longrightarrow>
      pinv w' (if p = 0 then Own else insert (p, n) Own)"
    and alloc_fresh: "pinv w Own \<Longrightarrow> palloc n w = Inr (p, w') \<Longrightarrow> p \<noteq> 0 \<Longrightarrow> (p, k) \<notin> Own"
    and free_owned: "pinv w Own \<Longrightarrow> (p, n) \<in> Own \<Longrightarrow> \<exists>w'. pfree p w = Inr w' \<and> pinv w' (Own - {(p, n)})"
    and own_apart: "pinv w Own \<Longrightarrow> b \<in> Own \<Longrightarrow> c \<in> Own \<Longrightarrow> b \<noteq> c \<Longrightarrow>
      \<not> (page_block pgsize b x \<and> page_block pgsize c x)"
    and own_range: "pinv w Own \<Longrightarrow> (p, n) \<in> Own \<Longrightarrow> 0 < unat p \<and> 0 < unat n \<and> pgsize dvd unat p \<and>
      unat p + unat n * pgsize < 2 ^ 64"
    and own_small: "pinv w Own \<Longrightarrow> finite Own \<and> card Own < 2 ^ 32"
    and pgbegin_unat: "unat (pgbegin x) = unat x - unat x mod pgsize"
begin

lemma blocks_apart:
  assumes "pinv w Own" and "(p, n) \<in> Own" and "(q, k) \<in> Own" and "(p, n) \<noteq> (q, k)"
  shows "unat p + unat n * pgsize \<le> unat q \<or> unat q + unat k * pgsize \<le> unat p"
proof (rule ccontr)
  assume "\<not> ?thesis"
  then have lt: "unat q < unat p + unat n * pgsize" "unat p < unat q + unat k * pgsize" by auto
  have "page_block pgsize (p, n) q \<and> page_block pgsize (q, k) q" if "unat p \<le> unat q"
    using that lt own_range [OF assms(1,3)] pgsize_pos by (simp add: page_block_def)
  moreover have "page_block pgsize (p, n) p \<and> page_block pgsize (q, k) p" if "unat q \<le> unat p"
    using that lt own_range [OF assms(1,2)] pgsize_pos by (simp add: page_block_def)
  ultimately show False using own_apart [OF assms] by (meson nat_le_linear)
qed

end

section \<open>The invariant\<close>

definition linked ::
  "(u64 \<Rightarrow> 'b \<Rightarrow> (addr \<times> 'b) res) \<Rightarrow> (addr \<Rightarrow> 'b \<Rightarrow> 'b res) \<Rightarrow> (addr \<Rightarrow> addr) \<Rightarrow> nat \<Rightarrow>
     'b slab_alloc_t \<Rightarrow> bool" where
  "linked palloc pfree pgbegin pgsize slab \<longleftrightarrow>
     sl_buddy_alloc slab = palloc \<and> sl_buddy_free slab = pfree \<and> sl_pgbegin slab = pgbegin \<and>
     npgsize slab = pgsize"

text \<open>The pages of a slab allocator, and the blocks of the page allocator it holds.\<close>

definition slab_pages :: "(nat \<Rightarrow> addr list) \<Rightarrow> addr set" where
  "slab_pages L = {p. \<exists>k. p \<in> set (L k)}"

definition slab_holds :: "'b slab_alloc_t \<Rightarrow> (nat \<Rightarrow> addr list) \<Rightarrow> u64 \<Rightarrow> (addr \<times> u64) set" where
  "slab_holds slab L serv = insert (sl_lists slab, serv) ((\<lambda>p. (p, 1)) ` slab_pages L)"

definition slab_inv ::
  "('b \<Rightarrow> (addr \<times> u64) set \<Rightarrow> bool) \<Rightarrow> 'b slab_alloc_t \<Rightarrow> slab_heap \<times> 'b \<Rightarrow> (nat \<Rightarrow> addr list) \<Rightarrow>
     (addr \<Rightarrow> nat set) \<Rightarrow> u64 \<Rightarrow> (addr \<times> u64) set \<Rightarrow> bool" where
  "slab_inv pinv slab s L U serv Rest \<longleftrightarrow> wf_slab slab \<and> slab_rep slab (fst s) L U \<and> L 0 = [] \<and>
     pinv (snd s) (slab_holds slab L serv \<union> Rest) \<and> slab_holds slab L serv \<inter> Rest = {} \<and>
     40 * ncells slab \<le> unat serv * npgsize slab"

text \<open>The addresses of the cells that are in use.\<close>

definition live :: "'b slab_alloc_t \<Rightarrow> (nat \<Rightarrow> addr list) \<Rightarrow> (addr \<Rightarrow> nat set) \<Rightarrow> addr set" where
  "live slab L U = {scell slab p i | p i. p \<in> slab_pages L \<and> i \<in> U p}"

definition in_cell :: "'b slab_alloc_t \<Rightarrow> addr \<Rightarrow> addr \<Rightarrow> bool" where
  "in_cell slab c x \<longleftrightarrow> unat c \<le> unat x \<and> unat x < unat c + nssize slab"

lemma slab_invD:
  assumes "slab_inv pinv slab s L U serv Rest"
  shows "wf_slab slab" and "slab_rep slab (fst s) L U" and "L 0 = []"
    and "pinv (snd s) (slab_holds slab L serv \<union> Rest)" and "slab_holds slab L serv \<inter> Rest = {}"
    and "40 * ncells slab \<le> unat serv * npgsize slab"
  using assms by (auto simp: slab_inv_def)

lemma in_slab_holds: "p \<in> set (L k) \<Longrightarrow> (p, 1) \<in> slab_holds slab L serv"
  by (auto simp: slab_holds_def slab_pages_def)

lemma slab_pages_push: "slab_pages (L(k := p # L k)) = insert p (slab_pages L)"
proof (rule set_eqI)
  fix q
  have eq: "q \<in> set ((L(k := p # L k)) j) \<longleftrightarrow> j = k \<and> q = p \<or> q \<in> set (L j)" for j by auto
  show "q \<in> slab_pages (L(k := p # L k)) \<longleftrightarrow> q \<in> insert p (slab_pages L)"
    unfolding slab_pages_def mem_Collect_eq insert_iff eq by blast
qed

lemma slab_pages_pop:
  assumes "lists_rep slab m L" and "L k = p # ps"
  shows "slab_pages (L(k := ps)) = slab_pages L - {p}"
proof (rule set_eqI)
  fix q
  have "p \<in> set (L k)" using assms(2) by simp
  then have p: "p \<notin> set (L j)" if "j \<noteq> k" for j using lists_repD(4) [OF assms(1)] that by blast
  have "distinct (L k)" by (rule lists_repD(3) [OF assms(1)])
  then have eq: "q \<in> set ((L(k := ps)) j) \<longleftrightarrow> q \<in> set (L j) \<and> q \<noteq> p" for j
    using assms(2) p [of j] by (cases "j = k") auto
  show "q \<in> slab_pages (L(k := ps)) \<longleftrightarrow> q \<in> slab_pages L - {p}"
    unfolding slab_pages_def Diff_iff mem_Collect_eq singleton_iff eq by blast
qed

section \<open>Cells\<close>

lemma cell_in_page:
  assumes "wf_slab slab" and "page_ok slab p" and "i < ncells slab" and "in_cell slab (scell slab p i) x"
  obtains d where "unat x = unat p + d" and "32 + i * nssize slab \<le> d" and "d < 32 + i * nssize slab + nssize slab"
    and "d < 32 + ncells slab * nssize slab" and "d < npgsize slab"
proof
  have u: "unat (scell slab p i) = unat p + (32 + i * nssize slab)" by (rule unat_scell [OF assms(1-3)])
  have x: "unat p + (32 + i * nssize slab) \<le> unat x" "unat x < unat p + (32 + i * nssize slab) + nssize slab"
    using assms(4) u by (simp_all add: in_cell_def)
  show "unat x = unat p + (unat x - unat p)" "32 + i * nssize slab \<le> unat x - unat p"
      "unat x - unat p < 32 + i * nssize slab + nssize slab"
    using x by linarith+
  then show "unat x - unat p < 32 + ncells slab * nssize slab" "unat x - unat p < npgsize slab"
    using scell_end [OF assms(3)] wf_slabD(3) [OF assms(1)] by linarith+
qed

lemma cells_apart:
  assumes wf: "wf_slab slab" and p: "page_ok slab p" "i < ncells slab" and q: "page_ok slab q" "j < ncells slab"
    and x: "in_cell slab (scell slab p i) x" "in_cell slab (scell slab q j) x"
  shows "p = q \<and> i = j"
proof -
  obtain d where d: "unat x = unat p + d" "32 + i * nssize slab \<le> d" "d < 32 + i * nssize slab + nssize slab"
      "d < npgsize slab" using cell_in_page [OF wf p x(1)] by blast
  obtain e where e: "unat x = unat q + e" "32 + j * nssize slab \<le> e" "e < 32 + j * nssize slab + nssize slab"
      "e < npgsize slab" using cell_in_page [OF wf q x(2)] by blast
  have pq: "p = q" using same_page [OF p(1) q(1) d(4) e(4)] d(1) e(1) by simp
  then have de: "d = e" using d(1) e(1) by simp
  have le: "a \<le> b" if "32 + a * nssize slab \<le> d" "d < 32 + b * nssize slab + nssize slab" for a b
  proof -
    have "a * nssize slab < Suc b * nssize slab" using that by simp
    then show ?thesis by (metis less_Suc_eq_le mult_less_cancel2)
  qed
  show ?thesis using pq le [of i j] le [of j i] d e unfolding de by simp
qed

lemma scell_inj:
  assumes "wf_slab slab" and "page_ok slab p" and "i < ncells slab" and "page_ok slab q" and "j < ncells slab"
    and "scell slab p i = scell slab q j"
  shows "p = q \<and> i = j"
proof -
  have "in_cell slab (scell slab p i) (scell slab p i)" using wf_slabD(2) [OF assms(1)] by (simp add: in_cell_def)
  then show ?thesis using cells_apart [OF assms(1-5), of "scell slab p i"] assms(6) by simp
qed

text \<open>The index that \<open>page_clean_cell\<close> computes is the index of the cell.\<close>

lemma cell_index_small:
  assumes "n < 2 ^ 31" and "unat s \<noteq> 0"
  shows "cell_index (of_nat n) s = int (n div unat s)"
proof -
  have n64: "unat (of_nat n :: u64) = n" using assms(1) by (intro unat_of_nat_small) simp
  have "sint (of_nat n :: u64) = signed_take_bit 63 (int n)"
    unfolding sint_uint uint_nat n64 by simp
  also have "\<dots> = int n" using assms(1) by (intro signed_take_bit_int_eq_self) simp_all
  finally have "sint (of_nat n :: u64) = int n" .
  moreover have "sgn (int n) * (\<bar>int n\<bar> div uint s) = int (n div unat s)"
    unfolding uint_nat by (cases "n = 0") (simp_all add: zdiv_int)
  ultimately have "cell_index (of_nat n) s = i32_of_u64 (of_nat (n div unat s))"
    by (simp add: cell_index_def del: of_nat_div)
  also have "\<dots> = int (n div unat s)"
  proof -
    have d: "n div unat s < 2 ^ 31" using assms(1) by (meson div_le_dividend le_less_trans)
    then have "unat (of_nat (n div unat s) :: u64) = n div unat s" by (intro unat_of_nat_small) simp
    then show ?thesis using i32_of_u64_small [of "of_nat (n div unat s)"] d by simp
  qed
  finally show ?thesis .
qed

lemma page_clean_cell_spec:
  assumes wf: "wf_slab slab" and i: "i < ncells slab" and b: "s_byte m (sbit slab p i) = 1"
  shows "page_clean_cell slab p (scell slab p i) m = Inr (set_byte (sbit slab p i) 0 m)"
proof -
  have s: "unat (sl_ssize slab) \<noteq> 0" "0 < nssize slab" using wf_slabD(2) [OF wf] by (simp_all add: nssize_def)
  have "i * nssize slab < 2 ^ 31" using scell_end [OF i] wf_slabD(5) [OF wf] by simp
  then have "cell_index (of_nat (i * nssize slab)) (sl_ssize slab) = int (i * nssize slab div nssize slab)"
    using cell_index_small [of "i * nssize slab" "sl_ssize slab"] s by (simp add: nssize_def)
  then have idx: "cell_index (scell slab p i - cells_ptr p) (sl_ssize slab) = int i"
    using s(2) by (simp add: scell_def)
  have "sl_ssize slab \<noteq> 0" using s(1) by auto
  then show ?thesis using b idx by (simp add: page_clean_cell_def Let_def sbit_def)
qed

section \<open>A new page\<close>

lemma s_byte_clear:
  "s_byte (fold (\<lambda>i. set_byte (b + of_nat i) 0) is m) x =
     (if \<exists>i \<in> set is. x = b + of_nat i then 0 else s_byte m x)"
  by (induction "is" arbitrary: m) (auto simp: mem_simps)

lemma lists_rep_clear:
  "lists_rep slab (fold (\<lambda>i. set_byte (b + of_nat i) 0) is m) L = lists_rep slab m L"
  by (induction "is" arbitrary: m) (simp_all add: set_byte_def lists_rep_bytes)

lemma bits_rep_clear:
  assumes "wf_slab slab" and "page_ok slab p" and "page_ok slab q"
  shows "bits_rep slab (fold (\<lambda>i. set_byte (bitmaps_ptr slab p + of_nat i) 0) [0..<ncells slab] m) q S =
    (if q = p then S \<inter> {..<ncells slab} = {} else bits_rep slab m q S)"
proof -
  have "(\<exists>i \<in> set [0..<ncells slab]. sbit slab q j = bitmaps_ptr slab p + of_nat i) \<longleftrightarrow> q = p"
    if j: "j < ncells slab" for j
  proof
    assume "\<exists>i \<in> set [0..<ncells slab]. sbit slab q j = bitmaps_ptr slab p + of_nat i"
    then obtain i where "i < ncells slab" "sbit slab q j = sbit slab p i" by (auto simp: sbit_def)
    then show "q = p" using sbit_inj [OF assms(1,3,2) j] by blast
  qed (use j in \<open>auto simp: sbit_def\<close>)
  then show ?thesis by (auto simp: bits_rep_def s_byte_clear)
qed

context page_provider
begin

lemma slab_pages_small:
  assumes "slab_inv pinv slab s L U serv Rest"
  shows "length (L k) < 2 ^ 32"
proof -
  note I = slab_invD [OF assms]
  let ?Own = "slab_holds slab L serv \<union> Rest"
  have "(\<lambda>p. (p, 1)) ` set (L k) \<subseteq> ?Own" using in_slab_holds by blast
  then have "card ((\<lambda>p. (p, 1 :: u64)) ` set (L k)) \<le> card ?Own"
    using own_small [OF I(4)] by (intro card_mono) auto
  moreover have "card ((\<lambda>p. (p, 1 :: u64)) ` set (L k)) = length (L k)"
    using lists_repD(3) [OF slab_repD(1) [OF I(2)]]
    by (simp add: card_image inj_on_def distinct_card)
  ultimately show ?thesis using own_small [OF I(4)] by linarith
qed

lemma new_page_ok:
  assumes inv: "slab_inv pinv slab (m, w) L U serv Rest" and lk: "linked palloc pfree pgbegin pgsize slab"
    and al: "palloc 1 w = Inr (p, w')" "p \<noteq> 0"
  shows "page_ok slab p" and "\<And>j. p \<notin> set (L j)" and "(p, 1) \<notin> slab_holds slab L serv \<union> Rest"
    and "pinv w' (insert (p, 1) (slab_holds slab L serv \<union> Rest))"
proof -
  note I = slab_invD [OF inv]
  let ?Own = "slab_holds slab L serv \<union> Rest"
  have own: "pinv w ?Own" using I(4) by simp
  show inv': "pinv w' (insert (p, 1) ?Own)" using alloc_owns [OF own al(1)] al(2) by simp
  show fresh: "(p, 1) \<notin> ?Own" by (rule alloc_fresh [OF own al])
  then show "\<And>j. p \<notin> set (L j)" using in_slab_holds by blast
  have pg: "npgsize slab = pgsize" using lk by (simp add: linked_def)
  have lists: "(sl_lists slab, serv) \<in> ?Own" by (simp add: slab_holds_def)
  then have "(p, 1) \<noteq> (sl_lists slab, serv)" using fresh by metis
  then have "unat p + unat (1::u64) * pgsize \<le> unat (sl_lists slab) \<or>
      unat (sl_lists slab) + unat serv * pgsize \<le> unat p"
    using lists by (intro blocks_apart [OF inv']) auto
  then show "page_ok slab p"
    using own_range [OF inv', of p 1] al(2) I(6) pg by (auto simp: page_ok_def)
qed

lemma new_page_spec:
  assumes inv: "slab_inv pinv slab (m, w) L U serv Rest" and lk: "linked palloc pfree pgbegin pgsize slab"
    and al: "palloc 1 w = Inr (p, w')" "p \<noteq> 0"
  obtains m' where "new_page slab (m, w) = Inr (p, m', w')" and "slab_rep slab m' (L(0 := [p])) (U(p := {}))"
proof -
  note I = slab_invD [OF inv] and new = new_page_ok [OF inv lk al]
  note wf = I(1)
  have rep: "slab_rep slab m L U" using I(2) by simp
  note D = slab_repD [OF rep] and LD = lists_repD [OF slab_repD(1) [OF rep]]
  let ?m1 = "fold (\<lambda>i. set_byte (bitmaps_ptr slab p + of_nat i) 0) [0..<ncells slab] m"
  have n: "0 < ncells slab" using wf_slabD(1) [OF wf] by simp
  have bits: "bits_rep slab ?m1 q S = (if q = p then S \<inter> {..<ncells slab} = {} else bits_rep slab m q S)"
    if "page_ok slab q" for q S
    using bits_rep_clear [OF wf new(1) that] .
  have L1: "lists_rep slab ?m1 L" using D(1) by (simp add: lists_rep_clear)
  obtain m2 where m2: "slab_list_add (shd slab 0) p ?m1 = Inr m2" "lists_rep slab m2 (L(0 := p # L 0))"
      "s_byte m2 = s_byte ?m1" "sp_used m2 p = of_nat 0" "sp_list m2 p = shd slab 0"
    using slab_list_add_rep [OF wf L1 n new(1,2)] by blast
  have at0: "slab_list_at slab 0 = Inr (shd slab 0)" using slab_list_at_shd [OF wf n] by simp
  have "s_byte ?m1 (sbit slab p 0) = 0"
    using bits [OF new(1), of "{}"] n by (simp add: bits_rep_def)
  then have b0: "s_byte ?m1 (bitmaps_ptr slab p) = 0" by (simp add: sbit_def)
  have "new_page slab (m, w) = Inr (p, m2, w')"
    using lk al at0 m2(1,3,4,5) b0 by (simp add: new_page_def linked_def Let_def ncells_def)
  moreover have "slab_rep slab m2 (L(0 := [p])) (U(p := {}))"
  proof -
    have "lists_rep slab m2 (L(0 := [p]))" using m2(2) I(3) by simp
    moreover have "bits_rep slab m2 p {}"
      using bits [OF new(1), of "{}"] by (simp add: bits_rep_cong [OF m2(3)])
    moreover have "bits_rep slab m2 q (U q)" if "q \<in> set (L k)" "q \<noteq> p" for q k
      using bits [OF LD(5) [OF that(1)]] that D(4) by (simp add: bits_rep_cong [OF m2(3)])
    ultimately show ?thesis using D(2,3) new(2) I(3) by (auto simp: slab_rep_def split: if_splits)
  qed
  ultimately show thesis by (rule that)
qed

end

end
