(* ===== verification/Slab_Safety.thy ===== *)
theory Slab_Safety
  imports Slab_Alloc
begin

text \<open>
  Allocation and release of cells under the invariant, and what callers of a slab allocator can
  rely on.
\<close>

section \<open>Allocation\<close>

lemma sint_cells:
  assumes "wf_slab slab"
  shows "nat (sint (sl_cells slab - 2) + 1) = ncells slab - 1" and "-1 \<le> sint (sl_cells slab - 2)"
proof -
  note wf = wf_slabD [OF assms]
  have "(2 :: u32) \<le> sl_cells slab" using wf(1) by (simp add: word_le_nat_alt ncells_def)
  then have u: "unat (sl_cells slab - 2) = ncells slab - 2" by (simp add: unat_sub ncells_def)
  have "sint (sl_cells slab - 2) = signed_take_bit 31 (int (ncells slab - 2))"
    unfolding sint_uint uint_nat u by simp
  also have "\<dots> = int (ncells slab - 2)" using wf(6) by (intro i32_fits) simp_all
  finally have s: "sint (sl_cells slab - 2) = int (ncells slab - 2)" .
  show "nat (sint (sl_cells slab - 2) + 1) = ncells slab - 1" using wf(1) unfolding s by simp
  show "-1 \<le> sint (sl_cells slab - 2)" unfolding s by simp
qed

lemma slab_pages_move:
  assumes "lists_rep slab m L" and "L k = p # ps" and "k \<noteq> k'"
  shows "slab_pages (move_page k k' L) = slab_pages L"
proof -
  have "move_page k k' L = (L(k := ps))(k' := p # (L(k := ps)) k')"
    using assms(2,3) by (simp add: move_page_def)
  then have "slab_pages (move_page k k' L) = insert p (slab_pages L - {p})"
    using slab_pages_push [of "L(k := ps)" k' p] slab_pages_pop [OF assms(1,2)] by simp
  moreover have "p \<in> set (L k)" using assms(2) by simp
  then have "p \<in> slab_pages L" unfolding slab_pages_def by blast
  ultimately show ?thesis by (simp add: insert_absorb)
qed

lemma slab_holds_move:
  assumes "lists_rep slab m L" and "L k = p # ps" and "k \<noteq> k'"
  shows "slab_holds slab (move_page k k' L) serv = slab_holds slab L serv"
  using slab_pages_move [OF assms] by (simp add: slab_holds_def)

context page_provider
begin

text \<open>A page with free cells exists: the first free cell of the fullest such page is taken.\<close>

lemma lib_slab_alloc_page:
  assumes inv: "slab_inv pinv slab (m, w) L U serv Rest" and k: "Suc k < ncells slab" "L k = p # ps"
    and most: "\<And>j. k < j \<Longrightarrow> Suc j < ncells slab \<Longrightarrow> L j = []"
  obtains i m' where "first_free (U p) i" and "i < ncells slab"
    and "lib_slab_alloc slab (m, w) = Inr (scell slab p i, m', w)"
    and "slab_inv pinv slab (m', w) (move_page k (Suc k) L) (U(p := insert i (U p))) serv Rest"
proof -
  note I = slab_invD [OF inv] and small = slab_pages_small [OF inv]
  have rep: "slab_rep slab m L U" using I(2) by simp
  note L = slab_repD(1) [OF rep]
  have n: "ncells slab - 1 \<le> ncells slab" by simp
  have "k < ncells slab - 1" using k(1) by simp
  then have ne: "find_list slab (ncells slab - 1) m \<noteq> None"
    using find_list_spec [OF I(1) L small n] k(2) by (metis list.distinct(1))
  then obtain l where l: "find_list slab (ncells slab - 1) m = Some l" by blast
  then obtain j where j: "j < ncells slab - 1" "l = shd slab j" "L j \<noteq> []"
      "\<forall>i. j < i \<and> i < ncells slab - 1 \<longrightarrow> L i = []"
    using find_list_spec [OF I(1) L small n] by blast
  have "j = k"
  proof (rule ccontr)
    assume "j \<noteq> k"
    then consider "j < k" | "k < j" by linarith
    then show False using j k most by cases auto
  qed
  then have next_p: "sp_next m l = p" using slab_head_next [OF L _ k(2)] k(1) j(2) by simp
  obtain i m' where m': "first_free (U p) i" "i < ncells slab"
      "page_alloc_cell slab p m = Inr (scell slab p i, m')"
      "slab_rep slab m' (move_page k (Suc k) L) (U(p := insert i (U p)))"
    using page_alloc_cell_spec [OF I(1) rep k(2,1) small] by blast
  have "lib_slab_alloc slab (m, w) = Inr (scell slab p i, m', w)"
    using l next_p m'(3) by (simp add: lib_slab_alloc_def Let_def sint_cells [OF I(1)])
  moreover have "slab_inv pinv slab (m', w) (move_page k (Suc k) L) (U(p := insert i (U p))) serv Rest"
  proof -
    have "k \<noteq> 0" using I(3) k(2) by (cases k) auto
    then have "move_page k (Suc k) L 0 = []" using I(3) k(2) by (simp add: move_page_def)
    then show ?thesis
      using I m'(4) slab_holds_move [OF L k(2), of "Suc k" serv] by (simp add: slab_inv_def)
  qed
  ultimately show thesis using that m'(1,2) by blast
qed

text \<open>Otherwise a page is taken from the page allocator; without one the assertion on line 167 fails.\<close>

lemma lib_slab_alloc_new:
  assumes inv: "slab_inv pinv slab (m, w) L U serv Rest" and lk: "linked palloc pfree pgbegin pgsize slab"
    and none: "\<And>k. Suc k < ncells slab \<Longrightarrow> L k = []" and al: "palloc 1 w = Inr (p, w')"
  shows "if p = 0 then lib_slab_alloc slab (m, w) = Inl (AssertFailed Slab_alloc_c 167)
    else page_ok slab p \<and> (\<forall>j. p \<notin> set (L j)) \<and>
      (\<exists>m'. lib_slab_alloc slab (m, w) = Inr (scell slab p 0, m', w') \<and>
         slab_inv pinv slab (m', w') (L(1 := p # L 1)) (U(p := {0})) serv Rest)"
proof -
  note I = slab_invD [OF inv] and small = slab_pages_small [OF inv]
  note wf = I(1)
  have rep: "slab_rep slab m L U" using I(2) by simp
  note L = slab_repD(1) [OF rep]
  have n: "ncells slab - 1 \<le> ncells slab" by simp
  have "\<forall>k < ncells slab - 1. L k = []" using none by simp
  then have fl: "find_list slab (ncells slab - 1) m = None"
    using find_list_spec [OF wf L small n] by blast
  show ?thesis
  proof (cases "p = 0")
    case True
    then show ?thesis using fl al lk sint_cells [OF wf]
      by (simp add: lib_slab_alloc_def Let_def new_page_def linked_def)
  next
    case False
    note new = new_page_ok [OF inv lk al False]
    obtain m1 where m1: "new_page slab (m, w) = Inr (p, m1, w')" "slab_rep slab m1 (L(0 := [p])) (U(p := {}))"
      using new_page_spec [OF inv lk al False] by blast
    have n2: "Suc 0 < ncells slab" using wf_slabD(1) [OF wf] by simp
    have L0: "(L(0 := [p])) 0 = p # []" "length ((L(0 := [p])) 0) < 2 ^ 32" by simp_all
    obtain i m2 where m2: "first_free ((U(p := {})) p) i"
        "page_alloc_cell slab p m1 = Inr (scell slab p i, m2)"
        "slab_rep slab m2 (move_page 0 (Suc 0) (L(0 := [p]))) ((U(p := {}))(p := insert i ((U(p := {})) p)))"
      using page_alloc_cell_spec [OF wf m1(2), of 0 p "[]", OF L0(1) n2 L0(2)] by blast
    have i: "i = 0" using m2(1) by (auto simp: first_free_def)
    have Lm: "move_page 0 (Suc 0) (L(0 := [p])) = L(1 := p # L 1)"
      using I(3) by (auto simp: move_page_def fun_eq_iff)
    have "lib_slab_alloc slab (m, w) = Inr (scell slab p 0, m2, w')"
      using fl m1(1) m2(2) i sint_cells [OF wf] by (simp add: lib_slab_alloc_def Let_def)
    moreover have "slab_inv pinv slab (m2, w') (L(1 := p # L 1)) (U(p := {0})) serv Rest"
    proof -
      have holds: "slab_holds slab (L(1 := p # L 1)) serv = insert (p, 1) (slab_holds slab L serv)"
        using slab_pages_push [of L 1 p] by (simp add: slab_holds_def insert_commute)
      show ?thesis
        using I(1,3,5,6) m2(3) new(3,4) i unfolding slab_inv_def holds Lm by simp
    qed
    ultimately show ?thesis using new(1,2) False by simp
  qed
qed

section \<open>Release\<close>

lemma pgbegin_cell:
  assumes "wf_slab slab" and "linked palloc pfree pgbegin pgsize slab" and "page_ok slab p" and "i < ncells slab"
  shows "pgbegin (scell slab p i) = p"
proof -
  have pg: "pgsize = npgsize slab" using assms(2) by (simp add: linked_def)
  have d: "32 + i * nssize slab < npgsize slab"
    using scell_end [OF assms(4)] wf_slabD(1,3) [OF assms(1)] by linarith
  have "unat (pgbegin (scell slab p i)) = unat p"
    unfolding pgbegin_unat unat_scell [OF assms(1,3,4)] pg
    by (rule page_of_offset [OF page_okD(2) [OF assms(3)] d])
  then show ?thesis by (rule word_unat_eq_iff [THEN iffD2])
qed

lemma lib_slab_free_last:
  assumes inv: "slab_inv pinv slab (m, w) L U serv Rest" and lk: "linked palloc pfree pgbegin pgsize slab"
    and p: "L 1 = p # ps" "i \<in> U p"
  obtains m' w' where "lib_slab_free slab (scell slab p i) (m, w) = Inr (m', w')"
    and "pfree p w = Inr w'" and "slab_inv pinv slab (m', w') (L(1 := ps)) U serv Rest"
proof -
  note I = slab_invD [OF inv] and small = slab_pages_small [OF inv]
  note wf = I(1)
  have rep: "slab_rep slab m L U" using I(2) by simp
  note D = slab_repD [OF rep] and LD = lists_repD [OF slab_repD(1) [OF rep]]
  have pk: "p \<in> set (L 1)" using p(1) by simp
  note pok = LD(5) [OF pk]
  have iU: "i < ncells slab" using D(2) [OF pk] p(2) by auto
  obtain m1 where m1: "slab_list_remove p m = Inr m1" "lists_rep slab m1 (L(1 := ps))"
      "s_byte m1 = s_byte m" "sp_used m1 p = of_nat 1"
    using slab_list_remove_rep [OF wf D(1) p(1) small] by blast
  let ?m2 = "set_byte (sbit slab p i) 0 m1"
  obtain w' where w': "pfree p w = Inr w'" "pinv w' (slab_holds slab L serv \<union> Rest - {(p, 1)})"
    using free_owned [of w _ p 1] I(4) in_slab_holds [of p L, OF pk] by fastforce
  have "s_byte m1 (sbit slab p i) = 1" using D(4) [OF pk] iU p(2) m1(3) by (simp add: bits_rep_def)
  then have clean: "page_clean_cell slab p (scell slab p i) m1 = Inr ?m2"
    by (rule page_clean_cell_spec [OF wf iU])
  have run: "lib_slab_free slab (scell slab p i) (m, w) = Inr (?m2, w')"
    using pgbegin_cell [OF wf lk pok iU] m1(1,4) w'(1) clean lk
    by (simp add: lib_slab_free_def Let_def linked_def)
  have pages: "slab_pages (L(1 := ps)) = slab_pages L - {p}" by (rule slab_pages_pop [OF D(1) p(1)])
  have sub: "q \<in> set (L j)" "p \<noteq> q" if "q \<in> set ((L(1 := ps)) j)" for q j
  proof -
    show "q \<in> set (L j)" using that p(1) by (cases "j = 1") auto
    have "q \<in> slab_pages (L(1 := ps))" unfolding slab_pages_def using that by blast
    then show "p \<noteq> q" unfolding pages by blast
  qed
  have "bits_rep slab ?m2 q (U q)" if q: "q \<in> set ((L(1 := ps)) j)" for q j
    using bits_rep_set_other [OF wf pok LD(5) [OF sub(1) [OF q]] sub(2) [OF q] iU] D(4) [OF sub(1) [OF q]]
    by (simp add: bits_rep_cong [OF m1(3)])
  moreover have "lists_rep slab ?m2 (L(1 := ps))" using m1(2) by (simp add: set_byte_def lists_rep_bytes)
  ultimately have "slab_rep slab ?m2 (L(1 := ps)) U"
    using D(2,3) [OF sub(1)] unfolding slab_rep_def by blast
  moreover have "slab_holds slab (L(1 := ps)) serv \<union> Rest = slab_holds slab L serv \<union> Rest - {(p, 1)}"
  proof -
    have "sl_lists slab \<noteq> p" using page_not_shd [OF wf pok, of 0] iU by (simp add: shd_def)
    moreover have "(p, 1) \<notin> Rest" using I(5) in_slab_holds [of p L, OF pk] by blast
    ultimately show ?thesis unfolding slab_holds_def pages by auto
  qed
  moreover have "slab_holds slab (L(1 := ps)) serv \<inter> Rest = {}"
    using I(5) unfolding slab_holds_def pages by blast
  ultimately have "slab_inv pinv slab (?m2, w') (L(1 := ps)) U serv Rest"
    using I(1,3,6) w'(2) by (simp add: slab_inv_def)
  then show thesis using that run w'(1) by blast
qed

lemma lib_slab_free_more:
  assumes inv: "slab_inv pinv slab (m, w) L U serv Rest" and lk: "linked palloc pfree pgbegin pgsize slab"
    and p: "L (Suc k) = p # ps" "i \<in> U p" and k: "0 < k"
  obtains m' where "lib_slab_free slab (scell slab p i) (m, w) = Inr (m', w)"
    and "slab_inv pinv slab (m', w) (move_page (Suc k) k L) (U(p := U p - {i})) serv Rest"
proof -
  note I = slab_invD [OF inv] and small = slab_pages_small [OF inv]
  note wf = I(1)
  have rep: "slab_rep slab m L U" using I(2) by simp
  note D = slab_repD [OF rep] and LD = lists_repD [OF slab_repD(1) [OF rep]]
  have pk: "p \<in> set (L (Suc k))" using p(1) by simp
  note pok = LD(5) [OF pk]
  have kn: "k < ncells slab" using LD(6) [OF pk] by simp
  have iU: "i < ncells slab" using D(2) [OF pk] p(2) by auto
  have fin: "finite (U p)" using D(2) [OF pk] finite_subset by blast
  obtain m1 m2 where m: "slab_list_remove p m = Inr m1" "sp_used m1 p = of_nat (Suc k)"
      "slab_list_at slab (of_nat k) = Inr (shd slab k)"
      "slab_list_add (shd slab k) p m1 = Inr m2" "lists_rep slab m2 (move_page (Suc k) k L)"
      "s_byte m2 = s_byte m"
    using move_page_rep [OF wf D(1) p(1) small kn n_not_Suc_n] by blast
  let ?m3 = "set_byte (sbit slab p i) 0 m2"
  have "s_byte m2 (sbit slab p i) = 1" using D(4) [OF pk] iU p(2) m(6) by (simp add: bits_rep_def)
  then have clean: "page_clean_cell slab p (scell slab p i) m2 = Inr ?m3"
    by (rule page_clean_cell_spec [OF wf iU])
  have "unat (of_nat k :: u32) = k" using kn wf_slabD(6) [OF wf] by (intro unat_of_nat_u32) simp
  then have "of_nat k \<noteq> (0 :: u32)" using k by auto
  then have run: "lib_slab_free slab (scell slab p i) (m, w) = Inr (?m3, w)"
    using pgbegin_cell [OF wf lk pok iU] m clean lk by (simp add: lib_slab_free_def Let_def linked_def)
  have "slab_rep slab ?m3 (move_page (Suc k) k L) (U(p := U p - {i}))"
  proof (rule slab_rep_moved [OF rep p(1) n_not_Suc_n])
    show "lists_rep slab ?m3 (move_page (Suc k) k L)" using m(5) by (simp add: set_byte_def lists_rep_bytes)
    show "U p - {i} \<subseteq> {..<ncells slab}" using D(2) [OF pk] by blast
    show "card (U p - {i}) = k" using fin p(2) D(3) [OF pk] by simp
    show "bits_rep slab ?m3 p (U p - {i})"
      using D(4) [OF pk] by (intro bits_rep_set_same(2) [OF wf pok iU]) (simp add: bits_rep_cong [OF m(6)])
    show "bits_rep slab ?m3 q (U q)" if "q \<in> set (L j)" "q \<noteq> p" for q j
      using bits_rep_set_other [OF wf pok LD(5) [OF that(1)] that(2) [symmetric] iU] D(4) [OF that(1)]
      by (simp add: bits_rep_cong [OF m(6)])
  qed
  moreover have "move_page (Suc k) k L 0 = []" using I(3) k p(1) by (simp add: move_page_def)
  ultimately have "slab_inv pinv slab (?m3, w) (move_page (Suc k) k L) (U(p := U p - {i})) serv Rest"
    using I(1,4,5,6) slab_holds_move [OF D(1) p(1), of k serv] by (simp add: slab_inv_def)
  then show thesis using that run by blast
qed

end

end
