(* ===== verification/Slab_Init.thy ===== *)
theory Slab_Init
  imports Slab_Safety
begin

text \<open>
  Initialisation of a slab allocator: the size computation of \<open>serv_pages\<close>, which returns
  whenever the page size is positive, and the lists of an allocator without pages.
\<close>

section \<open>The number of service pages\<close>

lemma serv_pages_loop_sound:
  assumes "serv_pages_loop pgsize n res = Some r"
  shows "n \<le> r * pgsize"
  using assms
  by (rule serv_pages_loop.raw_induct [of "\<lambda>pgsize n res r. n \<le> r * pgsize", rotated])
    (auto split: if_splits)

lemma unat_pow2_times:
  assumes "2 ^ i * unat (s :: u64) < 2 ^ 64" and "i < 64"
  shows "unat ((2 :: u64) ^ i * s) = 2 ^ i * unat s"
proof -
  have "(2 :: u64) ^ i * s = s * of_nat (2 ^ i)" by (simp add: mult.commute)
  moreover have "unat (s * of_nat (2 ^ i)) = unat s * 2 ^ i"
  proof (rule unat_mult_of_nat)
    show "unat s * 2 ^ i < 2 ^ 64" using assms(1) by (simp only: mult.commute)
    show "(2 :: nat) ^ i < 2 ^ 64" using assms(2) by (rule power_strict_increasing) simp
  qed
  ultimately show ?thesis by (simp add: mult.commute)
qed

lemma serv_pages_loop_upto:
  assumes j: "unat n \<le> 2 ^ j * unat pgsize" "2 ^ j * unat pgsize < 2 ^ 64" "j < 64"
    and least: "\<And>i. i < j \<Longrightarrow> 2 ^ i * unat pgsize < unat n" and i: "i \<le> j"
  shows "serv_pages_loop pgsize n (2 ^ i) = Some (2 ^ j)"
  using i
proof (induction "j - i" arbitrary: i)
  case 0
  then have "i = j" by simp
  moreover have "n \<le> 2 ^ j * pgsize"
    using j unat_pow2_times [OF j(2,3)] by (simp add: word_le_nat_alt)
  ultimately show ?case by (subst serv_pages_loop.simps) simp
next
  case (Suc d)
  then have lt: "i < j" by simp
  have "2 ^ i * unat pgsize \<le> 2 ^ j * unat pgsize" using lt by (intro mult_le_mono1 power_increasing) auto
  then have "2 ^ i * unat pgsize < 2 ^ 64" using j(2) by (rule le_less_trans)
  then have "unat ((2 :: u64) ^ i * pgsize) = 2 ^ i * unat pgsize" using lt j(3) by (intro unat_pow2_times) simp_all
  then have "\<not> n \<le> 2 ^ i * pgsize" using least [OF lt] by (simp add: word_le_nat_alt)
  moreover have "serv_pages_loop pgsize n (2 ^ Suc i) = Some (2 ^ j)"
    using Suc lt by (intro Suc.hyps(1)) simp_all
  ultimately show ?case by (subst serv_pages_loop.simps) (simp add: mult.commute)
qed

text \<open>
  The loop returns the least power of two that is enough.  Sizes beyond \<open>2 ^ 63\<close> are excluded:
  the next doubling could leave the 64 bits.
\<close>

lemma serv_pages_total:
  assumes "0 < unat pgsize" and "unat n \<le> 2 ^ 63"
  obtains j where "serv_pages pgsize n = Inr (2 ^ j)" and "j < 64" and "unat n \<le> 2 ^ j * unat pgsize"
    and "j = 0 \<or> 2 ^ (j - 1) * unat pgsize < unat n"
proof -
  have "\<exists>j. unat n \<le> 2 ^ j * unat pgsize"
  proof (intro exI)
    have "2 ^ 63 * 1 \<le> 2 ^ 63 * unat pgsize" using assms(1) by (intro mult_le_mono2) simp
    then show "unat n \<le> 2 ^ 63 * unat pgsize" using assms(2) by linarith
  qed
  then obtain j where j: "unat n \<le> 2 ^ j * unat pgsize" "\<forall>i < j. \<not> unat n \<le> 2 ^ i * unat pgsize"
    using exists_least_iff [of "\<lambda>j. unat n \<le> 2 ^ j * unat pgsize"] by blast
  have least: "2 ^ i * unat pgsize < unat n" if "i < j" for i using j(2) that by auto
  have "2 ^ j * unat pgsize < 2 ^ 64 \<and> j < 64"
  proof (cases j)
    case 0
    have "unat pgsize < 2 ^ LENGTH(64)" by (rule unsigned_less)
    then show ?thesis using 0 by simp
  next
    case (Suc i)
    then have lt: "2 ^ i * unat pgsize < 2 ^ 63" using least [of i] assms(2) by simp
    have "(2::nat) ^ i * 1 \<le> 2 ^ i * unat pgsize" using assms(1) by (intro mult_le_mono2) simp
    then have "(2::nat) ^ i < 2 ^ 63" using lt by linarith
    then have "i < 63" by (rule power_less_imp_less_exp [rotated]) simp
    moreover have "2 * (2 ^ i * unat pgsize) < 2 * 2 ^ 63" using lt by linarith
    ultimately show ?thesis using Suc by (simp add: mult.assoc)
  qed
  then have "serv_pages_loop pgsize n (2 ^ 0) = Some (2 ^ j)"
    using j(1) least by (intro serv_pages_loop_upto) auto
  then have "serv_pages pgsize n = Inr (2 ^ j)" by (simp add: serv_pages_def)
  moreover have "j = 0 \<or> 2 ^ (j - 1) * unat pgsize < unat n" using least [of "j - 1"] by (cases j) auto
  ultimately show thesis using that j(1) \<open>2 ^ j * unat pgsize < 2 ^ 64 \<and> j < 64\<close> by blast
qed

section \<open>The empty lists\<close>

lemma slab_list_init_rep: "slab_list_rep slab (slab_list_init (shd slab k) (of_nat k) m) k []"
  by (simp add: slab_list_rep_def slab_list_init_def node_list_def)

lemma slab_list_init_keeps:
  assumes "slab_list_rep slab m k []" and "shd slab k \<noteq> l"
  shows "slab_list_rep slab (slab_list_init l v m) k []"
  by (rule slab_list_rep_frame [OF assms(1)]) (use assms(2) in \<open>auto simp: slab_list_init_def\<close>)

lemma init_loop_rep:
  assumes "wf_slab slab" and "n \<le> ncells slab" and "k < n"
  shows "slab_list_rep slab
    (fold (\<lambda>i. slab_list_init (slab_list_addr slab (of_nat i)) (of_nat i)) [0..<n] m) k []"
  using assms(2,3)
proof (induction n)
  case (Suc n)
  then have n: "n < ncells slab" by simp
  note h = slab_list_addr_shd [OF assms(1) n]
  show ?case
  proof (cases "k = n")
    case True
    then show ?thesis using slab_list_init_rep by (simp add: h)
  next
    case False
    then have "k < n" using Suc.prems by simp
    moreover have "shd slab k \<noteq> shd slab n" using shd_inj [OF assms(1) _ n] Suc.prems False by force
    ultimately show ?thesis using Suc by (simp add: h slab_list_init_keeps)
  qed
qed simp

section \<open>Initialisation\<close>

text \<open>Arguments for which at least two cells fit into a page.\<close>

definition slab_args :: "u32 \<Rightarrow> u32 \<Rightarrow> bool" where
  "slab_args pgsize ssize \<longleftrightarrow> unat pgsize < 2 ^ 31 \<and> 0 < unat ssize \<and> 32 + 2 * (unat ssize + 1) \<le> unat pgsize"

definition slab_cells :: "u32 \<Rightarrow> u32 \<Rightarrow> nat" where
  "slab_cells pgsize ssize = (unat pgsize - 32) div (unat ssize + 1)"

lemma slab_cells_word:
  assumes "slab_args pgsize ssize"
  shows "1 + ssize \<noteq> 0"
    and "unat (ucast ((ucast pgsize - sizeof_slab_page) div ucast (1 + ssize)) :: u32) = slab_cells pgsize ssize"
    and "2 \<le> slab_cells pgsize ssize"
    and "32 + slab_cells pgsize ssize * (unat ssize + 1) \<le> unat pgsize"
proof -
  have a: "unat pgsize < 2 ^ 31" "0 < unat ssize" "32 + 2 * (unat ssize + 1) \<le> unat pgsize"
    using assms by (simp_all add: slab_args_def)
  have s: "unat (1 + ssize) = unat ssize + 1"
  proof -
    have "unat (1 :: u32) + unat ssize < 2 ^ LENGTH(32)" using a by simp
    then have "unat (1 + ssize) = unat (1 :: u32) + unat ssize" by (rule iffD1 [OF unat_add_lem])
    then show ?thesis by simp
  qed
  then show "1 + ssize \<noteq> 0" by auto
  have up: "unat (ucast (x :: u32) :: u64) = unat x" for x
    by (simp add: unsigned_ucast_eq take_bit_nat_eq_self less_trans [OF unsigned_less])
  have sub: "unat (ucast pgsize - sizeof_slab_page :: u64) = unat pgsize - 32"
  proof -
    have "(32 :: u64) \<le> ucast pgsize" using a(3) by (simp add: word_le_nat_alt up)
    then show ?thesis by (simp add: unat_sub up sizeof_slab_page_def)
  qed
  have d: "unat ((ucast pgsize - sizeof_slab_page :: u64) div ucast (1 + ssize)) = slab_cells pgsize ssize"
    by (simp add: unat_div sub up s slab_cells_def)
  have le: "slab_cells pgsize ssize \<le> unat pgsize" 
    unfolding slab_cells_def by (rule le_trans [OF div_le_dividend diff_le_self])
  show "unat (ucast ((ucast pgsize - sizeof_slab_page) div ucast (1 + ssize) :: u64) :: u32) = slab_cells pgsize ssize"
    using le a(1) by (simp add: unsigned_ucast_eq d take_bit_nat_eq_self)
  show "2 \<le> slab_cells pgsize ssize"
    using a(3) by (simp add: slab_cells_def less_eq_div_iff_mult_less_eq)
  have "slab_cells pgsize ssize * (unat ssize + 1) \<le> unat pgsize - 32"
    unfolding slab_cells_def by (rule div_times_less_eq_dividend)
  then show "32 + slab_cells pgsize ssize * (unat ssize + 1) \<le> unat pgsize" using a(3) by linarith
qed

lemma slab_lists_size:
  assumes "unat (c :: u32) < 2 ^ 31"
  shows "unat (sizeof_slab_list * ucast c) = 40 * unat c"
proof -
  have "unat ((40 :: u64) * of_nat (unat c)) = unat (40 :: u64) * unat c"
    using assms by (intro unat_mult_of_nat) simp_all
  then show ?thesis by (simp add: sizeof_slab_list_def)
qed

context page_provider
begin

lemma lib_slab_init_spec:
  assumes inv: "pinv w Rest" and args: "slab_args pgs ssize" and pgs: "unat pgs = pgsize"
  obtains serv p w' where "palloc serv w = Inr (p, w')"
    and "p = 0 \<Longrightarrow>
      lib_slab_init pgs ssize palloc pfree pgbegin s0 (m, w) = Inl (AssertFailed Slab_alloc_c 133)"
    and "p \<noteq> 0 \<Longrightarrow> \<exists>slab m'. lib_slab_init pgs ssize palloc pfree pgbegin s0 (m, w) = Inr (slab, m', w') \<and>
      linked palloc pfree pgbegin pgsize slab \<and> slab_inv pinv slab (m', w') (\<lambda>_. []) U serv Rest \<and>
      sl_ssize slab = ssize \<and> ncells slab = slab_cells pgs ssize"
proof -
  note c = slab_cells_word [OF args]
  let ?n = "slab_cells pgs ssize"
  define s1 where "s1 = s0 \<lparr> sl_pgsize := pgs, sl_ssize := ssize, sl_buddy_alloc := palloc,
      sl_buddy_free := pfree, sl_pgbegin := pgbegin,
      sl_cells := ucast ((ucast pgs - sizeof_slab_page) div ucast (1 + ssize)) \<rparr>"
  have n31: "?n < 2 ^ 31" and a: "unat pgs < 2 ^ 31" "0 < unat ssize"
    using args c(4) by (auto simp: slab_args_def)
  have cells: "unat (sl_cells s1) = ?n" using c(2) by (simp add: s1_def)
  have size: "unat (sizeof_slab_list * ucast (sl_cells s1)) = 40 * ?n"
    using slab_lists_size [of "sl_cells s1"] n31 cells by simp
  have pgs64: "unat (ucast pgs :: u64) = pgsize"
    using a(1) pgs by (simp add: unsigned_ucast_eq take_bit_nat_eq_self)
  obtain j where j: "serv_pages (ucast pgs) (sizeof_slab_list * ucast (sl_cells s1)) = Inr (2 ^ j)" "j < 64"
      "40 * ?n \<le> 2 ^ j * pgsize"
    using serv_pages_total [of "ucast pgs" "sizeof_slab_list * ucast (sl_cells s1)"] n31 pgsize_pos
    unfolding size pgs64 by auto
  obtain p w' where al: "palloc (2 ^ j) w = Inr (p, w')" using alloc_total [OF inv] by blast
  have run: "lib_slab_init pgs ssize palloc pfree pgbegin s0 (m, w) = slab_init_lists s1 (m, w)"
    using c(1) by (simp add: lib_slab_init_def s1_def)
  show thesis
  proof (rule that [OF al])
    show "lib_slab_init pgs ssize palloc pfree pgbegin s0 (m, w) = Inl (AssertFailed Slab_alloc_c 133)" if "p = 0"
      using that j(1) al unfolding run by (simp add: slab_init_lists_def Let_def s1_def)
    assume p: "p \<noteq> 0"
    define slab where "slab = s1 \<lparr> sl_lists := p \<rparr>"
    let ?m' = "fold (\<lambda>i. slab_list_init (slab_list_addr slab (of_nat i)) (of_nat i)) [0..<unat (sl_cells slab)] m"
    have "lib_slab_init pgs ssize palloc pfree pgbegin s0 (m, w) = Inr (slab, ?m', w')"
      using p j(1) al unfolding run by (simp add: slab_init_lists_def Let_def s1_def slab_def)
    moreover have "linked palloc pfree pgbegin pgsize slab"
      using pgs by (simp add: linked_def slab_def s1_def npgsize_def)
    moreover have f: "sl_ssize slab = ssize" "ncells slab = ?n" "npgsize slab = pgsize" "sl_lists slab = p"
      using cells pgs by (simp_all add: slab_def s1_def ncells_def npgsize_def)
    moreover have "slab_inv pinv slab (?m', w') (\<lambda>_. []) U (2 ^ j) Rest"
    proof -
      have inv': "pinv w' (insert (p, 2 ^ j) Rest)" using alloc_owns [OF inv al] p by simp
      have s64: "unat ((2 :: u64) ^ j) = 2 ^ j" using j(2) by (rule unat_pow2_u64)
      then have r: "0 < unat p" "unat p + 2 ^ j * pgsize < 2 ^ 64"
        using own_range [OF inv', of p "2 ^ j"] by simp_all
      have wf: "wf_slab slab"
        unfolding wf_slab_def using c(3,4) a pgs f r j(3) by (auto simp: nssize_def)
      have "lists_rep slab ?m' (\<lambda>_. [])"
        using init_loop_rep [OF wf, of "unat (sl_cells slab)"] by (simp add: lists_rep_def ncells_def)
      then show ?thesis
        using wf inv' alloc_fresh [OF inv al p] j(3) f s64
        by (simp add: slab_inv_def slab_rep_def slab_holds_def slab_pages_def)
    qed
    ultimately show "\<exists>slab m'. lib_slab_init pgs ssize palloc pfree pgbegin s0 (m, w) = Inr (slab, m', w') \<and>
      linked palloc pfree pgbegin pgsize slab \<and> slab_inv pinv slab (m', w') (\<lambda>_. []) U (2 ^ j) Rest \<and>
      sl_ssize slab = ssize \<and> ncells slab = ?n"
      by blast
  qed
qed

end

end
