(* ===== verification/Slab_Reach.thy ===== *)
theory Slab_Reach
  imports Slab_Init
begin

text \<open>
  A slab allocator and its callers as a transition system, on top of any page allocator that keeps
  its contract.  Releases are restricted to cells whose page is the first of its list, which is
  what the list removal of the library supports.
\<close>

section \<open>Callers\<close>

text \<open>A caller may change every byte of the cells it holds, and the stale structs that lie there.\<close>

definition cell_write :: "'b slab_alloc_t \<Rightarrow> addr set \<Rightarrow> slab_heap \<Rightarrow> slab_heap \<Rightarrow> bool" where
  "cell_write slab C m m' \<longleftrightarrow> (\<forall>x. (\<forall>c \<in> C. \<not> in_cell slab c x) \<longrightarrow>
     sp_next m' x = sp_next m x \<and> sp_prev m' x = sp_prev m x \<and> sp_list m' x = sp_list m x \<and>
     sp_used m' x = sp_used m x \<and> sl_len m' x = sl_len m x \<and> s_byte m' x = s_byte m x)"

definition page_first :: "'b slab_alloc_t \<Rightarrow> slab_heap \<Rightarrow> addr \<Rightarrow> bool" where
  "page_first slab m c \<longleftrightarrow>
    (let page = sl_pgbegin slab c in sp_next m (sp_list m page) = page)"

text \<open>
  \<open>C\<close> are the cells handed out, \<open>Oth\<close> the blocks that other clients of the page allocator hold.
\<close>

inductive slab_reach ::
  "('b \<Rightarrow> (addr \<times> u64) set \<Rightarrow> bool) \<Rightarrow> (u64 \<Rightarrow> 'b \<Rightarrow> (addr \<times> 'b) res) \<Rightarrow> (addr \<Rightarrow> 'b \<Rightarrow> 'b res) \<Rightarrow>
     (addr \<Rightarrow> addr) \<Rightarrow> u32 \<Rightarrow> u32 \<Rightarrow>
     'b slab_alloc_t \<Rightarrow> slab_heap \<Rightarrow> 'b \<Rightarrow> addr set \<Rightarrow> (addr \<times> u64) set \<Rightarrow> bool"
  for pinv palloc pfree pgbegin pgs ssize where
  init: "pinv w Oth \<Longrightarrow> lib_slab_init pgs ssize palloc pfree pgbegin s0 (m, w) = Inr (slab, m', w') \<Longrightarrow>
    slab_reach pinv palloc pfree pgbegin pgs ssize slab m' w' {} Oth"
| alloc: "slab_reach pinv palloc pfree pgbegin pgs ssize slab m w C Oth \<Longrightarrow>
    lib_slab_alloc slab (m, w) = Inr (c, m', w') \<Longrightarrow>
    slab_reach pinv palloc pfree pgbegin pgs ssize slab m' w' (insert c C) Oth"
| free: "slab_reach pinv palloc pfree pgbegin pgs ssize slab m w C Oth \<Longrightarrow> c \<in> C \<Longrightarrow> page_first slab m c \<Longrightarrow>
    lib_slab_free slab c (m, w) = Inr (m', w') \<Longrightarrow>
    slab_reach pinv palloc pfree pgbegin pgs ssize slab m' w' (C - {c}) Oth"
| usr: "slab_reach pinv palloc pfree pgbegin pgs ssize slab m w C Oth \<Longrightarrow> cell_write slab C m m' \<Longrightarrow>
    slab_reach pinv palloc pfree pgbegin pgs ssize slab m' w C Oth"
| other_alloc: "slab_reach pinv palloc pfree pgbegin pgs ssize slab m w C Oth \<Longrightarrow> palloc n w = Inr (p, w') \<Longrightarrow>
    slab_reach pinv palloc pfree pgbegin pgs ssize slab m w' C (if p = 0 then Oth else insert (p, n) Oth)"
| other_free: "slab_reach pinv palloc pfree pgbegin pgs ssize slab m w C Oth \<Longrightarrow> (p, n) \<in> Oth \<Longrightarrow>
    pfree p w = Inr w' \<Longrightarrow>
    slab_reach pinv palloc pfree pgbegin pgs ssize slab m w' C (Oth - {(p, n)})"

section \<open>Cells handed out\<close>

lemma live_cases:
  assumes "c \<in> live slab L U"
  obtains p i k where "c = scell slab p i" and "p \<in> set (L k)" and "i \<in> U p"
  using assms by (auto simp: live_def slab_pages_def)

lemma live_take:
  assumes "p \<in> slab_pages L" and "slab_pages L' = slab_pages L"
  shows "live slab L' (U(p := insert i (U p))) = insert (scell slab p i) (live slab L U)"
proof -
  have "j \<in> (U(p := insert i (U p))) q \<longleftrightarrow> q = p \<and> j = i \<or> j \<in> U q" for q j by auto
  then have "c \<in> live slab L' (U(p := insert i (U p))) \<longleftrightarrow> c \<in> insert (scell slab p i) (live slab L U)" for c
    unfolding live_def assms(2) mem_Collect_eq insert_iff using assms(1) by metis
  then show ?thesis by blast
qed

lemma live_new:
  assumes "p \<notin> slab_pages L" and "slab_pages L' = insert p (slab_pages L)"
  shows "live slab L' (U(p := {0})) = insert (scell slab p 0) (live slab L U)"
proof -
  have "c \<in> live slab L' (U(p := {0})) \<longleftrightarrow> c \<in> insert (scell slab p 0) (live slab L U)" for c
    unfolding live_def assms(2) mem_Collect_eq insert_iff using assms(1) by (metis fun_upd_apply singleton_iff)
  then show ?thesis by blast
qed

text \<open>The invariant determines page and index of a cell.\<close>

lemma live_inj:
  assumes "slab_inv pinv slab s L U serv Rest" and "p \<in> set (L k)" "i \<in> U p" and "q \<in> set (L l)" "j \<in> U q"
    and "scell slab p i = scell slab q j"
  shows "p = q \<and> i = j"
proof -
  note I = slab_invD [OF assms(1)]
  note D = slab_repD [OF I(2)] and LD = lists_repD [OF slab_repD(1) [OF I(2)]]
  have "i < ncells slab" "j < ncells slab" using D(2) assms(2-5) by blast+
  then show ?thesis using scell_inj [OF I(1) LD(5) _ LD(5)] assms(2,4,6) by blast
qed

lemma live_drop:
  assumes inv: "slab_inv pinv slab s L U serv Rest" and p: "p \<in> set (L k)" "i \<in> U p"
    and L': "slab_pages L' = slab_pages L"
  shows "live slab L' (U(p := U p - {i})) = live slab L U - {scell slab p i}"
proof (rule set_eqI)
  fix c
  have "c \<in> live slab L' (U(p := U p - {i})) \<longleftrightarrow>
      (\<exists>q j. c = scell slab q j \<and> q \<in> slab_pages L \<and> j \<in> U q \<and> \<not> (q = p \<and> j = i))"
    unfolding live_def L' by auto
  also have "\<dots> \<longleftrightarrow> c \<in> live slab L U \<and> c \<noteq> scell slab p i"
    unfolding live_def slab_pages_def mem_Collect_eq using live_inj [OF inv _ _ p] by metis
  finally show "c \<in> live slab L' (U(p := U p - {i})) \<longleftrightarrow> c \<in> live slab L U - {scell slab p i}" by blast
qed

lemma live_drop_page:
  assumes inv: "slab_inv pinv slab s L U serv Rest" and p: "p \<in> set (L 1)" "i \<in> U p"
    and L': "slab_pages L' = slab_pages L - {p}"
  shows "live slab L' U = live slab L U - {scell slab p i}"
proof (rule set_eqI)
  fix c
  note I = slab_invD [OF inv]
  have "card (U p) = 1" by (rule slab_repD(3) [OF I(2) p(1)])
  then have U: "j \<in> U p \<longleftrightarrow> j = i" for j using p(2) by (auto simp: card_1_singleton_iff)
  have "c \<in> live slab L' U \<longleftrightarrow>
      (\<exists>q j. c = scell slab q j \<and> q \<in> slab_pages L \<and> j \<in> U q \<and> \<not> (q = p \<and> j = i))"
    unfolding live_def L' mem_Collect_eq Diff_iff singleton_iff using U by metis
  also have "\<dots> \<longleftrightarrow> c \<in> live slab L U \<and> c \<noteq> scell slab p i"
    unfolding live_def slab_pages_def mem_Collect_eq using live_inj [OF inv _ _ p] by metis
  finally show "c \<in> live slab L' U \<longleftrightarrow> c \<in> live slab L U - {scell slab p i}" by blast
qed

lemma live_bound:
  assumes "slab_inv pinv slab s L U serv Rest" and "p \<in> set (L k)" and "i \<in> U p"
  shows "page_ok slab p" and "i < ncells slab"
proof -
  note I = slab_invD [OF assms(1)]
  show "page_ok slab p" by (rule lists_repD(5) [OF slab_repD(1) [OF I(2)] assms(2)])
  show "i < ncells slab" using slab_repD(2) [OF I(2) assms(2)] assms(3) by auto
qed

lemma live_cells_apart:
  assumes inv: "slab_inv pinv slab s L U serv Rest" and "c \<in> live slab L U" and "d \<in> live slab L U" and "c \<noteq> d"
  shows "\<not> (in_cell slab c x \<and> in_cell slab d x)"
proof
  assume x: "in_cell slab c x \<and> in_cell slab d x"
  obtain p i k where c: "c = scell slab p i" "p \<in> set (L k)" "i \<in> U p" using assms(2) by (rule live_cases)
  obtain q j l where d: "d = scell slab q j" "q \<in> set (L l)" "j \<in> U q" using assms(3) by (rule live_cases)
  have "p = q \<and> i = j"
    using cells_apart [OF slab_invD(1) [OF inv] live_bound [OF inv c(2,3)] live_bound [OF inv d(2,3)], of x]
      x c(1) d(1) by simp
  then show False using assms(4) c(1) d(1) by simp
qed

lemma live_fresh:
  assumes inv: "slab_inv pinv slab s L U serv Rest" and p: "page_ok slab p" "i < ncells slab"
    and new: "\<And>k. p \<in> set (L k) \<Longrightarrow> i \<notin> U p"
  shows "scell slab p i \<notin> live slab L U"
proof
  assume "scell slab p i \<in> live slab L U"
  then obtain q j l where q: "scell slab p i = scell slab q j" "q \<in> set (L l)" "j \<in> U q" by (rule live_cases)
  have "p = q \<and> i = j" using scell_inj [OF slab_invD(1) [OF inv] p live_bound [OF inv q(2,3)] q(1)] .
  then show False using q(2,3) new by blast
qed

lemma fullest_list:
  assumes "\<exists>k. Suc k < n \<and> L k \<noteq> []"
  obtains k p ps where "Suc k < n" and "L k = p # ps" and "\<And>j. k < j \<Longrightarrow> Suc j < n \<Longrightarrow> L j = []"
proof -
  define K where "K = {k. Suc k < n \<and> L k \<noteq> []}"
  have fin: "finite K" by (rule finite_subset [of _ "{..<n}"]) (auto simp: K_def)
  have K: "Max K \<in> K" using assms fin by (intro Max_in) (auto simp: K_def)
  have most: "L j = []" if "Max K < j" "Suc j < n" for j
  proof (rule ccontr)
    assume "L j \<noteq> []"
    then have "j \<in> K" using that(2) by (simp add: K_def)
    then show False using Max_ge [OF fin] that(1) by (meson leD)
  qed
  have mK: "Suc (Max K) < n" "L (Max K) \<noteq> []" using K unfolding K_def by blast+
  then obtain p ps where "L (Max K) = p # ps" by (meson neq_Nil_conv)
  then show thesis using that [OF mK(1) _ most] by blast
qed

section \<open>Writes into cells\<close>

lemma cell_write_outside:
  assumes inv: "slab_inv pinv slab s L U serv Rest" and c: "c \<in> live slab L U"
  shows "k < ncells slab \<Longrightarrow> \<not> in_cell slab c (shd slab k)"
    and "q \<in> set (L l) \<Longrightarrow> \<not> in_cell slab c q"
    and "q \<in> set (L l) \<Longrightarrow> j < ncells slab \<Longrightarrow> \<not> in_cell slab c (sbit slab q j)"
proof -
  note I = slab_invD [OF inv]
  note wf = I(1) and LD = lists_repD [OF slab_repD(1) [OF I(2)]]
  obtain p i l' where p: "c = scell slab p i" "p \<in> set (L l')" "i \<in> U p" using c by (rule live_cases)
  note b = live_bound [OF inv p(2,3)]
  have off: thesis if "in_cell slab c x" and
    "\<And>d. unat x = unat p + d \<Longrightarrow> 32 \<le> d \<Longrightarrow> d < 32 + ncells slab * nssize slab \<Longrightarrow> d < npgsize slab \<Longrightarrow> thesis"
    for x thesis using that cell_in_page [OF wf b] p(1) by (metis add_leD1)
  show "\<not> in_cell slab c (shd slab k)" if k: "k < ncells slab"
  proof
    assume "in_cell slab c (shd slab k)"
    then obtain d where "unat (shd slab k) = unat p + d" "d < npgsize slab" using off by blast
    then show False using b(1) k unat_shd [OF wf k] by (auto simp: page_ok_def)
  qed
  show "\<not> in_cell slab c q" if q: "q \<in> set (L l)"
  proof
    assume "in_cell slab c q"
    then obtain d where d: "unat q = unat p + d" "32 \<le> d" "d < npgsize slab" using off by blast
    have "q = p" using same_page [OF LD(5) [OF q] b(1), of 0 d] d wf_slabD(3) [OF wf] by simp
    then show False using d by simp
  qed
  show "\<not> in_cell slab c (sbit slab q j)" if q: "q \<in> set (L l)" and j: "j < ncells slab"
  proof
    assume "in_cell slab c (sbit slab q j)"
    then obtain d where d: "unat (sbit slab q j) = unat p + d" "d < 32 + ncells slab * nssize slab" "d < npgsize slab"
      using off by blast
    note u = unat_sbit [OF wf LD(5) [OF q] j]
    have e: "32 + ncells slab * nssize slab + j < npgsize slab" using wf_slabD(3) [OF wf] j by linarith
    have "q = p" using same_page [OF LD(5) [OF q] b(1) e d(3)] d(1) u by simp
    then show False using d u by simp
  qed
qed

lemma slab_inv_cell_write:
  assumes inv: "slab_inv pinv slab (m, w) L U serv Rest" and wr: "cell_write slab (live slab L U) m m'"
  shows "slab_inv pinv slab (m', w) L U serv Rest"
proof -
  note I = slab_invD [OF inv]
  have rep: "slab_rep slab m L U" using I(2) by simp
  note D = slab_repD [OF rep] and LD = lists_repD [OF slab_repD(1) [OF rep]]
  note out = cell_write_outside [OF inv]
  have same: "sp_next m' x = sp_next m x \<and> sp_prev m' x = sp_prev m x \<and> sp_list m' x = sp_list m x \<and>
      sp_used m' x = sp_used m x \<and> sl_len m' x = sl_len m x \<and> s_byte m' x = s_byte m x"
    if "\<And>c. c \<in> live slab L U \<Longrightarrow> \<not> in_cell slab c x" for x
    using wr that unfolding cell_write_def by blast
  have "slab_list_rep slab m' k (L k)" if k: "k < ncells slab" for k
  proof (rule slab_list_rep_frame [OF LD(1) [OF k]])
    fix x assume "x \<in> insert (shd slab k) (set (L k))"
    then have "\<not> in_cell slab c x" if "c \<in> live slab L U" for c using out(1) [OF that k] out(2) [OF that] by blast
    then show "sp_next m' x = sp_next m x \<and> sp_prev m' x = sp_prev m x \<and> sp_list m' x = sp_list m x \<and>
      sp_used m' x = sp_used m x \<and> sl_len m' x = sl_len m x" using same by blast
  qed
  then have "lists_rep slab m' L" using D(1) by (simp add: lists_rep_def)
  moreover have "bits_rep slab m' p (U p)" if p: "p \<in> set (L k)" for p k
  proof -
    have "s_byte m' (sbit slab p i) = s_byte m (sbit slab p i)" if "i < ncells slab" for i
      using same out(3) p that by blast
    then show ?thesis using D(4) [OF p] by (simp add: bits_rep_def)
  qed
  ultimately have "slab_rep slab m' L U" using D(2,3) by (simp add: slab_rep_def)
  then show ?thesis using I by (simp add: slab_inv_def)
qed

section \<open>The invariant of reachable states\<close>

context page_provider
begin

definition sreach_inv :: "'b slab_alloc_t \<Rightarrow> slab_heap \<Rightarrow> 'b \<Rightarrow> addr set \<Rightarrow> (addr \<times> u64) set \<Rightarrow> bool" where
  "sreach_inv slab m w C Oth \<longleftrightarrow> linked palloc pfree pgbegin pgsize slab \<and>
     (\<exists>L U serv. slab_inv pinv slab (m, w) L U serv Oth \<and> C = live slab L U)"

lemma sreach_alloc:
  assumes "sreach_inv slab m w C Oth"
  shows "(\<exists>c m' w'. lib_slab_alloc slab (m, w) = Inr (c, m', w') \<and> c \<notin> C \<and> sreach_inv slab m' w' (insert c C) Oth) \<or>
    lib_slab_alloc slab (m, w) = Inl (AssertFailed Slab_alloc_c 167) \<and> (\<exists>w'. palloc 1 w = Inr (0, w'))"
proof -
  obtain L U serv where lk: "linked palloc pfree pgbegin pgsize slab"
    and inv: "slab_inv pinv slab (m, w) L U serv Oth" and C: "C = live slab L U"
    using assms by (auto simp: sreach_inv_def)
  note I = slab_invD [OF inv]
  have L: "lists_rep slab m L" using slab_repD(1) [OF I(2)] by simp
  show ?thesis
  proof (cases "\<exists>k. Suc k < ncells slab \<and> L k \<noteq> []")
    case True
    then obtain k p ps where k: "Suc k < ncells slab" "L k = p # ps"
        "\<And>j. k < j \<Longrightarrow> Suc j < ncells slab \<Longrightarrow> L j = []" by (rule fullest_list) blast
    obtain i m' where m': "first_free (U p) i" "i < ncells slab"
        "lib_slab_alloc slab (m, w) = Inr (scell slab p i, m', w)"
        "slab_inv pinv slab (m', w) (move_page k (Suc k) L) (U(p := insert i (U p))) serv Oth"
      using lib_slab_alloc_page [OF inv k] by blast
    have pk: "p \<in> set (L k)" using k(2) by simp
    then have pL: "p \<in> slab_pages L" unfolding slab_pages_def by blast
    have "scell slab p i \<notin> C"
      unfolding C using m'(1) by (intro live_fresh [OF inv lists_repD(5) [OF L pk] m'(2)]) (simp add: first_free_def)
    moreover have "live slab (move_page k (Suc k) L) (U(p := insert i (U p))) = insert (scell slab p i) C"
      unfolding C by (rule live_take [OF pL slab_pages_move [OF L k(2) n_not_Suc_n]])
    ultimately show ?thesis using m'(3,4) lk unfolding sreach_inv_def by metis
  next
    case False
    then have none: "\<And>k. Suc k < ncells slab \<Longrightarrow> L k = []" by blast
    obtain p w' where al: "palloc 1 w = Inr (p, w')" using alloc_total [OF I(4), of 1] by auto
    note new = lib_slab_alloc_new [OF inv lk none al]
    show ?thesis
    proof (cases "p = 0")
      case True
      then show ?thesis using new al by auto
    next
      case nz: False
      obtain m' where m': "page_ok slab p" "\<And>j. p \<notin> set (L j)"
          "lib_slab_alloc slab (m, w) = Inr (scell slab p 0, m', w')"
          "slab_inv pinv slab (m', w') (L(1 := p # L 1)) (U(p := {0})) serv Oth"
        using new nz by auto
      have "0 < ncells slab" using wf_slabD(1) [OF I(1)] by simp
      then have "scell slab p 0 \<notin> C"
        unfolding C using m'(2) by (intro live_fresh [OF inv m'(1)]) auto
      moreover have "live slab (L(1 := p # L 1)) (U(p := {0})) = insert (scell slab p 0) C"
        unfolding C by (rule live_new [OF _ slab_pages_push]) (use m'(2) in \<open>auto simp: slab_pages_def\<close>)
      ultimately show ?thesis using m'(3,4) lk unfolding sreach_inv_def by metis
    qed
  qed
qed

lemma sreach_free:
  assumes "sreach_inv slab m w C Oth" and "c \<in> C" and "page_first slab m c"
  shows "\<exists>m' w'. lib_slab_free slab c (m, w) = Inr (m', w') \<and> sreach_inv slab m' w' (C - {c}) Oth"
proof -
  obtain L U serv where lk: "linked palloc pfree pgbegin pgsize slab"
    and inv: "slab_inv pinv slab (m, w) L U serv Oth" and C: "C = live slab L U"
    using assms(1) by (auto simp: sreach_inv_def)
  note I = slab_invD [OF inv]
  have rep: "slab_rep slab m L U" using I(2) by simp
  note D = slab_repD [OF rep]
  obtain p i k where c: "c = scell slab p i" "p \<in> set (L k)" "i \<in> U p" using assms(2) unfolding C by (rule live_cases)
  note b = live_bound [OF inv c(2,3)]
  have "sl_pgbegin slab c = p" using pgbegin_cell [OF I(1) lk b] lk c(1) by (simp add: linked_def)
  then have "sp_next m (shd slab k) = p"
    using assms(3) lists_rep_node(2) [OF D(1) c(2)] by (simp add: page_first_def)
  then obtain ps where Lk: "L k = p # ps"
    using slab_head_next [OF D(1) lists_repD(6) [OF D(1) c(2)]] c(2) by (cases "L k") auto
  have "0 < k" using D(2,3) [OF c(2)] c(3) by (metis card_gt_0_iff empty_iff finite_lessThan finite_subset)
  then consider "k = 1" | j where "k = Suc j" "0 < j" by (cases k) auto
  then show ?thesis
  proof cases
    case 1
    obtain m' w' where m': "lib_slab_free slab (scell slab p i) (m, w) = Inr (m', w')"
        "slab_inv pinv slab (m', w') (L(1 := ps)) U serv Oth"
      using lib_slab_free_last [OF inv lk _ c(3)] Lk 1 by metis
    have "live slab (L(1 := ps)) U = C - {c}"
      unfolding C c(1) using c(2) 1 Lk by (intro live_drop_page [OF inv _ c(3)] slab_pages_pop [OF D(1)]) auto
    then show ?thesis using m' lk c(1) unfolding sreach_inv_def by metis
  next
    case 2
    obtain m' where m': "lib_slab_free slab (scell slab p i) (m, w) = Inr (m', w)"
        "slab_inv pinv slab (m', w) (move_page (Suc j) j L) (U(p := U p - {i})) serv Oth"
      using lib_slab_free_more [OF inv lk _ c(3) 2(2)] Lk 2(1) by metis
    have "live slab (move_page (Suc j) j L) (U(p := U p - {i})) = C - {c}"
      unfolding C c(1) using Lk 2(1)
      by (intro live_drop [OF inv c(2,3)] slab_pages_move [OF D(1)]) auto
    then show ?thesis using m' lk c(1) unfolding sreach_inv_def by metis
  qed
qed

lemma sreach_init:
  assumes "pinv w Oth" and "slab_args pgs ssize" and "unat pgs = pgsize"
    and "lib_slab_init pgs ssize palloc pfree pgbegin s0 (m, w) = Inr (slab, m', w')"
  shows "sreach_inv slab m' w' {} Oth"
proof -
  obtain serv where "linked palloc pfree pgbegin pgsize slab"
      "slab_inv pinv slab (m', w') (\<lambda>_. []) (\<lambda>_. {}) serv Oth"
    using lib_slab_init_spec [OF assms(1-3), of s0 m "\<lambda>_. {}"] assms(4) by (metis Inl_Inr_False Inr_inject Pair_inject)
  moreover have "live slab (\<lambda>_. []) (\<lambda>_. {}) = {}" by (simp add: live_def)
  ultimately show ?thesis unfolding sreach_inv_def by metis
qed

lemma sreach_other:
  assumes "sreach_inv slab m w C Oth"
  shows "palloc n w = Inr (p, w') \<Longrightarrow> sreach_inv slab m w' C (if p = 0 then Oth else insert (p, n) Oth)"
    and "(p, n) \<in> Oth \<Longrightarrow> pfree p w = Inr w' \<Longrightarrow> sreach_inv slab m w' C (Oth - {(p, n)})"
proof -
  obtain L U serv where lk: "linked palloc pfree pgbegin pgsize slab"
    and inv: "slab_inv pinv slab (m, w) L U serv Oth" and C: "C = live slab L U"
    using assms by (auto simp: sreach_inv_def)
  note I = slab_invD [OF inv]
  let ?H = "slab_holds slab L serv"
  have own: "pinv w (?H \<union> Oth)" using I(4) by simp
  show "sreach_inv slab m w' C (if p = 0 then Oth else insert (p, n) Oth)" if al: "palloc n w = Inr (p, w')"
  proof -
    have "pinv w' (?H \<union> (if p = 0 then Oth else insert (p, n) Oth))" using alloc_owns [OF own al] by auto
    moreover have "?H \<inter> (if p = 0 then Oth else insert (p, n) Oth) = {}"
      using alloc_fresh [OF own al, of n] I(5) by auto
    ultimately have "slab_inv pinv slab (m, w') L U serv (if p = 0 then Oth else insert (p, n) Oth)"
      using I(1,2,3,6) by (simp add: slab_inv_def)
    then show ?thesis using lk C unfolding sreach_inv_def by blast
  qed
  show "sreach_inv slab m w' C (Oth - {(p, n)})" if p: "(p, n) \<in> Oth" "pfree p w = Inr w'"
  proof -
    have "pinv w' (?H \<union> Oth - {(p, n)})" using free_owned [OF own, of p n] p by auto
    moreover have "?H \<union> Oth - {(p, n)} = ?H \<union> (Oth - {(p, n)})" using I(5) p(1) by blast
    ultimately have "slab_inv pinv slab (m, w') L U serv (Oth - {(p, n)})"
      using I(1,2,3,5,6) by (auto simp: slab_inv_def)
    then show ?thesis using lk C unfolding sreach_inv_def by blast
  qed
qed

lemma slab_reach_inv:
  assumes "slab_reach pinv palloc pfree pgbegin pgs ssize slab m w C Oth"
    and args: "slab_args pgs ssize" "unat pgs = pgsize"
  shows "sreach_inv slab m w C Oth"
  using assms(1)
proof (induction rule: slab_reach.induct)
  case (init w Oth s0 m slab m' w')
  then show ?case using sreach_init args by blast
next
  case (alloc slab m w C Oth c m' w')
  then show ?case using sreach_alloc [of slab m w C Oth] by auto
next
  case (free slab m w C Oth c m' w')
  then show ?case using sreach_free [of slab m w C Oth c] by auto
next
  case (usr slab m w C Oth m')
  then show ?case using slab_inv_cell_write unfolding sreach_inv_def by metis
next
  case (other_alloc slab m w C Oth n p w')
  then show ?case using sreach_other(1) by metis
next
  case (other_free slab m w C Oth p n w')
  then show ?case using sreach_other(2) by metis
qed

text \<open>Cells never overlap each other, nor a block that another client holds.\<close>

lemma sreach_cells_apart:
  assumes "sreach_inv slab m w C Oth" and "c \<in> C" and "d \<in> C" and "c \<noteq> d"
  shows "\<not> (in_cell slab c x \<and> in_cell slab d x)"
  using assms live_cells_apart unfolding sreach_inv_def by metis

lemma sreach_cells_own:
  assumes "sreach_inv slab m w C Oth" and "c \<in> C" and "b \<in> Oth" and "in_cell slab c x"
  shows "\<not> page_block pgsize b x"
proof -
  obtain L U serv where lk: "linked palloc pfree pgbegin pgsize slab"
    and inv: "slab_inv pinv slab (m, w) L U serv Oth" and C: "C = live slab L U"
    using assms(1) by (auto simp: sreach_inv_def)
  note I = slab_invD [OF inv]
  obtain p i k where c: "c = scell slab p i" "p \<in> set (L k)" "i \<in> U p" using assms(2) unfolding C by (rule live_cases)
  obtain d where d: "unat x = unat p + d" "d < npgsize slab"
    using cell_in_page [OF I(1) live_bound [OF inv c(2,3)]] assms(4) c(1) by metis
  have "page_block pgsize (p, 1) x" using d lk by (simp add: page_block_def linked_def)
  moreover have "(p, 1) \<in> slab_holds slab L serv" by (rule in_slab_holds [of p L, OF c(2)])
  moreover have "(p, 1) \<noteq> b" using calculation(2) assms(3) I(5) by blast
  ultimately show ?thesis using own_apart [OF I(4), of "(p, 1)" b x] assms(3) by auto
qed

end

end
