(* ===== verification/Spinlock.thy ===== *)
theory Spinlock
  imports Prelude
begin

text \<open>
  kernel/spinlock.c: interrupt bookkeeping and spin locks.  The functions are given twice: as
  state transformers of one hart, which the other components call, and as atomic steps of many
  harts that compete for one lock, where mutual exclusion is proved.
\<close>

section \<open>Interrupt nesting and locks\<close>

text \<open>
  The fields of \<open>struct cpu\<close> (kernel/proc.h) that locking uses, with the interrupt enable bit of
  the hart's status register, which \<open>intr_get\<close>, \<open>intr_on\<close> and \<open>intr_off\<close> read and write.
\<close>

record hart =
  h_id :: nat
  h_noff :: int
  h_intena :: bool
  h_intr :: bool

text \<open>\<open>lk->cpu\<close> is null or the address of one of the \<open>cpus\<close>.\<close>

record spinlock =
  lk_locked :: u32
  lk_name :: string
  lk_cpu :: "nat option"

definition initlock :: "string \<Rightarrow> spinlock" where
  "initlock name = \<lparr> lk_locked = 0, lk_name = name, lk_cpu = None \<rparr>"

definition holding :: "spinlock \<Rightarrow> hart \<Rightarrow> bool" where
  "holding lk c \<longleftrightarrow> lk_locked lk \<noteq> 0 \<and> lk_cpu lk = Some (h_id c)"

definition push_off :: "hart \<Rightarrow> hart" where
  "push_off c =
    (let old = h_intr c;
         c1 = c \<lparr> h_intr := False \<rparr>;
         c2 = (if h_noff c1 = 0 then c1 \<lparr> h_intena := old \<rparr> else c1)
     in c2 \<lparr> h_noff := h_noff c2 + 1 \<rparr>)"

definition pop_off :: "hart \<Rightarrow> hart res" where
  "pop_off c =
    guardE (\<not> h_intr c) (Panic ''pop_off - interruptible'')
     (guardE (1 \<le> h_noff c) (Panic ''pop_off'')
       (let c1 = c \<lparr> h_noff := h_noff c - 1 \<rparr> in
        Inr (if h_noff c1 = 0 \<and> h_intena c1 then c1 \<lparr> h_intr := True \<rparr> else c1)))"

text \<open>
  Called by a hart while no other hart runs, \<open>acquire\<close> spins forever on a lock that is taken.
\<close>

definition acquire :: "spinlock \<Rightarrow> hart \<Rightarrow> (spinlock \<times> hart) res" where
  "acquire lk c =
    (let c1 = push_off c in
     guardE (\<not> holding lk c1) (Panic ''acquire'')
      (guardE (lk_locked lk = 0) Diverges
        (Inr (lk \<lparr> lk_locked := 1, lk_cpu := Some (h_id c1) \<rparr>, c1))))"

definition release :: "spinlock \<Rightarrow> hart \<Rightarrow> (spinlock \<times> hart) res" where
  "release lk c =
    guardE (holding lk c) (Panic ''release'')
     (bindE (pop_off c) (\<lambda>c'. Inr (lk \<lparr> lk_cpu := None, lk_locked := 0 \<rparr>, c')))"

section \<open>One hart\<close>

text \<open>Interrupts are off while \<open>push_off\<close> calls are open.\<close>

definition hart_ok :: "hart \<Rightarrow> bool" where
  "hart_ok c \<longleftrightarrow> 0 \<le> h_noff c \<and> (0 < h_noff c \<longrightarrow> \<not> h_intr c)"

definition lock_free :: "spinlock \<Rightarrow> bool" where
  "lock_free lk \<longleftrightarrow> lk_locked lk = 0 \<and> lk_cpu lk = None"

lemma hart_ok_push_off: "hart_ok c \<Longrightarrow> hart_ok (push_off c)"
  by (simp add: hart_ok_def push_off_def Let_def)

lemma pop_push_off:
  assumes "hart_ok c"
  shows "\<exists>c'. pop_off (push_off c) = Inr c' \<and> hart_ok c' \<and> h_id c' = h_id c \<and> h_noff c' = h_noff c \<and>
    h_intr c' = h_intr c"
  using assms by (auto simp: hart_ok_def pop_off_def push_off_def Let_def guardE_def)

text \<open>\<open>c'\<close> is \<open>c\<close> up to the remembered enable bit, which matters only while \<open>push_off\<close> calls are open.\<close>

definition same_hart :: "hart \<Rightarrow> hart \<Rightarrow> bool" where
  "same_hart c c' \<longleftrightarrow> h_id c' = h_id c \<and> h_noff c' = h_noff c \<and> h_intr c' = h_intr c \<and>
     (0 < h_noff c \<longrightarrow> h_intena c' = h_intena c)"

lemma same_hart_refl [simp]: "same_hart c c"
  by (simp add: same_hart_def)

lemma same_hart_trans: "same_hart a b \<Longrightarrow> same_hart b c \<Longrightarrow> same_hart a c"
  by (simp add: same_hart_def)

lemma acquire_free:
  assumes "lock_free lk"
  shows "acquire lk c = Inr (lk \<lparr> lk_locked := 1, lk_cpu := Some (h_id c) \<rparr>, push_off c)"
  using assms by (simp add: acquire_def lock_free_def holding_def push_off_def Let_def)

text \<open>A critical section around a body that leaves lock and hart alone.\<close>

lemma release_acquired:
  assumes "lock_free lk" and "hart_ok c"
  obtains c' where "release (lk \<lparr> lk_locked := 1, lk_cpu := Some (h_id c) \<rparr>) (push_off c) = Inr (lk, c')"
    and "hart_ok c'" and "same_hart c c'"
proof -
  let ?c' = "if h_noff c = 0 then c \<lparr> h_intena := h_intr c \<rparr> else c"
  have "release (lk \<lparr> lk_locked := 1, lk_cpu := Some (h_id c) \<rparr>) (push_off c) = Inr (lk, ?c')"
    using assms
    by (cases lk; cases c) (auto simp: lock_free_def hart_ok_def release_def holding_def pop_off_def push_off_def
        Let_def guardE_def)
  moreover have "hart_ok ?c'" "same_hart c ?c'" using assms(2) by (simp_all add: hart_ok_def same_hart_def)
  ultimately show thesis by (rule that)
qed

section \<open>Many harts and one lock\<close>

text \<open>
  Where a hart stands in its use of the lock: outside; in the loop of \<open>acquire\<close>; after the atomic
  swap that took the lock; in the critical section; in \<open>release\<close> after clearing \<open>lk->cpu\<close>; and
  after the atomic store that frees the lock.
\<close>

datatype lock_pc = Outside | Spinning | Swapped | Critical | Cleared | Freed

record smp =
  s_lock :: spinlock
  s_pc :: "nat \<Rightarrow> lock_pc"
  s_hart :: "nat \<Rightarrow> hart"

text \<open>
  One step is one access to shared memory together with the hart's own work up to the next one.
  A hart outside may also switch its interrupts on and off while no \<open>push_off\<close> is open.
\<close>

inductive lock_step :: "nat \<Rightarrow> smp \<Rightarrow> smp res \<Rightarrow> bool" where
  enter: "s_pc s h = Outside \<Longrightarrow> c = push_off (s_hart s h) \<Longrightarrow>
    lock_step h s (guardE (\<not> holding (s_lock s) c) (Panic ''acquire'')
      (Inr (s \<lparr> s_hart := (s_hart s)(h := c), s_pc := (s_pc s)(h := Spinning) \<rparr>)))"
| spin: "s_pc s h = Spinning \<Longrightarrow> lk_locked (s_lock s) \<noteq> 0 \<Longrightarrow>
    lock_step h s (Inr (s \<lparr> s_lock := (s_lock s) \<lparr> lk_locked := 1 \<rparr> \<rparr>))"
| swap: "s_pc s h = Spinning \<Longrightarrow> lk_locked (s_lock s) = 0 \<Longrightarrow>
    lock_step h s (Inr (s \<lparr> s_lock := (s_lock s) \<lparr> lk_locked := 1 \<rparr>, s_pc := (s_pc s)(h := Swapped) \<rparr>))"
| own: "s_pc s h = Swapped \<Longrightarrow>
    lock_step h s (Inr (s \<lparr> s_lock := (s_lock s) \<lparr> lk_cpu := Some (h_id (s_hart s h)) \<rparr>,
      s_pc := (s_pc s)(h := Critical) \<rparr>))"
| clear: "s_pc s h = Critical \<Longrightarrow>
    lock_step h s (guardE (holding (s_lock s) (s_hart s h)) (Panic ''release'')
      (Inr (s \<lparr> s_lock := (s_lock s) \<lparr> lk_cpu := None \<rparr>, s_pc := (s_pc s)(h := Cleared) \<rparr>)))"
| unlock: "s_pc s h = Cleared \<Longrightarrow>
    lock_step h s (Inr (s \<lparr> s_lock := (s_lock s) \<lparr> lk_locked := 0 \<rparr>, s_pc := (s_pc s)(h := Freed) \<rparr>))"
| leave: "s_pc s h = Freed \<Longrightarrow>
    lock_step h s (bindE (pop_off (s_hart s h)) (\<lambda>c.
      Inr (s \<lparr> s_hart := (s_hart s)(h := c), s_pc := (s_pc s)(h := Outside) \<rparr>)))"
| toggle: "s_pc s h = Outside \<Longrightarrow> h_noff (s_hart s h) = 0 \<Longrightarrow>
    lock_step h s (Inr (s \<lparr> s_hart := (s_hart s)(h := (s_hart s h) \<lparr> h_intr := b \<rparr>) \<rparr>))"

inductive_cases lock_stepE: "lock_step h s r"

definition smp_init :: "string \<Rightarrow> (nat \<Rightarrow> hart) \<Rightarrow> smp" where
  "smp_init name hs = \<lparr> s_lock = initlock name, s_pc = (\<lambda>_. Outside), s_hart = hs \<rparr>"

text \<open>The states reached from a fresh lock; \<open>hs\<close> are the harts, numbered by their \<open>h_id\<close>.\<close>

inductive lock_reach :: "string \<Rightarrow> (nat \<Rightarrow> hart) \<Rightarrow> smp \<Rightarrow> bool" for name hs where
  start: "(\<And>h. h_id (hs h) = h \<and> hart_ok (hs h)) \<Longrightarrow> lock_reach name hs (smp_init name hs)"
| step: "lock_reach name hs s \<Longrightarrow> lock_step h s (Inr s') \<Longrightarrow> lock_reach name hs s'"

definition owns :: "lock_pc \<Rightarrow> bool" where
  "owns pc \<longleftrightarrow> pc = Swapped \<or> pc = Critical \<or> pc = Cleared"

text \<open>The lock is free and no hart owns it, or one hart owns it.\<close>

definition owned_by :: "smp \<Rightarrow> nat option \<Rightarrow> bool" where
  "owned_by s w \<longleftrightarrow> (\<forall>h. owns (s_pc s h) \<longleftrightarrow> w = Some h) \<and> (lk_locked (s_lock s) \<noteq> 0 \<longleftrightarrow> w \<noteq> None) \<and>
     (\<forall>h. lk_cpu (s_lock s) = Some h \<longleftrightarrow> s_pc s h = Critical)"

definition harts_ok :: "smp \<Rightarrow> bool" where
  "harts_ok s \<longleftrightarrow> (\<forall>h. h_id (s_hart s h) = h \<and> hart_ok (s_hart s h) \<and>
     (s_pc s h \<noteq> Outside \<longrightarrow> 0 < h_noff (s_hart s h)))"

definition smp_inv :: "smp \<Rightarrow> bool" where
  "smp_inv s \<longleftrightarrow> harts_ok s \<and> (\<exists>w. owned_by s w)"

lemma push_off_fields:
  "h_id (push_off c) = h_id c" "h_noff (push_off c) = h_noff c + 1" "\<not> h_intr (push_off c)"
  by (simp_all add: push_off_def Let_def)

lemma pop_off_ok:
  assumes "hart_ok c" and "0 < h_noff c"
  obtains c' where "pop_off c = Inr c'" and "hart_ok c'" and "h_id c' = h_id c"
  using assms that by (auto simp: hart_ok_def pop_off_def Let_def)

lemma smp_inv_init:
  assumes "\<And>h. h_id (hs h) = h \<and> hart_ok (hs h)"
  shows "smp_inv (smp_init name hs)"
proof -
  have "owned_by (smp_init name hs) None" by (simp add: owned_by_def smp_init_def initlock_def owns_def)
  then show ?thesis using assms by (auto simp: smp_inv_def harts_ok_def smp_init_def)
qed

lemma owned_by_self:
  assumes "owned_by s w" and "owns (s_pc s h)"
  shows "w = Some h" and "lk_locked (s_lock s) \<noteq> 0"
    and "\<And>h'. h' \<noteq> h \<Longrightarrow> \<not> owns (s_pc s h')" and "\<And>h'. h' \<noteq> h \<Longrightarrow> s_pc s h' \<noteq> Critical"
proof -
  show w: "w = Some h" using assms by (simp add: owned_by_def)
  show "lk_locked (s_lock s) \<noteq> 0" using assms(1) w by (simp add: owned_by_def)
  show o: "\<not> owns (s_pc s h')" if "h' \<noteq> h" for h' using assms(1) w that by (auto simp: owned_by_def)
  show "s_pc s h' \<noteq> Critical" if "h' \<noteq> h" for h' using o [OF that] by (auto simp: owns_def)
qed

lemma holding_critical:
  assumes "harts_ok s" and "owned_by s w"
  shows "holding (s_lock s) (s_hart s h) \<longleftrightarrow> s_pc s h = Critical"
    and "holding (s_lock s) (push_off (s_hart s h)) \<longleftrightarrow> s_pc s h = Critical"
proof -
  have id: "h_id (s_hart s h) = h" using assms(1) by (simp add: harts_ok_def)
  have cpu: "lk_cpu (s_lock s) = Some h \<longleftrightarrow> s_pc s h = Critical" using assms(2) by (simp add: owned_by_def)
  have "lk_locked (s_lock s) \<noteq> 0" if "s_pc s h = Critical"
    using owned_by_self(2) [OF assms(2)] that by (auto simp: owns_def)
  then show "holding (s_lock s) (s_hart s h) \<longleftrightarrow> s_pc s h = Critical"
    and "holding (s_lock s) (push_off (s_hart s h)) \<longleftrightarrow> s_pc s h = Critical"
    using id cpu by (auto simp: holding_def push_off_fields)
qed

text \<open>No step of a hart panics, and every step keeps the invariant.\<close>

lemma lock_step_inv:
  assumes inv: "smp_inv s" and "lock_step h s r"
  shows "\<exists>s'. r = Inr s' \<and> smp_inv s'"
proof -
  obtain w where H: "harts_ok s" and W: "owned_by s w" using inv by (auto simp: smp_inv_def)
  note hold = holding_critical [OF H W]
  have wh: "w = Some h \<longleftrightarrow> owns (s_pc s h)" using W by (simp add: owned_by_def)
  have hart: "hart_ok (s_hart s h)" "h_id (s_hart s h) = h" using H by (auto simp: harts_ok_def)
  show ?thesis
    using assms(2)
  proof cases
    case (enter c)
    let ?s = "s \<lparr> s_hart := (s_hart s)(h := c), s_pc := (s_pc s)(h := Spinning) \<rparr>"
    have "w \<noteq> Some h" using wh enter by (simp add: owns_def)
    then have "owned_by ?s w" using W enter by (auto simp: owned_by_def owns_def)
    moreover have "harts_ok ?s"
      using H enter hart by (auto simp: harts_ok_def push_off_fields hart_ok_push_off hart_ok_def)
    ultimately show ?thesis using enter hold by (auto simp: smp_inv_def)
  next
    case spin
    then have "owned_by (s \<lparr> s_lock := (s_lock s) \<lparr> lk_locked := 1 \<rparr> \<rparr>) w" using W by (simp add: owned_by_def)
    then show ?thesis using spin H by (auto simp: smp_inv_def harts_ok_def)
  next
    case swap
    then have "w = None" using W by (simp add: owned_by_def)
    then have "owned_by (s \<lparr> s_lock := (s_lock s) \<lparr> lk_locked := 1 \<rparr>, s_pc := (s_pc s)(h := Swapped) \<rparr>) (Some h)"
      using W swap by (auto simp: owned_by_def owns_def)
    then show ?thesis using swap H by (auto simp: smp_inv_def harts_ok_def)
  next
    case own
    note self = owned_by_self [OF W, of h]
    have "owned_by (s \<lparr> s_lock := (s_lock s) \<lparr> lk_cpu := Some (h_id (s_hart s h)) \<rparr>,
        s_pc := (s_pc s)(h := Critical) \<rparr>) (Some h)"
      using W own self hart by (auto simp: owned_by_def owns_def)
    then show ?thesis using own H by (auto simp: smp_inv_def harts_ok_def)
  next
    case clear
    note self = owned_by_self [OF W, of h]
    have "owned_by (s \<lparr> s_lock := (s_lock s) \<lparr> lk_cpu := None \<rparr>, s_pc := (s_pc s)(h := Cleared) \<rparr>) (Some h)"
      using W clear self by (auto simp: owned_by_def owns_def)
    then show ?thesis using clear H hold by (auto simp: smp_inv_def harts_ok_def)
  next
    case unlock
    note self = owned_by_self [OF W, of h]
    have "owned_by (s \<lparr> s_lock := (s_lock s) \<lparr> lk_locked := 0 \<rparr>, s_pc := (s_pc s)(h := Freed) \<rparr>) None"
      using W unlock self by (auto simp: owned_by_def owns_def)
    then show ?thesis using unlock H by (auto simp: smp_inv_def harts_ok_def)
  next
    case leave
    then have "0 < h_noff (s_hart s h)" using H by (auto simp: harts_ok_def)
    then obtain c' where c': "pop_off (s_hart s h) = Inr c'" "hart_ok c'" "h_id c' = h_id (s_hart s h)"
      using pop_off_ok [OF hart(1)] by blast
    let ?s = "s \<lparr> s_hart := (s_hart s)(h := c'), s_pc := (s_pc s)(h := Outside) \<rparr>"
    have "w \<noteq> Some h" using wh leave by (simp add: owns_def)
    then have "owned_by ?s w" using W leave by (auto simp: owned_by_def owns_def)
    moreover have "harts_ok ?s" using H c' hart by (auto simp: harts_ok_def)
    ultimately show ?thesis using leave c' by (auto simp: smp_inv_def)
  next
    case (toggle b)
    then show ?thesis using H W by (auto simp: smp_inv_def harts_ok_def hart_ok_def owned_by_def)
  qed
qed

lemma lock_reach_inv: "lock_reach name hs s \<Longrightarrow> smp_inv s"
proof (induction rule: lock_reach.induct)
  case start
  then show ?case by (rule smp_inv_init)
next
  case (step s h s')
  then show ?case using lock_step_inv [of s h "Inr s'"] by auto
qed

text \<open>
  A hart that owns the lock frees it in at most three steps of its own, whatever the others do
  in between, and then any spinning hart takes it in one.
\<close>

definition own_steps :: "nat \<Rightarrow> smp \<Rightarrow> smp \<Rightarrow> bool" where
  "own_steps h = rtranclp (\<lambda>a b. lock_step h a (Inr b))"

lemma own_steps_first: "lock_step h a (Inr b) \<Longrightarrow> own_steps h b c \<Longrightarrow> own_steps h a c"
  unfolding own_steps_def by (rule converse_rtranclp_into_rtranclp)

lemma cleared_frees:
  assumes "s_pc s h = Cleared"
  shows "\<exists>s'. own_steps h s s' \<and> lk_locked (s_lock s') = 0 \<and> (\<forall>h'. h' \<noteq> h \<longrightarrow> s_pc s' h' = s_pc s h')"
proof (intro exI conjI)
  show "own_steps h s (s \<lparr> s_lock := (s_lock s) \<lparr> lk_locked := 0 \<rparr>, s_pc := (s_pc s)(h := Freed) \<rparr>)"
    by (rule own_steps_first [OF lock_step.unlock [OF assms]]) (simp add: own_steps_def)
qed simp_all

lemma critical_frees:
  assumes "s_pc s h = Critical" and "smp_inv s"
  shows "\<exists>s'. own_steps h s s' \<and> lk_locked (s_lock s') = 0 \<and> (\<forall>h'. h' \<noteq> h \<longrightarrow> s_pc s' h' = s_pc s h')"
proof -
  have "holding (s_lock s) (s_hart s h)" using assms holding_critical by (auto simp: smp_inv_def)
  then have "lock_step h s (Inr (s \<lparr> s_lock := (s_lock s) \<lparr> lk_cpu := None \<rparr>, s_pc := (s_pc s)(h := Cleared) \<rparr>))"
    using lock_step.clear [OF assms(1)] by simp
  from own_steps_first [OF this] show ?thesis
    using cleared_frees [of "s \<lparr> s_lock := (s_lock s) \<lparr> lk_cpu := None \<rparr>, s_pc := (s_pc s)(h := Cleared) \<rparr>" h] by force
qed

lemma owner_frees:
  assumes "smp_inv s" and "owns (s_pc s h)"
  shows "\<exists>s'. own_steps h s s' \<and> lk_locked (s_lock s') = 0 \<and> (\<forall>h'. h' \<noteq> h \<longrightarrow> s_pc s' h' = s_pc s h')"
proof (cases "s_pc s h")
  case Swapped
  note st = lock_step.own [OF Swapped]
  then have "smp_inv (s \<lparr> s_lock := (s_lock s) \<lparr> lk_cpu := Some (h_id (s_hart s h)) \<rparr>,
      s_pc := (s_pc s)(h := Critical) \<rparr>)" (is "smp_inv ?s1")
    using lock_step_inv [OF assms(1)] by blast
  then obtain s' where "own_steps h ?s1 s'" "lk_locked (s_lock s') = 0" "\<forall>h'. h' \<noteq> h \<longrightarrow> s_pc s' h' = s_pc ?s1 h'"
    using critical_frees [of ?s1 h] by auto
  then show ?thesis using own_steps_first [OF st] by force
qed (use assms critical_frees cleared_frees in \<open>auto simp: owns_def\<close>)

end
