(* ===== verification/Riscv.thy ===== *)
theory Riscv
  imports Prelude
begin

text \<open>
  The constants and macros of kernel/riscv.h, kernel/memlayout.h and kernel/param.h that the
  modelled code uses: page rounding, page table entries and the memory layout.
\<close>

section \<open>Pages\<close>

definition PGSIZE :: u64 where
  "PGSIZE = 4096"

definition PGROUNDUP :: "u64 \<Rightarrow> u64" where
  "PGROUNDUP sz = (sz + PGSIZE - 1) AND NOT (PGSIZE - 1)"

definition PGROUNDDOWN :: "u64 \<Rightarrow> u64" where
  "PGROUNDDOWN a = a AND NOT (PGSIZE - 1)"

section \<open>Page table entries\<close>

definition PTE_V :: u64 where "PTE_V = 1"
definition PTE_R :: u64 where "PTE_R = 2"
definition PTE_W :: u64 where "PTE_W = 4"
definition PTE_X :: u64 where "PTE_X = 8"
definition PTE_U :: u64 where "PTE_U = 16"

definition PA2PTE :: "u64 \<Rightarrow> u64" where
  "PA2PTE pa = push_bit 10 (drop_bit 12 pa)"

definition PTE2PA :: "u64 \<Rightarrow> u64" where
  "PTE2PA pte = push_bit 12 (drop_bit 10 pte)"

definition PTE_FLAGS :: "u64 \<Rightarrow> u64" where
  "PTE_FLAGS pte = pte AND 0x3FF"

definition PXSHIFT :: "nat \<Rightarrow> nat" where
  "PXSHIFT level = 12 + 9 * level"

definition PX :: "nat \<Rightarrow> u64 \<Rightarrow> u64" where
  "PX level va = drop_bit (PXSHIFT level) va AND 0x1FF"

definition MAXVA :: u64 where
  "MAXVA = push_bit (9 + 9 + 9 + 12 - 1) 1"

section \<open>Memory layout\<close>

definition KERNBASE :: u64 where "KERNBASE = 0x80000000"

definition PHYSTOP :: u64 where "PHYSTOP = KERNBASE + 128 * 1024 * 1024"

definition TRAMPOLINE :: u64 where "TRAMPOLINE = MAXVA - PGSIZE"

definition TRAPFRAME :: u64 where "TRAPFRAME = TRAMPOLINE - PGSIZE"

definition KSTACK :: "u64 \<Rightarrow> u64" where
  "KSTACK p = TRAMPOLINE - (p + 1) * 2 * PGSIZE"

section \<open>Rounding\<close>

lemma unat_take_bit: "unat (take_bit n (a :: 'a::len word)) = unat a mod 2 ^ n"
  unfolding unsigned_take_bit_eq by (rule take_bit_eq_mod)

lemma and_not_mask: "(a :: 'a::len word) AND NOT (mask n) = a - take_bit n a"
proof -
  have "(a AND NOT (mask n)) + take_bit n a = (a AND NOT (mask n)) OR take_bit n a"
    by (rule disjunctive_add) (auto simp: bit_simps)
  also have "\<dots> = a" by (rule bit_eqI) (auto simp: bit_simps)
  finally show ?thesis by (simp add: eq_diff_eq)
qed

lemma unat_and_not_mask: "unat ((a :: 'a::len word) AND NOT (mask n)) = unat a - unat a mod 2 ^ n"
proof -
  have "take_bit n a \<le> a" by (simp add: word_le_nat_alt unat_take_bit)
  then show ?thesis by (simp add: and_not_mask unat_sub unat_take_bit)
qed

lemma pg_mask: "PGSIZE - 1 = mask 12"
  by (simp add: PGSIZE_def mask_eq_exp_minus_1)

lemma unat_PGSIZE [simp]: "unat PGSIZE = 4096"
  by (simp add: PGSIZE_def)

lemma unat_PGROUNDDOWN: "unat (PGROUNDDOWN a) = unat a - unat a mod 4096"
  by (simp add: PGROUNDDOWN_def pg_mask unat_and_not_mask)

lemma unat_PGROUNDUP:
  assumes "unat a + 4095 < 2 ^ 64"
  shows "unat (PGROUNDUP a) = (unat a + 4095) div 4096 * 4096"
proof -
  have eq: "a + PGSIZE - 1 = a + 4095" by (simp add: PGSIZE_def)
  have "unat (a + 4095) = unat a + 4095"
    using assms unat_add_no_wrap [of a 4095] by simp
  then show ?thesis
    by (simp add: PGROUNDUP_def eq pg_mask unat_and_not_mask minus_mod_eq_div_mult)
qed

lemma PGROUNDUP_aligned:
  assumes "unat a + 4095 < 2 ^ 64"
  shows "4096 dvd unat (PGROUNDUP a)" and "unat a \<le> unat (PGROUNDUP a)" and "unat (PGROUNDUP a) < unat a + 4096"
proof -
  show "4096 dvd unat (PGROUNDUP a)" unfolding unat_PGROUNDUP [OF assms] by simp
  have "(unat a + 4095) div 4096 * 4096 + (unat a + 4095) mod 4096 = unat a + 4095" by (rule div_mult_mod_eq)
  moreover have "(unat a + 4095) mod 4096 < 4096" by simp
  ultimately show "unat a \<le> unat (PGROUNDUP a)" and "unat (PGROUNDUP a) < unat a + 4096"
    unfolding unat_PGROUNDUP [OF assms] by linarith+
qed

lemma PGROUNDDOWN_aligned: "4096 dvd unat (PGROUNDDOWN a)"
  by (simp add: unat_PGROUNDDOWN minus_mod_eq_div_mult)

lemma mod_PGSIZE_eq_0: "a mod PGSIZE = 0 \<longleftrightarrow> 4096 dvd unat a"
proof -
  have "a mod PGSIZE = 0 \<longleftrightarrow> unat (a mod PGSIZE) = 0" by (simp add: unat_eq_0)
  then show ?thesis by (simp add: unat_mod dvd_eq_mod_eq_0)
qed

section \<open>Entries and addresses\<close>

lemma high_bits:
  assumes "unat (a :: 'a::len word) < 2 ^ n" and "n \<le> k"
  shows "\<not> bit a k"
proof -
  have "take_bit n a = a" using assms(1) unat_take_bit [of n a] by (simp add: word_unat_eq_iff)
  then show ?thesis using assms(2) by (metis bit_take_bit_iff not_le)
qed

lemma low_bits:
  assumes "2 ^ n dvd unat (a :: 'a::len word)" and "k < n"
  shows "\<not> bit a k"
proof -
  have "unat (take_bit n a) = 0" using assms(1) by (simp only: unat_take_bit dvd_imp_mod_0)
  then have "take_bit n a = 0" by (simp only: unat_eq_0)
  then show ?thesis using assms(2) by (metis bit_take_bit_iff bit_0_eq bot_apply bot_bool_def)
qed

text \<open>A page-aligned physical address survives the way through an entry.\<close>

lemma PTE2PA_PA2PTE:
  assumes "4096 dvd unat pa" and "unat flags < 2 ^ 10"
  shows "PTE2PA (PA2PTE pa OR flags) = pa"
proof (rule bit_word_eqI)
  fix n assume n: "n < LENGTH(64)"
  have al: "2 ^ 12 dvd unat pa" using assms(1) by simp
  show "bit (PTE2PA (PA2PTE pa OR flags)) n = bit pa n"
  proof (cases "n < 12")
    case True
    then show ?thesis using low_bits [OF al] by (simp add: PTE2PA_def bit_simps)
  next
    case False
    then have eq: "12 + (n - 12) = n" by simp
    have "\<not> bit flags (10 + (n - 12))" by (rule high_bits [OF assms(2)]) simp
    then have "bit (PTE2PA (PA2PTE pa OR flags)) n \<longleftrightarrow> 10 \<le> n - 2 \<and> n - 2 < 64 \<and> bit pa n"
      using n False by (simp add: PTE2PA_def PA2PTE_def bit_push_bit_iff bit_drop_bit_eq bit_or_iff eq)
    moreover have "10 \<le> n - 2" using False by linarith
    moreover have "n - 2 < 64" using n by simp
    ultimately show ?thesis by blast
  qed
qed

lemma PTE_FLAGS_PA2PTE:
  assumes "unat flags < 2 ^ 10"
  shows "PTE_FLAGS (PA2PTE pa OR flags) = flags"
proof (rule bit_word_eqI)
  fix n assume n: "n < LENGTH(64)"
  have mask: "(0x3FF :: u64) = mask 10" by (simp add: mask_eq_exp_minus_1)
  show "bit (PTE_FLAGS (PA2PTE pa OR flags)) n = bit flags n"
    using n high_bits [OF assms, of n] unfolding PTE_FLAGS_def mask
    by (cases "n < 10") (auto simp: PA2PTE_def bit_simps)
qed

text \<open>Nine bits of index per level.\<close>

lemma PX_bound: "PX level va < 512"
proof -
  have "(0x1FF :: u64) = mask 9" by (simp add: mask_eq_exp_minus_1)
  then have "PX level va = take_bit 9 (drop_bit (PXSHIFT level) va)"
    by (simp add: PX_def take_bit_eq_mask)
  then have "unat (PX level va) = unat (drop_bit (PXSHIFT level) va) mod 2 ^ 9"
    by (simp only: unat_take_bit)
  then show ?thesis by (simp add: word_less_nat_alt)
qed

end
