(* ===== verification/Kernel_Mem.thy ===== *)
theory Kernel_Mem
  imports Buddy_Safety Slab_Reach Spinlock Riscv
begin

text \<open>
  The kernel's memory allocators: kernel/buddy\_alloc.c puts the buddy library behind a lock,
  kernel/kalloc.c hands out single pages, kernel/slab\_alloc.c runs four slab allocators on top.
  The kernel is compiled with an unsigned plain \<open>char\<close>.
\<close>

section \<open>Pages\<close>

definition BUDDY_LEVELS :: int where
  "BUDDY_LEVELS = 10"

text \<open>\<open>struct buddy_mem\<close>, the memory it manages, and the hart that executes.\<close>

record kmem =
  k_hart :: hart
  k_lock :: spinlock
  k_buddy :: buddy_allocator
  k_heap :: buddy_heap

text \<open>\<open>kend\<close> is the symbol \<open>end\<close> that the linker script defines.\<close>

definition buddy_init :: "u64 \<Rightarrow> kmem \<Rightarrow> kmem res" where
  "buddy_init kend w =
    (let w1 = w \<lparr> k_lock := initlock ''buddy_mem'' \<rparr>;
         first_page = PGROUNDUP kend;
         space_size = PHYSTOP - first_page
     in guardE (space_size mod PGSIZE = 0) (Panic ''buddy init'')
         (bindE (lib_buddy_init (k_buddy w1) BUDDY_LEVELS PGSIZE (space_size div PGSIZE) first_page (k_heap w1))
           (\<lambda>(res, mem, heap).
              guardE (res = 0) (Panic ''buddy init'')
                (Inr (w1 \<lparr> k_buddy := mem, k_heap := heap \<rparr>)))))"

definition buddy_alloc :: "u64 \<Rightarrow> kmem \<Rightarrow> (addr \<times> kmem) res" where
  "buddy_alloc pages w =
    bindE (acquire (k_lock w) (k_hart w)) (\<lambda>(lk, c).
      bindE (lib_buddy_alloc (k_buddy w) pages (k_heap w)) (\<lambda>(ptr, heap).
        bindE (release lk c) (\<lambda>(lk', c').
          Inr (ptr, w \<lparr> k_lock := lk', k_hart := c', k_heap := heap \<rparr>))))"

definition buddy_free :: "addr \<Rightarrow> kmem \<Rightarrow> kmem res" where
  "buddy_free addr w =
    bindE (acquire (k_lock w) (k_hart w)) (\<lambda>(lk, c).
      bindE (lib_buddy_free False (k_buddy w) addr (k_heap w)) (\<lambda>heap.
        bindE (release lk c) (\<lambda>(lk', c').
          Inr (w \<lparr> k_lock := lk', k_hart := c', k_heap := heap \<rparr>))))"

definition kinit :: "u64 \<Rightarrow> kmem \<Rightarrow> kmem res" where
  "kinit kend w = buddy_init kend w"

definition kfree :: "addr \<Rightarrow> kmem \<Rightarrow> kmem res" where
  "kfree pa w = buddy_free pa w"

definition kalloc :: "kmem \<Rightarrow> (addr \<times> kmem) res" where
  "kalloc w = buddy_alloc 1 w"

section \<open>Cells\<close>

definition pgbegin :: "addr \<Rightarrow> addr" where
  "pgbegin ptr = ptr - ptr mod PGSIZE"

record kslab_alloc_t =
  ks_lock :: spinlock
  ks_slab :: "kmem slab_alloc_t"

definition kslab_init ::
  "u32 \<Rightarrow> kslab_alloc_t \<Rightarrow> slab_heap \<times> kmem \<Rightarrow> (kslab_alloc_t \<times> slab_heap \<times> kmem) res" where
  "kslab_init ssize slab s =
    bindE (lib_slab_init (ucast PGSIZE) ssize buddy_alloc buddy_free pgbegin (ks_slab slab) s)
      (\<lambda>(sl, s'). Inr (slab \<lparr> ks_lock := initlock ''slab lock'', ks_slab := sl \<rparr>, s'))"

definition kslab_alloc :: "kslab_alloc_t \<Rightarrow> slab_heap \<times> kmem \<Rightarrow> (addr \<times> kslab_alloc_t \<times> slab_heap \<times> kmem) res" where
  "kslab_alloc slab = (\<lambda>(m, w).
    bindE (acquire (ks_lock slab) (k_hart w)) (\<lambda>(lk, c).
      bindE (lib_slab_alloc (ks_slab slab) (m, w \<lparr> k_hart := c \<rparr>)) (\<lambda>(res, m', w').
        bindE (release lk (k_hart w')) (\<lambda>(lk', c').
          Inr (res, slab \<lparr> ks_lock := lk' \<rparr>, m', w' \<lparr> k_hart := c' \<rparr>)))))"

definition kslab_free :: "kslab_alloc_t \<Rightarrow> addr \<Rightarrow> slab_heap \<times> kmem \<Rightarrow> (kslab_alloc_t \<times> slab_heap \<times> kmem) res" where
  "kslab_free slab ptr = (\<lambda>(m, w).
    bindE (acquire (ks_lock slab) (k_hart w)) (\<lambda>(lk, c).
      bindE (lib_slab_free (ks_slab slab) ptr (m, w \<lparr> k_hart := c \<rparr>)) (\<lambda>(m', w').
        bindE (release lk (k_hart w')) (\<lambda>(lk', c').
          Inr (slab \<lparr> ks_lock := lk' \<rparr>, m', w' \<lparr> k_hart := c' \<rparr>)))))"

text \<open>The sizes of the four structs (kernel/virtio.h, kernel/pipe.h) on RV64.\<close>

definition sizeof_virtq_desc :: u32 where "sizeof_virtq_desc = 16"
definition sizeof_virtq_avail :: u32 where "sizeof_virtq_avail = 22"
definition sizeof_virtq_used :: u32 where "sizeof_virtq_used = 68"
definition sizeof_pipe :: u32 where "sizeof_pipe = 552"

datatype SlabStructs = SLAB_virtq_desc | SLAB_virtq_avail | SLAB_virtq_used | SLAB_pipe

text \<open>The enumerators are the numbers from 0 on.\<close>

definition slab_of_int :: "int \<Rightarrow> SlabStructs option" where
  "slab_of_int i =
    (if i = 0 then Some SLAB_virtq_desc
     else if i = 1 then Some SLAB_virtq_avail
     else if i = 2 then Some SLAB_virtq_used
     else if i = 3 then Some SLAB_pipe
     else None)"

text \<open>The four globals \<open>slab_virtq_desc\<close> to \<open>slab_pipe\<close>, with slab memory and pages.\<close>

record kslabs =
  slabs :: "SlabStructs \<Rightarrow> kslab_alloc_t"
  sl_mem :: slab_heap
  sl_kmem :: kmem

definition slab_init1 :: "SlabStructs \<Rightarrow> u32 \<Rightarrow> kslabs \<Rightarrow> kslabs res" where
  "slab_init1 which ssize g =
    bindE (kslab_init ssize (slabs g which) (sl_mem g, sl_kmem g)) (\<lambda>(slab, m, w).
      Inr (g \<lparr> slabs := (slabs g)(which := slab), sl_mem := m, sl_kmem := w \<rparr>))"

definition slab_init :: "kslabs \<Rightarrow> kslabs res" where
  "slab_init g =
    bindE (slab_init1 SLAB_virtq_desc sizeof_virtq_desc g) (\<lambda>g.
    bindE (slab_init1 SLAB_virtq_avail sizeof_virtq_avail g) (\<lambda>g.
    bindE (slab_init1 SLAB_virtq_used sizeof_virtq_used g)
      (slab_init1 SLAB_pipe sizeof_pipe)))"

definition slab_alloc :: "int \<Rightarrow> kslabs \<Rightarrow> (addr \<times> kslabs) res" where
  "slab_alloc slab_struct g =
    (case slab_of_int slab_struct of
       None \<Rightarrow> Inl (Panic ''slab alloc'')
     | Some which \<Rightarrow>
         bindE (kslab_alloc (slabs g which) (sl_mem g, sl_kmem g)) (\<lambda>(res, slab, m, w).
           Inr (res, g \<lparr> slabs := (slabs g)(which := slab), sl_mem := m, sl_kmem := w \<rparr>)))"

definition slab_free :: "int \<Rightarrow> addr \<Rightarrow> kslabs \<Rightarrow> kslabs res" where
  "slab_free slab_struct ptr g =
    (case slab_of_int slab_struct of
       None \<Rightarrow> Inl (Panic ''slab free'')
     | Some which \<Rightarrow>
         bindE (kslab_free (slabs g which) ptr (sl_mem g, sl_kmem g)) (\<lambda>(slab, m, w).
           Inr (g \<lparr> slabs := (slabs g)(which := slab), sl_mem := m, sl_kmem := w \<rparr>)))"

section \<open>The page allocator keeps the contract of the slab library\<close>

text \<open>\<open>c\<close> is the hart before the calls; its interrupt state is the same after each of them.\<close>

definition kinv :: "hart \<Rightarrow> kmem \<Rightarrow> (addr \<times> u64) set \<Rightarrow> bool" where
  "kinv c w Own \<longleftrightarrow> reach_inv (k_buddy w) (k_heap w) Own \<and>
     b_pgsize (k_buddy w) = PGSIZE \<and> 4096 dvd unat (b_data (k_buddy w)) \<and>
     lock_free (k_lock w) \<and> hart_ok (k_hart w) \<and> same_hart c (k_hart w)"

lemma kinvD:
  assumes "kinv c w Own"
  shows "reach_inv (k_buddy w) (k_heap w) Own" and "b_pgsize (k_buddy w) = PGSIZE"
    and "4096 dvd unat (b_data (k_buddy w))" and "lock_free (k_lock w)" and "hart_ok (k_hart w)"
    and "same_hart c (k_hart w)"
  using assms by (simp_all add: kinv_def)

lemma buddy_alloc_run:
  assumes "kinv c w Own"
  obtains p heap c' where "lib_buddy_alloc (k_buddy w) n (k_heap w) = Inr (p, heap)"
    and "buddy_alloc n w = Inr (p, w \<lparr> k_hart := c', k_heap := heap \<rparr>)" and "hart_ok c'" and "same_hart c c'"
proof -
  note K = kinvD [OF assms]
  obtain p heap where l: "lib_buddy_alloc (k_buddy w) n (k_heap w) = Inr (p, heap)"
    using Buddy_Safety.alloc_total [OF K(1)] by blast
  obtain c' where c': "release ((k_lock w) \<lparr> lk_locked := 1, lk_cpu := Some (h_id (k_hart w)) \<rparr>)
      (push_off (k_hart w)) = Inr (k_lock w, c')" "hart_ok c'" "same_hart (k_hart w) c'"
    using release_acquired [OF K(4,5)] .
  have "buddy_alloc n w = Inr (p, w \<lparr> k_hart := c', k_heap := heap \<rparr>)"
    using l c'(1) acquire_free [OF K(4), of "k_hart w"] by (cases w) (simp add: buddy_alloc_def)
  then show thesis using that l c'(2) same_hart_trans [OF K(6) c'(3)] by blast
qed

lemma buddy_free_run:
  assumes "kinv c w Own" and "lib_buddy_free False (k_buddy w) p (k_heap w) = Inr heap"
  obtains c' where "buddy_free p w = Inr (w \<lparr> k_hart := c', k_heap := heap \<rparr>)" and "hart_ok c'" and "same_hart c c'"
proof -
  note K = kinvD [OF assms(1)]
  obtain c' where c': "release ((k_lock w) \<lparr> lk_locked := 1, lk_cpu := Some (h_id (k_hart w)) \<rparr>)
      (push_off (k_hart w)) = Inr (k_lock w, c')" "hart_ok c'" "same_hart (k_hart w) c'"
    using release_acquired [OF K(4,5)] .
  have "buddy_free p w = Inr (w \<lparr> k_hart := c', k_heap := heap \<rparr>)"
    using assms(2) c'(1) acquire_free [OF K(4), of "k_hart w"] by (cases w) (simp add: buddy_free_def)
  then show thesis using that c'(2) same_hart_trans [OF K(6) c'(3)] by blast
qed

lemma unat_pgbegin: "unat (pgbegin x) = unat x - unat x mod 4096"
proof -
  have "x mod PGSIZE \<le> x" by (simp add: word_le_nat_alt unat_mod)
  then show ?thesis by (simp add: pgbegin_def unat_sub unat_mod)
qed

lemma in_block_page_block: "b_pgsize a = PGSIZE \<Longrightarrow> page_block 4096 b x = in_block a b x"
  by (simp add: page_block_def in_block_def)

interpretation kp: page_provider buddy_alloc buddy_free pgbegin 4096 "kinv c" for c
proof unfold_locales
  fix w Own n
  assume "kinv c w Own"
  then show "\<exists>p w'. buddy_alloc n w = Inr (p, w')" by (rule buddy_alloc_run) blast
next
  fix w Own n p w'
  assume inv: "kinv c w Own" and al: "buddy_alloc n w = Inr (p, w')"
  obtain heap c' where r: "lib_buddy_alloc (k_buddy w) n (k_heap w) = Inr (p, heap)"
      "w' = w \<lparr> k_hart := c', k_heap := heap \<rparr>" "hart_ok c'" "same_hart c c'"
    using buddy_alloc_run [OF inv, of n] al by (metis Inr_inject Pair_inject)
  show "kinv c w' (if p = 0 then Own else insert (p, n) Own)"
    using kinvD [OF inv] reach_inv_alloc [OF kinvD(1) [OF inv] r(1)] r(2-4) by (simp add: kinv_def)
next
  fix w Own n p w' k
  assume inv: "kinv c w Own" and al: "buddy_alloc n w = Inr (p, w')" and nz: "p \<noteq> 0"
  obtain heap where "lib_buddy_alloc (k_buddy w) n (k_heap w) = Inr (p, heap)"
    using buddy_alloc_run [OF inv, of n] al by (metis Inr_inject Pair_inject)
  then show "(p, k) \<notin> Own" by (rule alloc_not_owned [OF kinvD(1) [OF inv] _ nz])
next
  fix w Own p n
  assume inv: "kinv c w Own" and p: "(p, n) \<in> Own"
  obtain heap where h: "lib_buddy_free False (k_buddy w) p (k_heap w) = Inr heap"
      "reach_inv (k_buddy w) heap (Own - {(p, n)})"
    using reach_inv_free [OF kinvD(1) [OF inv] p] by blast
  obtain c' where "buddy_free p w = Inr (w \<lparr> k_hart := c', k_heap := heap \<rparr>)" "hart_ok c'" "same_hart c c'"
    using buddy_free_run [OF inv h(1)] .
  then show "\<exists>w'. buddy_free p w = Inr w' \<and> kinv c w' (Own - {(p, n)})"
    using kinvD [OF inv] h(2) by (simp add: kinv_def)
next
  fix w Own b b' x
  assume inv: "kinv c w Own" and b: "b \<in> Own" "b' \<in> Own" "b \<noteq> b'"
  show "\<not> (page_block 4096 b x \<and> page_block 4096 b' x)"
    using own_disjoint [OF kinvD(1) [OF inv] b] in_block_page_block [OF kinvD(2) [OF inv]] by simp
next
  fix w Own p n
  assume inv: "kinv c w Own" and p: "(p, n) \<in> Own"
  show "0 < unat p \<and> 0 < unat n \<and> 4096 dvd unat p \<and> unat p + unat n * 4096 < 2 ^ 64"
    using own_bounds [OF kinvD(1) [OF inv] p] kinvD(2,3) [OF inv] by simp
next
  fix w Own
  assume inv: "kinv c w Own"
  show "finite Own \<and> card Own < 2 ^ 32" using own_finite [OF kinvD(1) [OF inv]] by blast
qed (simp_all add: unat_pgbegin)

section \<open>Booting\<close>

lemma unat_PHYSTOP: "unat PHYSTOP = 0x88000000"
  by (simp add: PHYSTOP_def KERNBASE_def)

text \<open>The arguments that \<open>buddy_init\<close> passes on, when at least one page lies between the kernel and \<open>PHYSTOP\<close>.\<close>

lemma boot_args:
  assumes "unat KERNBASE \<le> unat kend" and "unat kend + 4096 \<le> unat PHYSTOP"
  defines "fp \<equiv> PGROUNDUP kend" and "n \<equiv> (PHYSTOP - PGROUNDUP kend) div PGSIZE"
  shows "(PHYSTOP - fp) mod PGSIZE = 0" and "init_args 10 PGSIZE n fp" and "get_serv_pages 10 PGSIZE n \<le> n"
    and "4096 dvd unat fp" and "0 < unat n" and "unat n \<le> 0x8000"
proof -
  have k: "unat kend + 4095 < 2 ^ 64" using assms(2) by (simp add: unat_PHYSTOP)
  note r = PGROUNDUP_aligned [OF k]
  have k2: "0x80000000 \<le> unat fp" "unat fp \<le> 0x88000000" "4096 dvd unat fp" and lt: "unat fp < 0x88000000"
    using assms(1,2) r unfolding fp_def by (simp_all add: unat_PHYSTOP KERNBASE_def)
  show "4096 dvd unat fp" by (rule k2(3))
  have "fp \<le> PHYSTOP" using k2(2) by (simp add: word_le_nat_alt unat_PHYSTOP)
  then have sp: "unat (PHYSTOP - fp) = 0x88000000 - unat fp" by (simp add: unat_sub unat_PHYSTOP)
  have dv: "4096 dvd 0x88000000 - unat fp" using k2(3) by (intro dvd_diff_nat) simp_all
  then show "(PHYSTOP - fp) mod PGSIZE = 0" unfolding mod_PGSIZE_eq_0 sp .
  have n: "unat n * 4096 = 0x88000000 - unat fp"
    using dv sp unfolding n_def fp_def by (simp add: unat_div)
  have "0 < unat n * 4096" "unat n * 4096 \<le> 0x8000 * 4096" using lt k2(1) n by linarith+
  then show np: "0 < unat n" "unat n \<le> 0x8000" by simp_all
  show args: "init_args 10 PGSIZE n fp"
    using np(2) k2(1,2) n by (simp add: init_args_def mult.commute)
  have "(40 * nat 10 + unat n) div 4096 + 1 \<le> unat n"
  proof (cases "unat n = 1")
    case False
    then have "unat n div 4096 \<le> unat n div 2" by (intro div_le_mono2) simp_all
    have "(400 + unat n) div 4096 \<le> (400 + unat n) div 256" by (intro div_le_mono2) simp_all
    then show ?thesis using False np(1) by simp
  qed simp
  then show "get_serv_pages 10 PGSIZE n \<le> n" using unat_get_serv_pages [OF args] by (simp add: word_le_nat_alt)
qed

lemma buddy_init_boots:
  assumes "unat KERNBASE \<le> unat kend" and "unat kend + 4096 \<le> unat PHYSTOP" and "hart_ok (k_hart w)"
  obtains w' where "buddy_init kend w = Inr w'" and "kinv (k_hart w) w' {}"
proof -
  note a = boot_args [OF assms(1,2)]
  let ?n = "(PHYSTOP - PGROUNDUP kend) div PGSIZE" and ?fp = "PGROUNDUP kend"
  let ?a = "init_desc (k_buddy w) 10 PGSIZE ?n ?fp"
  obtain m' where m': "lib_buddy_init (k_buddy w) 10 PGSIZE ?n ?fp (k_heap w) = Inr (0, ?a, m')"
    using lib_buddy_init_establishes [OF a(2,3)] by blast
  let ?w = "w \<lparr> k_lock := initlock ''buddy_mem'', k_buddy := ?a, k_heap := m' \<rparr>"
  have "buddy_init kend w = Inr ?w" using m' a(1) by (simp add: buddy_init_def Let_def BUDDY_LEVELS_def)
  moreover have "4096 dvd unat (b_data ?a)"
  proof -
    note wf = init_desc_wf(1) [OF a(2,3), of "k_buddy w"]
    have s: "unat (get_serv_pages 10 PGSIZE ?n) \<le> 0x8000" using a(3,6) by (simp add: word_le_nat_alt)
    have "unat (PGSIZE * of_nat (unat (get_serv_pages 10 PGSIZE ?n))) = unat PGSIZE * unat (get_serv_pages 10 PGSIZE ?n)"
      using s by (intro unat_mult_of_nat) simp_all
    then have g: "unat (get_serv_pages 10 PGSIZE ?n * PGSIZE) = 4096 * unat (get_serv_pages 10 PGSIZE ?n)"
      by (simp add: mult.commute)
    have "unat ?fp \<le> 0x88000000"
      using PGROUNDUP_aligned(3) [of kend] assms(2) by (simp add: unat_PHYSTOP)
    then have "unat (?fp + get_serv_pages 10 PGSIZE ?n * PGSIZE) = unat ?fp + 4096 * unat (get_serv_pages 10 PGSIZE ?n)"
      using s unat_add_no_wrap [of ?fp "get_serv_pages 10 PGSIZE ?n * PGSIZE"] unfolding g by simp
    then show ?thesis using a(4) by (simp add: init_desc_def)
  qed
  ultimately have "kinv (k_hart w) ?w {}"
    using reach_inv_init [OF a(2) m'] assms(3)
    by (simp add: kinv_def init_desc_def lock_free_def initlock_def)
  then show thesis using that \<open>buddy_init kend w = Inr ?w\<close> by blast
qed

section \<open>Locked slab operations\<close>

lemma kinv_push_off:
  assumes "kinv c w Own"
  shows "kinv (push_off (k_hart w)) (w \<lparr> k_hart := push_off (k_hart w) \<rparr>) Own"
  using kinvD [OF assms] by (simp add: kinv_def hart_ok_push_off)

lemma kinv_set_hart:
  assumes "kinv c w Own" and "hart_ok c'"
  shows "kinv c' (w \<lparr> k_hart := c' \<rparr>) Own"
  using kinvD [OF assms(1)] assms(2) by (simp add: kinv_def)

lemma slab_inv_transfer:
  assumes "slab_inv P slab (m, w) L U serv Rest" and "\<And>Own. P w Own \<Longrightarrow> Q w' Own"
  shows "slab_inv Q slab (m, w') L U serv Rest"
  using assms by (simp add: slab_inv_def)

lemma sreach_transfer:
  assumes "kp.sreach_inv c slab m w C Oth" and "\<And>Own. kinv c w Own \<Longrightarrow> kinv c' w' Own"
  shows "kp.sreach_inv c' slab m w' C Oth"
  using assms slab_inv_transfer [of "kinv c" slab m w _ _ _ _ "kinv c'" w']
  unfolding kp.sreach_inv_def by blast

lemma release_same:
  assumes "lock_free lk" and "hart_ok c" and "hart_ok d" and "same_hart (push_off c) d"
  obtains c' where "release (lk \<lparr> lk_locked := 1, lk_cpu := Some (h_id c) \<rparr>) d = Inr (lk, c')"
    and "hart_ok c'" and "same_hart c c'"
proof -
  have d: "h_id d = h_id c" "h_noff d = h_noff c + 1" "\<not> h_intr d" "h_intena d = h_intena (push_off c)"
    using assms(2,4) by (simp_all add: same_hart_def push_off_fields hart_ok_def)
  let ?c' = "d \<lparr> h_noff := h_noff c, h_intr := (h_noff c = 0 \<and> h_intr c) \<rparr>"
  have "release (lk \<lparr> lk_locked := 1, lk_cpu := Some (h_id c) \<rparr>) d = Inr (lk, ?c')"
    using assms(1,2) d
    by (cases lk; cases c; cases d)
      (auto simp: lock_free_def hart_ok_def release_def holding_def pop_off_def push_off_def Let_def)
  moreover have "hart_ok ?c'" using assms(2) by (simp add: hart_ok_def)
  moreover have "same_hart c ?c'" using assms(2) d by (auto simp: same_hart_def hart_ok_def push_off_def Let_def)
  ultimately show thesis by (rule that)
qed

text \<open>Behind its lock the slab allocator does what the library does, and the lock is free again.\<close>

lemma kslab_alloc_locked:
  assumes inv: "kp.sreach_inv c (ks_slab k) m w C Oth" and lk: "lock_free (ks_lock k)" and ok: "hart_ok (k_hart w)"
  shows "(\<exists>p m' w'. kslab_alloc k (m, w) = Inr (p, k, m', w') \<and> p \<notin> C \<and>
      kp.sreach_inv (k_hart w) (ks_slab k) m' w' (insert p C) Oth \<and> same_hart (k_hart w) (k_hart w')) \<or>
    kslab_alloc k (m, w) = Inl (AssertFailed Slab_alloc_c 167)"
proof -
  let ?w = "w \<lparr> k_hart := push_off (k_hart w) \<rparr>"
  have inv1: "kp.sreach_inv (push_off (k_hart w)) (ks_slab k) m ?w C Oth"
    using sreach_transfer [OF inv] kinv_push_off by blast
  note acq = acquire_free [OF lk, of "k_hart w"]
  from kp.sreach_alloc [OF inv1] show ?thesis
  proof (elim disjE exE conjE)
    fix p m' w'
    assume r: "lib_slab_alloc (ks_slab k) (m, ?w) = Inr (p, m', w')" "p \<notin> C"
      "kp.sreach_inv (push_off (k_hart w)) (ks_slab k) m' w' (insert p C) Oth"
    obtain Own where K: "kinv (push_off (k_hart w)) w' Own"
      using r(3) slab_invD(4) unfolding kp.sreach_inv_def by (metis snd_conv)
    obtain c' where c': "release ((ks_lock k) \<lparr> lk_locked := 1, lk_cpu := Some (h_id (k_hart w)) \<rparr>) (k_hart w') =
        Inr (ks_lock k, c')" "hart_ok c'" "same_hart (k_hart w) c'"
      using release_same [OF lk ok kinvD(5,6) [OF K]] .
    have "kslab_alloc k (m, w) = Inr (p, k, m', w' \<lparr> k_hart := c' \<rparr>)"
      using acq r(1) c'(1) by (cases k) (simp add: kslab_alloc_def)
    moreover have "kp.sreach_inv (k_hart w) (ks_slab k) m' (w' \<lparr> k_hart := c' \<rparr>) (insert p C) Oth"
    proof (rule sreach_transfer [OF r(3)])
      fix Own assume "kinv (push_off (k_hart w)) w' Own"
      from kinv_set_hart [OF this c'(2)] show "kinv (k_hart w) (w' \<lparr> k_hart := c' \<rparr>) Own"
        using c'(3) by (simp add: kinv_def)
    qed
    ultimately show ?thesis using r(2) c'(3) by auto
  qed (use acq in \<open>simp add: kslab_alloc_def\<close>)
qed

end
