(* ===== verification/Slab_Runs.thy ===== *)
theory Slab_Runs
  imports Kernel_Mem Buddy_Bugs
begin

text \<open>
  Concrete runs of the slab library on the kernel's page allocator, over a small zeroed memory:
  three cells of 1300 bytes fit into a page of 4096 bytes.
\<close>

section \<open>Scripts\<close>

text \<open>Take a cell, or give back the cell that the \<open>i\<close>-th \<open>Take\<close> returned.\<close>

datatype slab_op = Take | Give nat

fun run_slab ::
  "slab_op list \<Rightarrow> kmem slab_alloc_t \<Rightarrow> slab_heap \<times> kmem \<Rightarrow> addr list \<Rightarrow> ((slab_heap \<times> kmem) \<times> addr list) res" where
  "run_slab [] slab s cs = Inr (s, cs)"
| "run_slab (Take # ops) slab s cs =
     bindE (lib_slab_alloc slab s) (\<lambda>(c, s'). run_slab ops slab s' (cs @ [c]))"
| "run_slab (Give i # ops) slab s cs =
     bindE (lib_slab_free slab (cs ! i) s) (\<lambda>s'. run_slab ops slab s' cs)"

definition zero_slab_heap :: slab_heap where
  "zero_slab_heap = \<lparr>sp_next = (\<lambda>_. 0), sp_prev = (\<lambda>_. 0), sp_list = (\<lambda>_. 0), sp_used = (\<lambda>_. 0),
     sl_len = (\<lambda>_. 0), s_byte = (\<lambda>_. 0)\<rparr>"

definition boot_hart :: hart where
  "boot_hart = \<lparr>h_id = 0, h_noff = 0, h_intena = False, h_intr = False\<rparr>"

definition no_slab :: "kmem slab_alloc_t" where
  "no_slab = \<lparr>sl_lists = 0, sl_pgsize = 0, sl_ssize = 0, sl_cells = 0,
     sl_buddy_alloc = buddy_alloc, sl_buddy_free = buddy_free, sl_pgbegin = pgbegin\<rparr>"

text \<open>Four pages from address 4096 on, one of them for the metadata.\<close>

definition small_kmem :: "kmem res" where
  "small_kmem =
    bindE (lib_buddy_init no_alloc 1 4096 4 4096 zero_heap) (\<lambda>(r, a, h).
      Inr \<lparr>k_hart = boot_hart, k_lock = initlock [], k_buddy = a, k_heap = h\<rparr>)"

definition small_slab :: "(kmem slab_alloc_t \<times> slab_heap \<times> kmem) res" where
  "small_slab =
    bindE small_kmem (\<lambda>w.
      lib_slab_init 4096 1300 buddy_alloc buddy_free pgbegin no_slab (zero_slab_heap, w))"

definition run_small :: "slab_op list \<Rightarrow> (addr list) res" where
  "run_small ops =
    bindE small_slab (\<lambda>(slab, s). bindE (run_slab ops slab s []) (\<lambda>(s', cs). Inr cs))"

section \<open>The small allocator satisfies the invariant\<close>

lemma small_kmem_inv:
  obtains w where "small_kmem = Inr w" and "kinv boot_hart w {}"
proof -
  have args: "init_args 1 4096 4 4096" by (simp add: init_args_def)
  have fits: "get_serv_pages 1 4096 4 \<le> 4" by code_simp
  let ?a = "init_desc no_alloc 1 4096 4 4096"
  obtain h where h: "lib_buddy_init no_alloc 1 4096 4 4096 zero_heap = Inr (0, ?a, h)"
    using lib_buddy_init_establishes [OF args fits] by blast
  let ?w = "\<lparr>k_hart = boot_hart, k_lock = initlock [], k_buddy = ?a, k_heap = h\<rparr>"
  have data: "b_data ?a = 8192" by code_simp
  have "b_pgsize ?a = PGSIZE" by (simp add: init_desc_def PGSIZE_def)
  then have "kinv boot_hart ?w {}"
    using reach_inv_init [OF args h] data
    by (simp add: kinv_def lock_free_def initlock_def hart_ok_def boot_hart_def)
  moreover have "small_kmem = Inr ?w" using h by (simp add: small_kmem_def)
  ultimately show thesis using that by blast
qed

lemma small_args: "slab_args 4096 1300" "unat (4096 :: u32) = 4096"
  by (simp_all add: slab_args_def)

lemma small_slab_reach:
  obtains slab m w where "small_slab = Inr (slab, m, w)"
    and "slab_reach (kinv boot_hart) buddy_alloc buddy_free pgbegin 4096 1300 slab m w {} {}"
proof -
  obtain w where w: "small_kmem = Inr w" "kinv boot_hart w {}" using small_kmem_inv .
  have run: "small_slab = lib_slab_init 4096 1300 buddy_alloc buddy_free pgbegin no_slab (zero_slab_heap, w)"
    unfolding small_slab_def w(1) by simp
  have "\<not> isl small_slab" by code_simp
  then obtain x where x: "small_slab = Inr x" using sum.collapse(2) by metis
  obtain slab m' w' where "x = (slab, m', w')" by (rule prod_cases3)
  then have i: "lib_slab_init 4096 1300 buddy_alloc buddy_free pgbegin no_slab (zero_slab_heap, w) = Inr (slab, m', w')"
    using x run by simp
  show thesis using that run i slab_reach.init [of "kinv boot_hart", OF w(2) i] by simp
qed

lemma run_slab_takes_reach:
  assumes "run_slab (replicate k Take) slab (m, w) cs = Inr (s', cs')"
    and "slab_reach P pa pf pb pgs ss slab m w (set cs) Oth"
  shows "slab_reach P pa pf pb pgs ss slab (fst s') (snd s') (set cs') Oth"
  using assms
proof (induction k arbitrary: m w cs)
  case 0
  then have "s' = (m, w)" "cs' = cs" by simp_all
  then show ?case using 0(2) by simp
next
  case (Suc k)
  obtain c m1 w1 where c: "lib_slab_alloc slab (m, w) = Inr (c, m1, w1)"
      "run_slab (replicate k Take) slab (m1, w1) (cs @ [c]) = Inr (s', cs')"
    using Suc.prems(1) by (auto simp: bindE_eq_Inr)
  have "slab_reach P pa pf pb pgs ss slab m1 w1 (set (cs @ [c])) Oth"
    using slab_reach.alloc [OF Suc.prems(2) c(1)] by simp
  then show ?case by (rule Suc.IH [OF c(2)])
qed

section \<open>Two cells, and a run that ends badly\<close>

lemma two_cells_run: "run_small [Take, Take] = Inr [12320, 13620]"
  by code_simp

lemma two_cells_reach:
  obtains slab m w where "slab_reach (kinv boot_hart) buddy_alloc buddy_free pgbegin 4096 1300 slab m w {12320, 13620} {}"
proof -
  obtain slab m w where s: "small_slab = Inr (slab, m, w)"
      "slab_reach (kinv boot_hart) buddy_alloc buddy_free pgbegin 4096 1300 slab m w (set []) {}"
    using small_slab_reach by (metis list.set(1))
  have "bindE (run_slab (replicate 2 Take) slab (m, w) []) (\<lambda>(s', cs). Inr cs) = Inr [12320, 13620]"
    using two_cells_run unfolding run_small_def s(1) by (simp add: numeral_2_eq_2)
  then obtain s' where "run_slab (replicate 2 Take) slab (m, w) [] = Inr (s', [12320, 13620])"
    unfolding bindE_eq_Inr by auto
  from run_slab_takes_reach [OF this s(2)] show thesis using that by simp
qed

definition lost_page_script :: "slab_op list" where
  "lost_page_script = [Take, Take, Take, Take, Give 2, Give 0, Give 3, Take]"

lemma lost_page_run: "run_small lost_page_script = Inl NullDeref"
  by code_simp

end
