(* ===== verification/Memory_Props.thy ===== *)
theory Memory_Props
  imports Slab_Runs
begin

text \<open>
  The properties of the slab library on the kernel's page allocator, of the boot of the page
  allocator, and of the spin locks around them, each with a concrete instance.
\<close>

section \<open>Slab allocator\<close>








text \<open>C19: one cell per page is not enough.  When a page has room for a single cell only, the first allocation on a new
  page moves the page to a list that does not exist.\<close>

theorem slab_single_cell_out_of_bounds:
  assumes "sl_cells slab = 1" and "sl_buddy_alloc slab 1 w = Inr (page, w')" and "page \<noteq> 0"
    and "l = sl_lists slab" and "l \<noteq> 0" and "page \<noteq> l"
    and "sp_list m l = l" and "sp_used m l = 0" and "sl_len m l = 0"
  shows "lib_slab_alloc slab (m, w) = Inl OutOfBounds"
  using assms
  by (simp add: lib_slab_alloc_def new_page_def slab_list_at_def slab_list_addr_def slab_list_add_def
      slab_list_insert_def page_alloc_cell_def slab_list_remove_def set_byte_def Let_def)

theorem slab_single_cell_out_of_bounds_witness:
  "\<forall>w. lib_slab_alloc (no_slab \<lparr> sl_cells := 1, sl_lists := 4096, sl_buddy_alloc := \<lambda>n w. Inr (8192, w) \<rparr>)
     (slab_list_init 4096 0 zero_slab_heap, w) = Inl OutOfBounds"
  by (intro allI, rule slab_single_cell_out_of_bounds [where l = 4096 and page = 8192])
    (simp_all add: no_slab_def slab_list_init_def zero_slab_heap_def)

section \<open>Boot\<close>

text \<open>C20: the page allocator boots.  With at least one page between the end of the kernel and \<open>PHYSTOP\<close>, \<open>buddy_init\<close>
  succeeds, whatever memory held before; the allocator's invariant holds, no block is handed
  out, the lock is free and the hart's interrupt state is what it was.\<close>

theorem buddy_init_establishes:
  assumes "unat KERNBASE \<le> unat kend" and "unat kend + 4096 \<le> unat PHYSTOP" and "hart_ok (k_hart w)"
  shows "\<exists>w'. buddy_init kend w = Inr w' \<and> reach_inv (k_buddy w') (k_heap w') {} \<and>
    lock_free (k_lock w') \<and> same_hart (k_hart w) (k_hart w')"
  using buddy_init_boots [OF assms] kinvD(1,4,6) by metis

theorem buddy_init_establishes_witness:
  "\<exists>w'. buddy_init 0x80021d40 \<lparr>k_hart = boot_hart, k_lock = initlock [], k_buddy = no_alloc, k_heap = zero_heap\<rparr> = Inr w' \<and>
     reach_inv (k_buddy w') (k_heap w') {}"
  using buddy_init_establishes
    [of "0x80021d40" "\<lparr>k_hart = boot_hart, k_lock = initlock [], k_buddy = no_alloc, k_heap = zero_heap\<rparr>"]
  by (auto simp: KERNBASE_def unat_PHYSTOP hart_ok_def boot_hart_def)

section \<open>Spin locks\<close>

text \<open>C21: mutual exclusion.  Any number of harts that compete for one lock: two harts are never between their swap
  and their store that frees the lock, the hart in the critical section has its interrupts
  off, and neither \<open>acquire\<close> nor \<open>release\<close> nor \<open>pop_off\<close> panics.\<close>

theorem spinlock_mutual_exclusion:
  assumes "lock_reach name hs s"
  shows "(\<forall>h h'. s_pc s h = Critical \<and> s_pc s h' = Critical \<longrightarrow> h = h') \<and>
    (\<forall>h. s_pc s h = Critical \<longrightarrow> \<not> h_intr (s_hart s h)) \<and>
    (\<forall>h r. lock_step h s r \<longrightarrow> (\<exists>s'. r = Inr s'))"
proof (intro conjI)
  have inv: "smp_inv s" by (rule lock_reach_inv [OF assms])
  then obtain w where H: "harts_ok s" and W: "owned_by s w" by (auto simp: smp_inv_def)
  show "\<forall>h h'. s_pc s h = Critical \<and> s_pc s h' = Critical \<longrightarrow> h = h'"
    using owned_by_self(1) [OF W] by (metis option.inject owns_def)
  show "\<forall>h. s_pc s h = Critical \<longrightarrow> \<not> h_intr (s_hart s h)"
    using H unfolding harts_ok_def hart_ok_def by (metis lock_pc.distinct(5))
  show "\<forall>h r. lock_step h s r \<longrightarrow> (\<exists>s'. r = Inr s')" using lock_step_inv [OF inv] by blast
qed

definition demo_harts :: "nat \<Rightarrow> hart" where
  "demo_harts h = \<lparr>h_id = h, h_noff = 0, h_intena = False, h_intr = True\<rparr>"

lemma enter_spinning:
  assumes "lock_reach name hs s" and "s_pc s h = Outside"
  shows "lock_reach name hs (s \<lparr> s_hart := (s_hart s)(h := push_off (s_hart s h)), s_pc := (s_pc s)(h := Spinning) \<rparr>)"
proof -
  let ?s' = "s \<lparr> s_hart := (s_hart s)(h := push_off (s_hart s h)), s_pc := (s_pc s)(h := Spinning) \<rparr>"
  note st = lock_step.enter [OF assms(2) refl]
  obtain t where "guardE (\<not> holding (s_lock s) (push_off (s_hart s h))) (Panic ''acquire'') (Inr ?s') = Inr t"
    using lock_step_inv [OF lock_reach_inv [OF assms(1)] st] by blast
  then have "lock_step h s (Inr ?s')" using st by (simp add: guardE_eq_Inr)
  then show ?thesis by (rule lock_reach.step [OF assms(1)])
qed

lemma demo_start: "lock_reach ''lk'' demo_harts (smp_init ''lk'' demo_harts)"
  by (rule lock_reach.start) (simp add: demo_harts_def hart_ok_def)

text \<open>Hart 0 has taken the lock and hart 1 spins on it.\<close>

lemma demo_contended: "\<exists>s. lock_reach ''lk'' demo_harts s \<and> s_pc s 0 = Swapped \<and> s_pc s 1 = Spinning"
proof -
  let ?s0 = "smp_init ''lk'' demo_harts"
  let ?s1 = "?s0 \<lparr> s_hart := (s_hart ?s0)(0 := push_off (s_hart ?s0 0)), s_pc := (s_pc ?s0)(0 := Spinning) \<rparr>"
  let ?s2 = "?s1 \<lparr> s_lock := (s_lock ?s1) \<lparr> lk_locked := 1 \<rparr>, s_pc := (s_pc ?s1)(0 := Swapped) \<rparr>"
  have "lock_reach ''lk'' demo_harts ?s1" by (rule enter_spinning [OF demo_start]) (simp add: smp_init_def)
  moreover have "lock_step 0 ?s1 (Inr ?s2)" by (rule lock_step.swap) (simp_all add: smp_init_def initlock_def)
  ultimately have "lock_reach ''lk'' demo_harts ?s2" by (rule lock_reach.step)
  from enter_spinning [OF this, of 1] show ?thesis by (force simp: smp_init_def)
qed

theorem spinlock_mutual_exclusion_witness:
  "\<exists>s. lock_reach ''lk'' demo_harts s \<and> s_pc s 0 = Swapped \<and> s_pc s 1 = Spinning \<and>
    (\<forall>h r. lock_step h s r \<longrightarrow> (\<exists>s'. r = Inr s'))"
proof -
  obtain s where s: "lock_reach ''lk'' demo_harts s" "s_pc s 0 = Swapped" "s_pc s 1 = Spinning"
    using demo_contended by blast
  then show ?thesis using spinlock_mutual_exclusion [OF s(1)] by blast
qed

text \<open>C22: locks are passed on.  In every reachable state in which a hart owns the lock, that hart can free it by steps
  of its own, and a hart that was spinning then takes the lock with its next step.\<close>

theorem spinlock_progress:
  assumes "lock_reach name hs s" and "owns (s_pc s h)" and "s_pc s h' = Spinning"
  shows "\<exists>s' s''. own_steps h s s' \<and> lock_step h' s' (Inr s'') \<and> owns (s_pc s'' h')"
proof -
  obtain s' where s': "own_steps h s s'" "lk_locked (s_lock s') = 0" "\<forall>g. g \<noteq> h \<longrightarrow> s_pc s' g = s_pc s g"
    using owner_frees [OF lock_reach_inv [OF assms(1)] assms(2)] by blast
  have "h' \<noteq> h" using assms(2,3) by (auto simp: owns_def)
  then have "s_pc s' h' = Spinning" using s'(3) assms(3) by simp
  from lock_step.swap [OF this s'(2)] show ?thesis using s'(1) by (force simp: owns_def)
qed

theorem spinlock_progress_witness:
  "\<exists>s s' s''. lock_reach ''lk'' demo_harts s \<and> own_steps 0 s s' \<and> lock_step 1 s' (Inr s'') \<and> owns (s_pc s'' 1)"
proof -
  obtain s where s: "lock_reach ''lk'' demo_harts s" "s_pc s 0 = Swapped" "s_pc s 1 = Spinning"
    using demo_contended by blast
  have "owns (s_pc s 0)" using s(2) by (simp add: owns_def)
  from spinlock_progress [OF s(1) this s(3)] show ?thesis using s(1) by blast
qed

end
