(* ===== verification/Cstring.thy ===== *)
theory Cstring
  imports Prelude
begin

text \<open>
  The string and memory functions of the kernel (kernel/string.c) and of the user library
  (user/ulib.c), over a byte-addressed memory.  Loops that run until a NUL byte may run forever on
  a memory without one; they are \<open>None\<close> then.
\<close>

type_synonym cmem = "addr \<Rightarrow> u8"

section \<open>Kernel\<close>

text \<open>The index of \<open>memset\<close> is an \<open>int\<close>; from \<open>2 ^ 31\<close> on it is negative as an array index.\<close>

definition memset :: "addr \<Rightarrow> int \<Rightarrow> u32 \<Rightarrow> cmem \<Rightarrow> cmem" where
  "memset dst c n m = fold (\<lambda>i m. m(dst + word_of_int (signed_take_bit 31 (int i)) := word_of_int c))
     [0..<unat n] m"

fun memcmp_loop :: "nat \<Rightarrow> addr \<Rightarrow> addr \<Rightarrow> cmem \<Rightarrow> int" where
  "memcmp_loop 0 s1 s2 m = 0"
| "memcmp_loop (Suc n) s1 s2 m =
    (if m s1 \<noteq> m s2 then uint (m s1) - uint (m s2) else memcmp_loop n (s1 + 1) (s2 + 1) m)"

definition memcmp :: "addr \<Rightarrow> addr \<Rightarrow> u32 \<Rightarrow> cmem \<Rightarrow> int" where
  "memcmp v1 v2 n m = memcmp_loop (unat n) v1 v2 m"

fun copy_up :: "nat \<Rightarrow> addr \<Rightarrow> addr \<Rightarrow> cmem \<Rightarrow> cmem" where
  "copy_up 0 d s m = m"
| "copy_up (Suc n) d s m = copy_up n (d + 1) (s + 1) (m(d := m s))"

fun copy_down :: "nat \<Rightarrow> addr \<Rightarrow> addr \<Rightarrow> cmem \<Rightarrow> cmem" where
  "copy_down 0 d s m = m"
| "copy_down (Suc n) d s m = copy_down n (d - 1) (s - 1) (m(d - 1 := m (s - 1)))"

definition memmove :: "addr \<Rightarrow> addr \<Rightarrow> u32 \<Rightarrow> cmem \<Rightarrow> cmem" where
  "memmove dst src n m =
    (if n = 0 then m
     else if src < dst \<and> src + ucast n > dst
       then copy_down (unat n) (dst + ucast n) (src + ucast n) m
       else copy_up (unat n) dst src m)"

definition memcpy :: "addr \<Rightarrow> addr \<Rightarrow> u32 \<Rightarrow> cmem \<Rightarrow> cmem" where
  "memcpy dst src n m = memmove dst src n m"

fun strncmp_loop :: "nat \<Rightarrow> addr \<Rightarrow> addr \<Rightarrow> cmem \<Rightarrow> int" where
  "strncmp_loop 0 p q m = 0"
| "strncmp_loop (Suc n) p q m =
    (if m p \<noteq> 0 \<and> m p = m q then strncmp_loop n (p + 1) (q + 1) m else uint (m p) - uint (m q))"

definition strncmp :: "addr \<Rightarrow> addr \<Rightarrow> u32 \<Rightarrow> cmem \<Rightarrow> int" where
  "strncmp p q n m = strncmp_loop (unat n) p q m"

text \<open>The first loop of \<open>strncpy\<close>; it leaves the number of bytes still to be filled.\<close>

fun strncpy_copy :: "nat \<Rightarrow> addr \<Rightarrow> addr \<Rightarrow> cmem \<Rightarrow> nat \<times> addr \<times> cmem" where
  "strncpy_copy 0 s t m = (0, s, m)"
| "strncpy_copy (Suc n) s t m =
    (let m1 = m(s := m t) in if m t \<noteq> 0 then strncpy_copy n (s + 1) (t + 1) m1 else (n, s + 1, m1))"

fun strncpy_pad :: "nat \<Rightarrow> addr \<Rightarrow> cmem \<Rightarrow> cmem" where
  "strncpy_pad 0 s m = m"
| "strncpy_pad (Suc n) s m = strncpy_pad n (s + 1) (m(s := 0))"

definition strncpy :: "addr \<Rightarrow> addr \<Rightarrow> int \<Rightarrow> cmem \<Rightarrow> cmem" where
  "strncpy s t n m = (case strncpy_copy (nat n) s t m of (k, s', m') \<Rightarrow> strncpy_pad k s' m')"

fun safestrcpy_loop :: "nat \<Rightarrow> addr \<Rightarrow> addr \<Rightarrow> cmem \<Rightarrow> cmem" where
  "safestrcpy_loop 0 s t m = m(s := 0)"
| "safestrcpy_loop (Suc n) s t m =
    (let m1 = m(s := m t) in if m t \<noteq> 0 then safestrcpy_loop n (s + 1) (t + 1) m1 else m1(s + 1 := 0))"

definition safestrcpy :: "addr \<Rightarrow> addr \<Rightarrow> int \<Rightarrow> cmem \<Rightarrow> cmem" where
  "safestrcpy s t n m = (if n \<le> 0 then m else safestrcpy_loop (nat (n - 1)) s t m)"

partial_function (option) strlen_loop :: "cmem \<Rightarrow> addr \<Rightarrow> nat \<Rightarrow> nat option" where
  "strlen_loop m s n = (if m (s + of_nat n) = 0 then Some n else strlen_loop m s (n + 1))"

declare strlen_loop.simps [code]

definition strlen :: "addr \<Rightarrow> cmem \<Rightarrow> nat option" where
  "strlen s m = strlen_loop m s 0"

section \<open>User library\<close>

partial_function (option) strcpy :: "addr \<Rightarrow> addr \<Rightarrow> cmem \<Rightarrow> cmem option" where
  "strcpy s t m = (let m1 = m(s := m t) in if m t \<noteq> 0 then strcpy (s + 1) (t + 1) m1 else Some m1)"

partial_function (option) strcmp :: "addr \<Rightarrow> addr \<Rightarrow> cmem \<Rightarrow> int option" where
  "strcmp p q m =
    (if m p \<noteq> 0 \<and> m p = m q then strcmp (p + 1) (q + 1) m else Some (uint (m p) - uint (m q)))"

partial_function (option) strchr :: "addr \<Rightarrow> u8 \<Rightarrow> cmem \<Rightarrow> addr option" where
  "strchr s c m =
    (if m s = 0 then Some 0 else if m s = c then Some s else strchr (s + 1) c m)"

declare strcpy.simps [code] strcmp.simps [code] strchr.simps [code]

partial_function (option) u_strlen_loop :: "cmem \<Rightarrow> addr \<Rightarrow> nat \<Rightarrow> nat option" where
  "u_strlen_loop m s n = (if m (s + of_nat n) = 0 then Some n else u_strlen_loop m s (n + 1))"

declare u_strlen_loop.simps [code]

definition u_strlen :: "addr \<Rightarrow> cmem \<Rightarrow> u32 option" where
  "u_strlen s m = map_option of_nat (u_strlen_loop m s 0)"

definition u_memset :: "addr \<Rightarrow> int \<Rightarrow> u32 \<Rightarrow> cmem \<Rightarrow> cmem" where
  "u_memset dst c n m =
    fold (\<lambda>i m. m(dst + word_of_int (signed_take_bit 31 (int i)) := word_of_int c)) [0..<unat n] m"

text \<open>\<open>n*10 + *s++ - '0'\<close> in 32-bit arithmetic.\<close>

partial_function (option) atoi_loop :: "cmem \<Rightarrow> addr \<Rightarrow> int \<Rightarrow> int option" where
  "atoi_loop m s n =
    (if 48 \<le> m s \<and> m s \<le> 57
     then atoi_loop m (s + 1) (signed_take_bit 31 (n * 10 + uint (m s) - 48))
     else Some n)"

declare atoi_loop.simps [code]

definition atoi :: "addr \<Rightarrow> cmem \<Rightarrow> int option" where
  "atoi s m = atoi_loop m s 0"

definition u_memmove :: "addr \<Rightarrow> addr \<Rightarrow> int \<Rightarrow> cmem \<Rightarrow> cmem" where
  "u_memmove vdst vsrc n m =
    (if vsrc > vdst then copy_up (nat n) vdst vsrc m
     else copy_down (nat n) (vdst + word_of_int n) (vsrc + word_of_int n) m)"

definition u_memcpy :: "addr \<Rightarrow> addr \<Rightarrow> u32 \<Rightarrow> cmem \<Rightarrow> cmem" where
  "u_memcpy dst src n m = u_memmove dst src (sint n) m"

text \<open>The user library compares plain \<open>char\<close>, which is unsigned on RISC-V.\<close>

fun u_memcmp_loop :: "bool \<Rightarrow> nat \<Rightarrow> addr \<Rightarrow> addr \<Rightarrow> cmem \<Rightarrow> int" where
  "u_memcmp_loop cs 0 p1 p2 m = 0"
| "u_memcmp_loop cs (Suc n) p1 p2 m =
    (if m p1 \<noteq> m p2 then int_of_char cs (m p1) - int_of_char cs (m p2)
     else u_memcmp_loop cs n (p1 + 1) (p2 + 1) m)"

definition u_memcmp :: "bool \<Rightarrow> addr \<Rightarrow> addr \<Rightarrow> u32 \<Rightarrow> cmem \<Rightarrow> int" where
  "u_memcmp cs s1 s2 n m = u_memcmp_loop cs (unat n) s1 s2 m"

text \<open>
  \<open>gets\<close> reads from file descriptor 0 one byte at a time; \<open>rd\<close> is that system call, which returns
  the number of bytes and the byte.
\<close>

function gets_loop :: "('s \<Rightarrow> int \<times> u8 \<times> 's) \<Rightarrow> addr \<Rightarrow> int \<Rightarrow> int \<Rightarrow> cmem \<times> 's \<Rightarrow> cmem \<times> 's" where
  "gets_loop rd buf mx i (m, s) =
    (if i + 1 < mx then
       (case rd s of (cc, c, s') \<Rightarrow>
          if cc < 1 then (m(buf + word_of_int i := 0), s')
          else
            (let m1 = m(buf + word_of_int i := c) in
             if c = 10 \<or> c = 13 then (m1(buf + word_of_int (i + 1) := 0), s')
             else gets_loop rd buf mx (i + 1) (m1, s')))
     else (m(buf + word_of_int i := 0), s))"
  by pat_completeness auto
termination
  by (relation "measure (\<lambda>(rd, buf, mx, i, m, s). nat (mx - i))") auto

definition gets :: "('s \<Rightarrow> int \<times> u8 \<times> 's) \<Rightarrow> addr \<Rightarrow> int \<Rightarrow> cmem \<times> 's \<Rightarrow> cmem \<times> 's" where
  "gets rd buf mx = gets_loop rd buf mx 0"

text \<open>\<open>stat\<close> over the system calls \<open>open\<close>, \<open>fstat\<close> and \<open>close\<close>; the record they fill is part of the state.\<close>

definition u_stat :: "('n \<Rightarrow> int \<Rightarrow> 's \<Rightarrow> int \<times> 's) \<Rightarrow> (int \<Rightarrow> 's \<Rightarrow> int \<times> 's) \<Rightarrow> (int \<Rightarrow> 's \<Rightarrow> int \<times> 's) \<Rightarrow>
    'n \<Rightarrow> 's \<Rightarrow> int \<times> 's" where
  "u_stat sys_open sys_fstat sys_close n s =
    (case sys_open n 0 s of (fd, s1) \<Rightarrow>
       if fd < 0 then (-1, s1)
       else (case sys_fstat fd s1 of (r, s2) \<Rightarrow> (case sys_close fd s2 of (_, s3) \<Rightarrow> (r, s3))))"

end
