(* ===== verification/Cstring_Lemmas.thy ===== *)
theory Cstring_Lemmas
  imports Cstring
begin

text \<open>
  Copying with overlapping regions, NUL-terminated strings in memory, and what the functions of
  the previous theory do with them.
\<close>

section \<open>Copying\<close>

text \<open>The result of moving \<open>n\<close> bytes.\<close>

definition moved :: "addr \<Rightarrow> addr \<Rightarrow> nat \<Rightarrow> cmem \<Rightarrow> cmem \<Rightarrow> bool" where
  "moved d s n m m' \<longleftrightarrow> (\<forall>i < n. m' (d + of_nat i) = m (s + of_nat i)) \<and>
     (\<forall>x. (\<forall>i < n. x \<noteq> d + of_nat i) \<longrightarrow> m' x = m x)"

lemma moved_unique:
  assumes "moved d s n m m1" and "moved d s n m m2"
  shows "m1 = m2"
proof
  fix x
  show "m1 x = m2 x"
  proof (cases "\<exists>i < n. x = d + of_nat i")
    case True
    then show ?thesis using assms by (auto simp: moved_def)
  next
    case False
    then show ?thesis using assms by (simp add: moved_def)
  qed
qed

lemma of_nat_u64_nonzero: "0 < i \<Longrightarrow> i < 2 ^ 64 \<Longrightarrow> (of_nat i :: u64) \<noteq> 0"
  using unat_of_nat_small [of i] by (metis less_irrefl unat_0)

lemma copy_up_moved:
  assumes "n \<le> 2 ^ 64" and "\<And>i j. i < j \<Longrightarrow> j < n \<Longrightarrow> d + of_nat i \<noteq> s + of_nat j"
  shows "moved d s n m (copy_up n d s m)"
  using assms
proof (induction n arbitrary: d s m)
  case (Suc n)
  have apart: "d + 1 + of_nat i \<noteq> s + 1 + of_nat j" if "i < j" "j < n" for i j
    using Suc.prems(2) [of "Suc i" "Suc j"] that by (simp add: ac_simps)
  have IH: "moved (d + 1) (s + 1) n (m(d := m s)) (copy_up (Suc n) d s m)"
    using Suc.IH [of "d + 1" "s + 1" "m(d := m s)"] Suc.prems(1) apart
    by (simp add: fun_upd_def)
  have dne: "d \<noteq> d + 1 + of_nat i" if "i < n" for i
    using of_nat_u64_nonzero [of "Suc i"] that Suc.prems(1) by simp
  have sne: "s + 1 + of_nat i \<noteq> d" if "i < n" for i
    using Suc.prems(2) [of 0 "Suc i"] that by (auto simp: ac_simps)
  have "copy_up (Suc n) d s m (d + of_nat i) = m (s + of_nat i)" if "i < Suc n" for i
  proof (cases i)
    case 0
    have "copy_up (Suc n) d s m d = (m(d := m s)) d" using IH dne unfolding moved_def by blast
    then show ?thesis using 0 by simp
  next
    case (Suc j)
    then have j: "j < n" using that by simp
    have "copy_up (Suc n) d s m (d + 1 + of_nat j) = (m(d := m s)) (s + 1 + of_nat j)"
      using IH j unfolding moved_def by blast
    then show ?thesis using sne [OF j] Suc by (simp add: ac_simps)
  qed
  moreover have "copy_up (Suc n) d s m x = m x" if x: "\<forall>i < Suc n. x \<noteq> d + of_nat i" for x
  proof -
    have "x \<noteq> d + 1 + of_nat i" if "i < n" for i
      using x [rule_format, of "Suc i"] that by (simp add: ac_simps)
    then have "copy_up (Suc n) d s m x = (m(d := m s)) x" using IH unfolding moved_def by blast
    moreover have "x \<noteq> d" using x [rule_format, of 0] by simp
    ultimately show ?thesis by simp
  qed
  ultimately show ?case unfolding moved_def by blast
qed (simp add: moved_def)

lemma copy_down_moved:
  assumes "n \<le> 2 ^ 64" and "\<And>i j. j < i \<Longrightarrow> i < n \<Longrightarrow> d + of_nat i \<noteq> s + of_nat j"
  shows "moved d s n m (copy_down n (d + of_nat n) (s + of_nat n) m)"
  using assms
proof (induction n arbitrary: m)
  case (Suc n)
  let ?m1 = "m(d + of_nat n := m (s + of_nat n))"
  let ?r = "copy_down (Suc n) (d + of_nat (Suc n)) (s + of_nat (Suc n)) m"
  have IH: "moved d s n ?m1 ?r"
    using Suc.IH [of ?m1] Suc.prems by (simp add: fun_upd_def add.assoc [symmetric] add.commute [of 1])
  have ne: "d + of_nat i \<noteq> d + of_nat n" if "i < n" for i
  proof -
    have "unat (of_nat i :: u64) = i" "unat (of_nat n :: u64) = n"
      using that Suc.prems(1) by (simp_all add: unat_of_nat_small)
    then show ?thesis using that by (metis add_left_cancel less_irrefl)
  qed
  have sne: "s + of_nat i \<noteq> d + of_nat n" if "i < n" for i
    using Suc.prems(2) [of i n] that by auto
  have "?r (d + of_nat i) = m (s + of_nat i)" if "i < Suc n" for i
  proof (cases "i = n")
    case True
    have "?r (d + of_nat n) = ?m1 (d + of_nat n)" using IH ne unfolding moved_def by metis
    then show ?thesis using True by simp
  next
    case False
    then have j: "i < n" using that by simp
    have "?r (d + of_nat i) = ?m1 (s + of_nat i)" using IH j unfolding moved_def by blast
    then show ?thesis using sne [OF j] by simp
  qed
  moreover have "?r x = m x" if x: "\<forall>i < Suc n. x \<noteq> d + of_nat i" for x
  proof -
    have "?r x = ?m1 x" using IH x unfolding moved_def by (metis less_Suc_eq)
    moreover have "x \<noteq> d + of_nat n" using x by blast
    ultimately show ?thesis by simp
  qed
  ultimately show ?case unfolding moved_def by blast
qed (simp add: moved_def)

text \<open>Regions that end below the top of the address space.\<close>

lemma region_eq:
  assumes "unat (d :: u64) + n \<le> 2 ^ 64" and "unat s + n \<le> 2 ^ 64" and "i < n" and "j < n"
    and "d + of_nat i = s + of_nat j"
  shows "unat d + i = unat s + j"
proof -
  have "unat d + i < 2 ^ 64" "unat s + j < 2 ^ 64" using assms(1-4) by linarith+
  then have "unat (d + of_nat i) = unat d + i" "unat (s + of_nat j) = unat s + j" using unat_add_of_nat by blast+
  then show ?thesis using assms(5) by simp
qed

lemma memmove_moved:
  assumes d: "unat dst + unat n < 2 ^ 64" and s: "unat src + unat n < 2 ^ 64"
  shows "moved dst src (unat n) m (memmove dst src n m)"
proof -
  have n64: "unat n \<le> 2 ^ 64" using d by linarith
  have eq: "unat dst + i = unat src + j" if "dst + of_nat i = src + of_nat j" "i < unat n" "j < unat n" for i j
    using region_eq [of dst "unat n" src i j] d s that by linarith
  have un: "(ucast n :: u64) = of_nat (unat n)" by simp
  show ?thesis
  proof (cases "n = 0")
    case True
    then show ?thesis by (simp add: memmove_def moved_def)
  next
    case False
    have sn: "unat (src + ucast n) = unat src + unat n" unfolding un using s by (rule unat_add_of_nat)
    show ?thesis
    proof (cases "src < dst \<and> src + ucast n > dst")
      case True
      then have lt: "unat src < unat dst" by (simp add: word_less_nat_alt)
      have "memmove dst src n m = copy_down (unat n) (dst + of_nat (unat n)) (src + of_nat (unat n)) m"
        using True False by (simp add: memmove_def)
      then show ?thesis
        using copy_down_moved [OF n64, of dst src m] eq lt by fastforce
    next
      case other: False
      then have nover: "unat dst \<le> unat src \<or> unat src + unat n \<le> unat dst"
        using sn by (auto simp: word_less_nat_alt)
      have "memmove dst src n m = copy_up (unat n) dst src m"
        using other False unfolding memmove_def by (simp only: if_False)
      then show ?thesis
        using copy_up_moved [OF n64, of dst src m] eq nover by fastforce
    qed
  qed
qed

lemma u_memmove_moved:
  assumes d: "unat dst + nat n < 2 ^ 64" and s: "unat src + nat n < 2 ^ 64" and n: "0 \<le> n"
  shows "moved dst src (nat n) m (u_memmove dst src n m)"
proof -
  have n64: "nat n \<le> 2 ^ 64" using d by linarith
  have eq: "unat dst + i = unat src + j" if "dst + of_nat i = src + of_nat j" "i < nat n" "j < nat n" for i j
    using region_eq [of dst "nat n" src i j] d s that by linarith
  have un: "(word_of_int n :: u64) = of_nat (nat n)" using n by simp
  show ?thesis
  proof (cases "src > dst")
    case True
    then have "unat dst < unat src" by (simp add: word_less_nat_alt)
    then show ?thesis
      using copy_up_moved [OF n64, of dst src m] eq True unfolding u_memmove_def by fastforce
  next
    case False
    then have "unat src \<le> unat dst" by (simp add: word_less_nat_alt not_less word_le_nat_alt)
    then show ?thesis
      using copy_down_moved [OF n64, of dst src m] eq False unfolding u_memmove_def un by fastforce
  qed
qed

section \<open>Strings\<close>

text \<open>The bytes \<open>bs\<close>, none of them NUL, followed by a NUL at address \<open>p\<close>.\<close>

definition cstr :: "cmem \<Rightarrow> addr \<Rightarrow> u8 list \<Rightarrow> bool" where
  "cstr m p bs \<longleftrightarrow> 0 \<notin> set bs \<and> (\<forall>i < length bs. m (p + of_nat i) = bs ! i) \<and> m (p + of_nat (length bs)) = 0"

lemma cstr_Nil [simp]: "cstr m p [] \<longleftrightarrow> m p = 0"
  by (simp add: cstr_def)

lemma cstr_Cons: "cstr m p (b # bs) \<longleftrightarrow> b \<noteq> 0 \<and> m p = b \<and> cstr m (p + 1) bs"
proof -
  have "(\<forall>i < Suc (length bs). m (p + of_nat i) = (b # bs) ! i) \<longleftrightarrow>
      m p = b \<and> (\<forall>i < length bs. m (p + 1 + of_nat i) = bs ! i)"
  proof
    assume a: "\<forall>i < Suc (length bs). m (p + of_nat i) = (b # bs) ! i"
    have "m (p + 1 + of_nat i) = bs ! i" if "i < length bs" for i
      using a [rule_format, of "Suc i"] that by (simp add: ac_simps)
    then show "m p = b \<and> (\<forall>i < length bs. m (p + 1 + of_nat i) = bs ! i)"
      using a [rule_format, of 0] by simp
  next
    assume a: "m p = b \<and> (\<forall>i < length bs. m (p + 1 + of_nat i) = bs ! i)"
    have "m (p + of_nat i) = (b # bs) ! i" if "i < Suc (length bs)" for i
      using a that by (cases i) (simp_all add: ac_simps)
    then show "\<forall>i < Suc (length bs). m (p + of_nat i) = (b # bs) ! i" by blast
  qed
  then show ?thesis by (auto simp: cstr_def ac_simps)
qed

lemma strlen_loop_cstr: "cstr m (p + of_nat k) bs \<Longrightarrow> strlen_loop m p k = Some (k + length bs)"
proof (induction bs arbitrary: k)
  case Nil
  then show ?case by (subst strlen_loop.simps) simp
next
  case (Cons b bs)
  then have "m (p + of_nat k) \<noteq> 0" "cstr m (p + of_nat (k + 1)) bs" by (auto simp: cstr_Cons ac_simps)
  then show ?case using Cons.IH [of "k + 1"] by (subst strlen_loop.simps) simp
qed

lemma strlen_cstr: "cstr m p bs \<Longrightarrow> strlen p m = Some (length bs)"
  using strlen_loop_cstr [of m p 0 bs] by (simp add: strlen_def)

text \<open>\<open>strcmp\<close> is the lexicographic comparison of the bytes.\<close>

fun bytes_cmp :: "u8 list \<Rightarrow> u8 list \<Rightarrow> int" where
  "bytes_cmp [] [] = 0"
| "bytes_cmp [] (b # bs) = - uint b"
| "bytes_cmp (a # as) [] = uint a"
| "bytes_cmp (a # as) (b # bs) = (if a = b then bytes_cmp as bs else uint a - uint b)"

lemma strcmp_cstr: "cstr m p as \<Longrightarrow> cstr m q bs \<Longrightarrow> strcmp p q m = Some (bytes_cmp as bs)"
proof (induction as bs arbitrary: p q rule: bytes_cmp.induct)
  case (4 a as b bs)
  then show ?case by (subst strcmp.simps) (auto simp: cstr_Cons)
qed (subst strcmp.simps; auto simp: cstr_Cons)+

lemma bytes_cmp_zero: "0 \<notin> set as \<Longrightarrow> 0 \<notin> set bs \<Longrightarrow> bytes_cmp as bs = 0 \<longleftrightarrow> as = bs"
proof (induction as bs rule: bytes_cmp.induct)
  case (2 b bs)
  then show ?case by (metis bytes_cmp.simps(2) list.distinct(1) list.set_intros(1) neg_equal_0_iff_equal uint_0_iff)
next
  case (3 a as)
  then show ?case by (metis bytes_cmp.simps(3) list.distinct(1) list.set_intros(1) uint_0_iff)
qed (auto simp: word_uint_eq_iff)

lemma strncmp_cstr:
  "cstr m p as \<Longrightarrow> cstr m q bs \<Longrightarrow> strncmp_loop n p q m = bytes_cmp (take n as) (take n bs)"
proof (induction n arbitrary: p q as bs)
  case (Suc n)
  then show ?case by (cases as; cases bs) (auto simp: cstr_Cons)
qed simp

end
