(* ===== verification/Printf.thy ===== *)
theory Printf
  imports Cstring_Lemmas Spinlock
begin

text \<open>
  Formatted output: user/printf.c and kernel/printf.c.  The functions return the bytes they hand
  to \<open>putc\<close> and \<open>consputc\<close>.
\<close>

section \<open>Numbers\<close>

definition digits_upper :: "u8 list" where
  "digits_upper = [48, 49, 50, 51, 52, 53, 54, 55, 56, 57, 65, 66, 67, 68, 69, 70, 0]"

definition digits_lower :: "u8 list" where
  "digits_lower = [48, 49, 50, 51, 52, 53, 54, 55, 56, 57, 97, 98, 99, 100, 101, 102, 0]"

text \<open>
  The loop that fills \<open>buf\<close> from the least significant digit, with the bound of the 16-byte buffer
  and of the digit table.
\<close>

definition buf_put :: "u8 \<Rightarrow> u8 list \<Rightarrow> u8 list res" where
  "buf_put c buf = guardE (length buf < 16) OutOfBounds (Inr (buf @ [c]))"

function digits_loop :: "u8 list \<Rightarrow> u32 \<Rightarrow> u32 \<Rightarrow> u8 list \<Rightarrow> u8 list res" where
  "digits_loop ds base x buf =
    (if base = 0 then Inl DivByZero
     else if \<not> unat (x mod base) < length ds then Inl OutOfBounds
     else if \<not> length buf < 16 then Inl OutOfBounds
     else let buf1 = buf @ [ds ! unat (x mod base)] in
       if x div base \<noteq> 0 then digits_loop ds base (x div base) buf1 else Inr buf1)"
  by pat_completeness auto
termination
  by (relation "measure (\<lambda>(ds, base, x, buf). 16 - length buf)") (auto simp del: word_neq_0_conv)

declare digits_loop.simps [simp del]

text \<open>\<open>printint\<close> of user/printf.c; \<open>-xx\<close> wraps for the smallest \<open>int\<close>.\<close>

definition u_printint :: "int \<Rightarrow> int \<Rightarrow> bool \<Rightarrow> u8 list res" where
  "u_printint xx base sgnd =
    (let neg = (sgnd \<and> xx < 0);
         x = (if neg then word_of_int (- xx) else word_of_int xx) in
     bindE (digits_loop digits_upper (word_of_int base) x []) (\<lambda>buf.
     bindE (if neg then buf_put 45 buf else Inr buf) (\<lambda>buf.
     Inr (rev buf))))"

fun ptr_loop :: "u8 list \<Rightarrow> nat \<Rightarrow> u64 \<Rightarrow> u8 list" where
  "ptr_loop ds 0 x = []"
| "ptr_loop ds (Suc n) x = ds ! unat (drop_bit 60 x) # ptr_loop ds n (push_bit 4 x)"

definition u_printptr :: "u64 \<Rightarrow> u8 list" where
  "u_printptr x = [48, 120] @ ptr_loop digits_upper 16 x"

definition printint :: "int \<Rightarrow> int \<Rightarrow> bool \<Rightarrow> u8 list res" where
  "printint xx base sign =
    (let sign' = (sign \<and> xx < 0);
         x = (if sign' then word_of_int (- xx) else word_of_int xx) in
     bindE (digits_loop digits_lower (word_of_int base) x []) (\<lambda>buf.
     bindE (if sign' then buf_put 45 buf else Inr buf) (\<lambda>buf.
     Inr (rev buf))))"

definition printptr :: "u64 \<Rightarrow> u8 list" where
  "printptr x = [48, 120] @ ptr_loop digits_lower 16 x"

section \<open>Format strings\<close>

text \<open>
  The variadic arguments are the 64-bit registers they are passed in; \<open>va_arg(ap, int)\<close> is the
  low half as a signed number.  Taking more arguments than were passed is undefined.  A
  \<open>char*\<close> argument points to a string in memory, which ends at its NUL byte.
\<close>

type_synonym va_list = "u64 list"

definition va_arg :: "va_list \<Rightarrow> (u64 \<times> va_list) res" where
  "va_arg ap = (case ap of [] \<Rightarrow> Inl OutOfBounds | a # ap' \<Rightarrow> Inr (a, ap'))"

partial_function (option) string_at :: "cmem \<Rightarrow> addr \<Rightarrow> u8 list option" where
  "string_at m s = (if m s = 0 then Some [] else Option.bind (string_at m (s + 1)) (\<lambda>bs. Some (m s # bs)))"

declare string_at.simps [code]

definition null_text :: "u8 list" where
  "null_text = [40, 110, 117, 108, 108, 41]"

definition put_string :: "cmem \<Rightarrow> addr \<Rightarrow> u8 list res" where
  "put_string m s =
    (if s = 0 then Inr null_text else case string_at m s of None \<Rightarrow> Inl Diverges | Some bs \<Rightarrow> Inr bs)"

text \<open>One conversion of user/printf.c: the character \<open>c\<close> after \<open>%\<close>.\<close>

definition u_conv :: "cmem \<Rightarrow> u8 \<Rightarrow> va_list \<Rightarrow> (u8 list \<times> va_list) res" where
  "u_conv m c ap =
    (if c = 100 then bindE (va_arg ap) (\<lambda>(a, ap). bindE (u_printint (i32_of_u64 a) 10 True) (\<lambda>o1. Inr (o1, ap)))
     else if c = 108 then bindE (va_arg ap) (\<lambda>(a, ap). bindE (u_printint (i32_of_u64 a) 10 False) (\<lambda>o1. Inr (o1, ap)))
     else if c = 120 then bindE (va_arg ap) (\<lambda>(a, ap). bindE (u_printint (i32_of_u64 a) 16 False) (\<lambda>o1. Inr (o1, ap)))
     else if c = 112 then bindE (va_arg ap) (\<lambda>(a, ap). Inr (u_printptr a, ap))
     else if c = 115 then bindE (va_arg ap) (\<lambda>(a, ap). bindE (put_string m a) (\<lambda>o1. Inr (o1, ap)))
     else if c = 99 then bindE (va_arg ap) (\<lambda>(a, ap). Inr ([ucast a], ap))
     else if c = 37 then Inr ([c], ap)
     else Inr ([37, c], ap))"

text \<open>The loop over the format, a list of its bytes before the NUL; \<open>pct\<close> is \<open>state == '%'\<close>.\<close>

fun vprintf_loop :: "cmem \<Rightarrow> bool \<Rightarrow> u8 list \<Rightarrow> va_list \<Rightarrow> u8 list res" where
  "vprintf_loop m pct [] ap = Inr []"
| "vprintf_loop m pct (c # fmt) ap =
    (if \<not> pct then
       (if c = 37 then vprintf_loop m True fmt ap
        else bindE (vprintf_loop m False fmt ap) (\<lambda>o2. Inr (c # o2)))
     else
       bindE (u_conv m c ap) (\<lambda>(o1, ap).
       bindE (vprintf_loop m False fmt ap) (\<lambda>o2. Inr (o1 @ o2))))"

definition vprintf :: "cmem \<Rightarrow> u8 list \<Rightarrow> va_list \<Rightarrow> u8 list res" where
  "vprintf m fmt ap = vprintf_loop m False fmt ap"

text \<open>\<open>fprintf\<close> and \<open>printf\<close>: the bytes with the descriptor they are written to.\<close>

definition u_fprintf :: "cmem \<Rightarrow> int \<Rightarrow> u8 list \<Rightarrow> va_list \<Rightarrow> (int \<times> u8 list) res" where
  "u_fprintf m fd fmt ap = bindE (vprintf m fmt ap) (\<lambda>bs. Inr (fd, bs))"

definition u_printf :: "cmem \<Rightarrow> u8 list \<Rightarrow> va_list \<Rightarrow> (int \<times> u8 list) res" where
  "u_printf m fmt ap = bindE (vprintf m fmt ap) (\<lambda>bs. Inr (1, bs))"

section \<open>Kernel\<close>

definition conv :: "cmem \<Rightarrow> u8 \<Rightarrow> va_list \<Rightarrow> (u8 list \<times> va_list) res" where
  "conv m c ap =
    (if c = 100 then bindE (va_arg ap) (\<lambda>(a, ap). bindE (printint (i32_of_u64 a) 10 True) (\<lambda>o1. Inr (o1, ap)))
     else if c = 120 then bindE (va_arg ap) (\<lambda>(a, ap). bindE (printint (i32_of_u64 a) 16 True) (\<lambda>o1. Inr (o1, ap)))
     else if c = 112 then bindE (va_arg ap) (\<lambda>(a, ap). Inr (printptr a, ap))
     else if c = 115 then bindE (va_arg ap) (\<lambda>(a, ap). bindE (put_string m a) (\<lambda>o1. Inr (o1, ap)))
     else if c = 37 then Inr ([37], ap)
     else Inr ([37, c], ap))"

fun printf_loop :: "cmem \<Rightarrow> u8 list \<Rightarrow> va_list \<Rightarrow> u8 list res" where
  "printf_loop m [] ap = Inr []"
| "printf_loop m [c] ap = (if c \<noteq> 37 then Inr [c] else Inr [])"
| "printf_loop m (c # d # fmt) ap =
    (if c \<noteq> 37 then bindE (printf_loop m (d # fmt) ap) (\<lambda>o2. Inr (c # o2))
     else bindE (conv m d ap) (\<lambda>(o1, ap).
          bindE (printf_loop m fmt ap) (\<lambda>o2. Inr (o1 @ o2))))"

text \<open>The lock that keeps the output of concurrent calls apart, the flag that turns it off, and
  \<open>panicked\<close>; \<open>pr_out\<close> is what was handed to \<open>consputc\<close> so far.\<close>

record pr_state =
  pr_lock :: spinlock
  pr_locking :: bool
  pr_panicked :: bool
  pr_out :: "u8 list"

definition printf :: "cmem \<Rightarrow> u8 list option \<Rightarrow> va_list \<Rightarrow> pr_state \<times> hart \<Rightarrow> (pr_state \<times> hart) res" where
  "printf m fmt ap st =
    (case st of (p, c) \<Rightarrow>
      (let locking = pr_locking p in
       bindE (if locking then acquire (pr_lock p) c else Inr (pr_lock p, c)) (\<lambda>(lk, c).
       (case fmt of
          None \<Rightarrow> Inl (Panic ''null fmt'')
        | Some f \<Rightarrow>
            bindE (printf_loop m f ap) (\<lambda>bs.
            bindE (if locking then release lk c else Inr (lk, c)) (\<lambda>(lk, c).
            Inr (p \<lparr> pr_lock := lk, pr_out := pr_out p @ bs \<rparr>, c)))))))"

text \<open>\<open>panic\<close> never returns; this is the state in which it stays.\<close>

definition panic :: "cmem \<Rightarrow> u8 list \<Rightarrow> pr_state \<times> hart \<Rightarrow> (pr_state \<times> hart) res" where
  "panic m s st =
    (case st of (p, c) \<Rightarrow>
     bindE (printf m (Some [112, 97, 110, 105, 99, 58, 32]) [] (p \<lparr> pr_locking := False \<rparr>, c)) (\<lambda>st.
     bindE (printf m (Some s) [] st) (\<lambda>st.
     bindE (printf m (Some [10]) [] st) (\<lambda>(p, c).
     Inr (p \<lparr> pr_panicked := True \<rparr>, c)))))"

definition printfinit :: "pr_state \<Rightarrow> pr_state" where
  "printfinit p = p \<lparr> pr_lock := initlock ''pr'', pr_locking := True \<rparr>"

end
