(* ===== verification/Printf_Lemmas.thy ===== *)
theory Printf_Lemmas
  imports Printf
begin

text \<open>
  The decimal numerals \<open>printint\<close> produces, that they fit its buffer, and that \<open>atoi\<close> reads them
  back.
\<close>

section \<open>Decimal numerals\<close>

fun dec :: "nat \<Rightarrow> u8 list" where
  "dec n = (if n < 10 then [of_nat (48 + n)] else dec (n div 10) @ [of_nat (48 + n mod 10)])"

declare dec.simps [simp del]

lemma length_dec: "n < 10 ^ k \<Longrightarrow> 0 < k \<Longrightarrow> length (dec n) \<le> k"
proof (induction k arbitrary: n)
  case (Suc k)
  show ?case
  proof (cases "n < 10")
    case True
    then show ?thesis by (subst dec.simps) simp
  next
    case False
    then have "0 < k" using Suc.prems(1) by (cases k) auto
    moreover have "n div 10 < 10 ^ k" using Suc.prems(1) by (simp add: div_less_iff_less_mult mult.commute)
    ultimately have "length (dec (n div 10)) \<le> k" by (rule Suc.IH [rotated])
    then show ?thesis using False by (subst dec.simps) simp
  qed
qed simp

lemma length_dec_u32: "length (dec (unat (x :: u32))) \<le> 10"
proof -
  have "unat x < 2 ^ 32" using unsigned_less [of x] by simp
  then show ?thesis by (intro length_dec) simp_all
qed

definition decimal_table :: "u8 list \<Rightarrow> bool" where
  "decimal_table ds \<longleftrightarrow> 10 \<le> length ds \<and> (\<forall>k < 10. ds ! k = of_nat (48 + k))"

lemma decimal_tables: "decimal_table digits_upper" "decimal_table digits_lower"
proof -
  have *: "k < 10 \<longleftrightarrow> k = 0 \<or> k = 1 \<or> k = 2 \<or> k = 3 \<or> k = 4 \<or> k = 5 \<or> k = 6 \<or> k = 7 \<or> k = 8 \<or> k = (9::nat)"
    for k by auto
  show "decimal_table digits_upper" "decimal_table digits_lower"
    unfolding decimal_table_def * digits_upper_def digits_lower_def by auto
qed

lemma digits_loop_dec:
  assumes "decimal_table ds" and "length buf + length (dec (unat x)) \<le> 16"
  shows "digits_loop ds 10 x buf = Inr (buf @ rev (dec (unat x)))"
  using assms(2)
proof (induction "unat x" arbitrary: x buf rule: less_induct)
  case less
  have um: "unat (x mod 10) = unat x mod 10" and ud: "unat (x div 10) = unat x div 10"
    by (simp_all add: unat_mod unat_div)
  have d: "ds ! unat (x mod 10) = of_nat (48 + unat x mod 10)" and l: "unat (x mod 10) < length ds"
    using assms(1) unfolding um decimal_table_def by (simp, meson less_le_trans mod_less_divisor zero_less_numeral)
  have zero: "x div 10 = 0 \<longleftrightarrow> unat x < 10"
    by (simp add: word_unat_eq_iff ud div_eq_0_iff)
  show ?case
  proof (cases "unat x < 10")
    case True
    then have "dec (unat x) = [of_nat (48 + unat x)]" by (subst dec.simps) simp
    then show ?thesis using less.prems True d l zero by (subst digits_loop.simps) (simp add: Let_def)
  next
    case False
    then have e: "dec (unat x) = dec (unat (x div 10)) @ [of_nat (48 + unat x mod 10)]"
      using ud by (subst dec.simps) simp
    have "digits_loop ds 10 (x div 10) (buf @ [of_nat (48 + unat x mod 10)]) =
        Inr ((buf @ [of_nat (48 + unat x mod 10)]) @ rev (dec (unat (x div 10))))"
      by (rule less.hyps) (use False ud less.prems e in simp_all)
    moreover have "length buf < 16" using less.prems e by simp
    ultimately show ?thesis using d l zero False e by (subst digits_loop.simps) (simp add: Let_def)
  qed
qed

section \<open>Printing and reading back\<close>

lemma u_printint_nonneg:
  assumes "0 \<le> v" and "v < 2 ^ 31"
  shows "u_printint v 10 True = Inr (dec (nat v))"
proof -
  have "unat (word_of_int v :: u32) = nat v"
    using assms by (simp add: unat_eq_nat_uint unsigned_of_int take_bit_int_eq_self)
  then show ?thesis
    using digits_loop_dec [OF decimal_tables(1), of "[]" "word_of_int v"] length_dec_u32 [of "word_of_int v"] assms(1)
    by (simp add: u_printint_def Let_def)
qed

lemma u_printint_neg:
  assumes "- (2 ^ 31) \<le> v" and "v < 0"
  shows "u_printint v 10 True = Inr (45 # dec (nat (- v)))"
proof -
  have "unat (word_of_int (- v) :: u32) = nat (- v)"
    using assms by (simp add: unat_eq_nat_uint unsigned_of_int take_bit_int_eq_self del: of_int_minus)
  then show ?thesis
    using digits_loop_dec [OF decimal_tables(1), of "[]" "word_of_int (- v)"] length_dec_u32 [of "word_of_int (- v)"] assms(2)
    by (simp add: u_printint_def Let_def buf_put_def del: of_int_minus)
qed

definition atoi_bytes :: "int \<Rightarrow> u8 list \<Rightarrow> int" where
  "atoi_bytes = foldl (\<lambda>n b. signed_take_bit 31 (n * 10 + uint b - 48))"

lemma atoi_loop_bytes:
  assumes "\<And>b. b \<in> set bs \<Longrightarrow> 48 \<le> b \<and> b \<le> 57" and "cstr m s bs"
  shows "atoi_loop m s n = Some (atoi_bytes n bs)"
  using assms
proof (induction bs arbitrary: s n)
  case Nil
  then show ?case by (subst atoi_loop.simps) (simp add: atoi_bytes_def)
next
  case (Cons b bs)
  then have "m s = b" "cstr m (s + 1) bs" by (simp_all add: cstr_Cons)
  then show ?case using Cons by (subst atoi_loop.simps) (simp add: atoi_bytes_def)
qed

lemma digit_char:
  assumes "n < 10"
  shows "uint (of_nat (48 + n) :: u8) = 48 + int n"
proof -
  have "unat (of_nat (48 + n) :: u8) = 48 + n" using assms by (simp add: unat_of_nat del: of_nat_add)
  then show ?thesis by (simp add: uint_nat del: of_nat_add)
qed

lemma dec_digits: "b \<in> set (dec n) \<Longrightarrow> 48 \<le> b \<and> b \<le> 57"
proof (induction n rule: dec.induct)
  case (1 n)
  have "48 \<le> (of_nat (48 + k) :: u8) \<and> (of_nat (48 + k) :: u8) \<le> 57" if "k < 10" for k
    using digit_char [OF that] that by (simp add: word_le_def del: of_nat_add)
  then show ?case using 1 by (subst (asm) (2) dec.simps) (auto split: if_splits simp del: of_nat_add)
qed

lemma atoi_bytes_dec: "n < 2 ^ 31 \<Longrightarrow> atoi_bytes 0 (dec n) = int n"
proof (induction n rule: dec.induct)
  case (1 n)
  show ?case
  proof (cases "n < 10")
    case True
    then show ?thesis
      using digit_char [OF True] by (subst dec.simps) (simp add: atoi_bytes_def i32_fits del: of_nat_add)
  next
    case False
    have "atoi_bytes 0 (dec (n div 10)) = int (n div 10)"
      by (rule 1) (use False "1.prems" in linarith)+
    moreover have "signed_take_bit 31 (int (n div 10) * 10 + uint (of_nat (48 + n mod 10) :: u8) - 48) = int n"
    proof -
      have "int (n div 10) * 10 + uint (of_nat (48 + n mod 10) :: u8) - 48 = int n"
        using digit_char [of "n mod 10"] div_mult_mod_eq [of "int n" 10] by (simp add: zdiv_int zmod_int del: of_nat_add)
      then show ?thesis using i32_fits [of "int n"] "1.prems" by simp
    qed
    ultimately show ?thesis using False
      by (subst dec.simps) (simp add: atoi_bytes_def del: of_nat_add)
  qed
qed

lemma atoi_dec:
  assumes "n < 2 ^ 31" and "cstr m s (dec n)"
  shows "atoi s m = Some (int n)"
  unfolding atoi_def using atoi_loop_bytes [of "dec n" m s 0] dec_digits assms(2) atoi_bytes_dec [OF assms(1)] by simp

end
