(* ===== verification/User_Io.thy ===== *)
theory User_Io
  imports Printf_Lemmas
begin

text \<open>
  The user programs user/cat.c, user/wc.c, user/echo.c and user/grep.c.  A program sees the
  kernel through its system calls, which are the fields of \<open>sys\<close> over a state of their own; every
  system call that changes something is a call of one of them.
\<close>

section \<open>System calls and output\<close>

record 's sys =
  sys_read :: "int \<Rightarrow> nat \<Rightarrow> 's \<Rightarrow> int \<times> u8 list \<times> 's"
  sys_write :: "int \<Rightarrow> u8 list \<Rightarrow> 's \<Rightarrow> int \<times> 's"
  sys_open :: "addr \<Rightarrow> int \<Rightarrow> 's \<Rightarrow> int \<times> 's"
  sys_close :: "int \<Rightarrow> 's \<Rightarrow> int \<times> 's"

text \<open>How a program stops: \<open>exit(n)\<close>, or an error in its own code.\<close>

datatype stop = Exit int | Crash cerr

type_synonym 's prog = "(stop \<times> 's) + 's"

definition bytes :: "string \<Rightarrow> u8 list" where
  "bytes cs = map of_char cs"

text \<open>\<open>putc\<close> of user/printf.c is one system call for each byte.\<close>

definition putc :: "'s sys \<Rightarrow> int \<Rightarrow> u8 \<Rightarrow> 's \<Rightarrow> 's" where
  "putc sys fd c s = snd (sys_write sys fd [c] s)"

definition say :: "'s sys \<Rightarrow> cmem \<Rightarrow> int \<Rightarrow> u8 list \<Rightarrow> va_list \<Rightarrow> 's \<Rightarrow> 's prog" where
  "say sys m fd fmt ap s =
    (case u_fprintf m fd fmt ap of
       Inl e \<Rightarrow> Inl (Crash e, s)
     | Inr (fd, bs) \<Rightarrow> Inr (fold (putc sys fd) bs s))"

text \<open>
  The shape the \<open>main\<close> functions share: run \<open>f\<close> on each argument that can be opened, stop with a
  message at the first that cannot.
\<close>

fun each_file :: "'s sys \<Rightarrow> (addr \<Rightarrow> 's \<Rightarrow> 's prog) \<Rightarrow> (int \<Rightarrow> addr \<Rightarrow> 's \<Rightarrow> 's prog option) \<Rightarrow> addr list \<Rightarrow> 's \<Rightarrow>
    's prog option" where
  "each_file sys complain f [] s = Some (Inl (Exit 0, s))"
| "each_file sys complain f (a # args) s =
    (case sys_open sys a 0 s of (fd, s1) \<Rightarrow>
       if fd < 0 then Some (bindE (complain a s1) (\<lambda>s2. Inl (Exit 1, s2)))
       else (case f fd a s1 of
           None \<Rightarrow> None
         | Some (Inl e) \<Rightarrow> Some (Inl e)
         | Some (Inr s2) \<Rightarrow> each_file sys complain f args (snd (sys_close sys fd s2))))"

section \<open>cat\<close>

partial_function (option) cat_loop :: "'s sys \<Rightarrow> cmem \<Rightarrow> int \<Rightarrow> 's \<Rightarrow> 's prog option" where
  "cat_loop sys m fd s =
    (case sys_read sys fd 512 s of (n, bs, s1) \<Rightarrow>
      if n > 0 then
        (case sys_write sys 1 (take (nat n) bs) s1 of (k, s2) \<Rightarrow>
          if k \<noteq> n then
            Some (bindE (say sys m 2 (bytes ''cat: write error'' @ [10]) [] s2) (\<lambda>s3. Inl (Exit 1, s3)))
          else cat_loop sys m fd s2)
      else if n < 0 then
        Some (bindE (say sys m 2 (bytes ''cat: read error'' @ [10]) [] s1) (\<lambda>s3. Inl (Exit 1, s3)))
      else Some (Inr s1))"

declare cat_loop.simps [code]

definition cat_main :: "'s sys \<Rightarrow> cmem \<Rightarrow> addr list \<Rightarrow> 's \<Rightarrow> 's prog option" where
  "cat_main sys m argv s =
    (if length argv \<le> 1 then
       (case cat_loop sys m 0 s of None \<Rightarrow> None | Some r \<Rightarrow> Some (bindE r (\<lambda>s. Inl (Exit 0, s))))
     else each_file sys (\<lambda>a. say sys m 2 (bytes ''cat: cannot open %s'' @ [10]) [a]) (\<lambda>fd a. cat_loop sys m fd)
       (tl argv) s)"

section \<open>echo\<close>

fun echo_loop :: "'s sys \<Rightarrow> cmem \<Rightarrow> addr list \<Rightarrow> 's \<Rightarrow> 's prog" where
  "echo_loop sys m [] s = Inl (Exit 0, s)"
| "echo_loop sys m (a # args) s =
    (case string_at m a of
       None \<Rightarrow> Inl (Crash Diverges, s)
     | Some bs \<Rightarrow>
        (let s1 = snd (sys_write sys 1 bs s);
             s2 = snd (sys_write sys 1 (if args \<noteq> [] then [32] else [10]) s1) in
         echo_loop sys m args s2))"

definition echo_main :: "'s sys \<Rightarrow> cmem \<Rightarrow> addr list \<Rightarrow> 's \<Rightarrow> 's prog" where
  "echo_main sys m argv s = echo_loop sys m (tl argv) s"

section \<open>wc\<close>

record counts =
  c_lines :: int
  c_words :: int
  c_chars :: int
  c_inword :: bool

text \<open>\<open>strchr(" \r\t\n\v", b)\<close>; the byte 0 is not found.\<close>

definition is_blank :: "u8 \<Rightarrow> bool" where
  "is_blank b \<longleftrightarrow> b \<in> {32, 13, 9, 10, 11}"

definition wc_byte :: "u8 \<Rightarrow> counts \<Rightarrow> counts" where
  "wc_byte b k =
    (let k = k \<lparr> c_chars := c_chars k + 1 \<rparr>;
         k = (if b = 10 then k \<lparr> c_lines := c_lines k + 1 \<rparr> else k) in
     if is_blank b then k \<lparr> c_inword := False \<rparr>
     else if \<not> c_inword k then k \<lparr> c_words := c_words k + 1, c_inword := True \<rparr>
     else k)"

partial_function (option) wc_loop :: "'s sys \<Rightarrow> int \<Rightarrow> counts \<Rightarrow> 's \<Rightarrow> (int \<times> counts \<times> 's) option" where
  "wc_loop sys fd k s =
    (case sys_read sys fd 512 s of (n, bs, s1) \<Rightarrow>
      if n > 0 then wc_loop sys fd (fold wc_byte (take (nat n) bs) k) s1 else Some (n, k, s1))"

declare wc_loop.simps [code]

definition wc :: "'s sys \<Rightarrow> cmem \<Rightarrow> int \<Rightarrow> addr \<Rightarrow> 's \<Rightarrow> 's prog option" where
  "wc sys m fd name s =
    (case wc_loop sys fd \<lparr> c_lines = 0, c_words = 0, c_chars = 0, c_inword = False \<rparr> s of
       None \<Rightarrow> None
     | Some (n, k, s1) \<Rightarrow>
        Some (if n < 0 then bindE (say sys m 1 (bytes ''wc: read error'' @ [10]) [] s1) (\<lambda>s2. Inl (Exit 1, s2))
          else say sys m 1 (bytes ''%d %d %d %s'' @ [10])
            [word_of_int (c_lines k), word_of_int (c_words k), word_of_int (c_chars k), name] s1))"

text \<open>\<open>nm0\<close> is the address of the literal \<open>""\<close>.\<close>

definition wc_main :: "'s sys \<Rightarrow> cmem \<Rightarrow> addr \<Rightarrow> addr list \<Rightarrow> 's \<Rightarrow> 's prog option" where
  "wc_main sys m nm0 argv s =
    (if length argv \<le> 1 then
       (case wc sys m 0 nm0 s of None \<Rightarrow> None | Some r \<Rightarrow> Some (bindE r (\<lambda>s. Inl (Exit 0, s))))
     else each_file sys (\<lambda>a. say sys m 1 (bytes ''wc: cannot open %s'' @ [10]) [a]) (wc sys m) (tl argv) s)"

end
