(* ===== verification/Grep.thy ===== *)
theory Grep
  imports User_Io
begin

text \<open>
  user/grep.c.  A pointer into a NUL-terminated string is the list of bytes from it up to the NUL,
  so \<open>*p == 0\<close> is the empty list.
\<close>

section \<open>The matcher\<close>

function (sequential) matchhere :: "u8 list \<Rightarrow> u8 list \<Rightarrow> bool"
  and matchstar :: "u8 \<Rightarrow> u8 list \<Rightarrow> u8 list \<Rightarrow> bool" where
  "matchhere [] tx = True"
| "matchhere (c # re) tx =
    (if re \<noteq> [] \<and> hd re = 42 then matchstar c (tl re) tx
     else if c = 36 \<and> re = [] then tx = []
     else if tx \<noteq> [] \<and> (c = 46 \<or> c = hd tx) then matchhere re (tl tx)
     else False)"
| "matchstar c re tx =
    (if matchhere re tx then True
     else if tx \<noteq> [] \<and> (hd tx = c \<or> c = 46) then matchstar c re (tl tx)
     else False)"
  by pat_completeness auto
termination
  by (relation "measures [\<lambda>x. case x of Inl (re, t) \<Rightarrow> 2 * length re | Inr (c, re, t) \<Rightarrow> 2 * length re + 1,
        \<lambda>x. case x of Inl (re, t) \<Rightarrow> length t | Inr (c, re, t) \<Rightarrow> length t]") auto

declare matchstar.simps [simp del]

fun match_any :: "u8 list \<Rightarrow> u8 list \<Rightarrow> bool" where
  "match_any re [] = matchhere re []"
| "match_any re (t # tx) = (if matchhere re (t # tx) then True else match_any re tx)"

definition match :: "u8 list \<Rightarrow> u8 list \<Rightarrow> bool" where
  "match re tx = (if re \<noteq> [] \<and> hd re = 94 then matchhere (tl re) tx else match_any re tx)"

section \<open>The line loop\<close>

text \<open>\<open>strchr(p, '\n')\<close> on the buffered bytes: the line before the newline and what follows it.\<close>

definition next_line :: "u8 list \<Rightarrow> (u8 list \<times> u8 list) option" where
  "next_line p =
    (let l = takeWhile (\<lambda>c. c \<noteq> 10 \<and> c \<noteq> 0) p; r = dropWhile (\<lambda>c. c \<noteq> 10 \<and> c \<noteq> 0) p in
     if r \<noteq> [] \<and> hd r = 10 then Some (l, tl r) else None)"

lemma next_line_shorter: "next_line p = Some (l, r) \<Longrightarrow> length r < length p"
proof -
  assume a: "next_line p = Some (l, r)"
  have "length (dropWhile (\<lambda>c. c \<noteq> 10 \<and> c \<noteq> 0) p) \<le> length p" by (rule length_dropWhile_le)
  then show ?thesis using a by (auto simp: next_line_def Let_def neq_Nil_conv split: if_splits)
qed

function grep_scan :: "'s sys \<Rightarrow> u8 list \<Rightarrow> u8 list \<Rightarrow> 's \<Rightarrow> u8 list \<times> 's" where
  "grep_scan sys pat p s =
    (case next_line p of
       None \<Rightarrow> (p, s)
     | Some (l, r) \<Rightarrow>
        grep_scan sys pat r (if match pat l then snd (sys_write sys 1 (l @ [10]) s) else s))"
  by pat_completeness auto
termination
  by (relation "measure (\<lambda>(sys, pat, p, s). length p)") (auto dest: next_line_shorter)

declare grep_scan.simps [simp del]

text \<open>\<open>b\<close> is the part of \<open>buf\<close> below \<open>m\<close>; 1024 is its size.\<close>

partial_function (option) grep_loop :: "'s sys \<Rightarrow> u8 list \<Rightarrow> int \<Rightarrow> u8 list \<Rightarrow> 's \<Rightarrow> (u8 list \<times> 's) option" where
  "grep_loop sys pat fd b s =
    (case sys_read sys fd (1024 - length b - 1) s of (n, bs, s1) \<Rightarrow>
      if n > 0 then
        (case grep_scan sys pat (b @ take (nat n) bs) s1 of (p, s2) \<Rightarrow> grep_loop sys pat fd p s2)
      else Some (b, s1))"

declare grep_loop.simps [code]

definition grep :: "'s sys \<Rightarrow> u8 list \<Rightarrow> int \<Rightarrow> 's \<Rightarrow> 's option" where
  "grep sys pat fd s = map_option snd (grep_loop sys pat fd [] s)"

definition grep_main :: "'s sys \<Rightarrow> cmem \<Rightarrow> addr list \<Rightarrow> 's \<Rightarrow> 's prog option" where
  "grep_main sys m argv s =
    (if length argv \<le> 1 then
       Some (bindE (say sys m 2 (bytes ''usage: grep pattern [file ...]'' @ [10]) [] s) (\<lambda>s. Inl (Exit 1, s)))
     else
       (case string_at m (argv ! 1) of
          None \<Rightarrow> Some (Inl (Crash Diverges, s))
        | Some pat \<Rightarrow>
            if length argv \<le> 2 then map_option (\<lambda>s. Inl (Exit 0, s)) (grep sys pat 0 s)
            else each_file sys (\<lambda>a. say sys m 1 (bytes ''grep: cannot open %s'' @ [10]) [a])
              (\<lambda>fd a s. map_option Inr (grep sys pat fd s)) (drop 2 argv) s))"

section \<open>What the patterns mean\<close>

text \<open>
  A pattern is a sequence of items, each one byte, any byte, or a repetition of either; a final
  dollar anchors it to the end of the text and an initial caret to the start.
\<close>

datatype item = One u8 | Many u8

definition byte_ok :: "u8 \<Rightarrow> u8 \<Rightarrow> bool" where
  "byte_ok c b \<longleftrightarrow> c = 46 \<or> c = b"

fun parse_re :: "u8 list \<Rightarrow> item list \<times> bool" where
  "parse_re [] = ([], False)"
| "parse_re [c] = (if c = 36 then ([], True) else ([One c], False))"
| "parse_re (c # d # re) =
    (if d = 42 then (case parse_re re of (its, e) \<Rightarrow> (Many c # its, e))
     else (case parse_re (d # re) of (its, e) \<Rightarrow> (One c # its, e)))"

fun item_lang :: "item \<Rightarrow> u8 list set" where
  "item_lang (One c) = {[b] | b. byte_ok c b}"
| "item_lang (Many c) = {bs. \<forall>b \<in> set bs. byte_ok c b}"

fun items_lang :: "item list \<Rightarrow> u8 list set" where
  "items_lang [] = {[]}"
| "items_lang (i # its) = {us @ vs | us vs. us \<in> item_lang i \<and> vs \<in> items_lang its}"

text \<open>The texts a pattern matches a prefix of.\<close>

definition prefix_lang :: "item list \<times> bool \<Rightarrow> u8 list \<Rightarrow> bool" where
  "prefix_lang ie tx \<longleftrightarrow> (\<exists>us vs. tx = us @ vs \<and> us \<in> items_lang (fst ie) \<and> (snd ie \<longrightarrow> vs = []))"

definition pattern_lang :: "u8 list \<Rightarrow> u8 list \<Rightarrow> bool" where
  "pattern_lang re tx \<longleftrightarrow>
    (case re of c # re' \<Rightarrow> if c = 94 then prefix_lang (parse_re re') tx
       else (\<exists>us vs. tx = us @ vs \<and> prefix_lang (parse_re re) vs)
     | [] \<Rightarrow> True)"

lemma items_lang_ConsI: "us \<in> item_lang i \<Longrightarrow> vs \<in> items_lang its \<Longrightarrow> us @ vs \<in> items_lang (i # its)"
  by auto

lemma prefix_lang_Nil: "prefix_lang ([], e) tx \<longleftrightarrow> (e \<longrightarrow> tx = [])"
  by (auto simp: prefix_lang_def)

lemma prefix_lang_One: "prefix_lang (One c # its, e) tx \<longleftrightarrow> tx \<noteq> [] \<and> byte_ok c (hd tx) \<and> prefix_lang (its, e) (tl tx)"
proof
  assume "prefix_lang (One c # its, e) tx"
  then obtain w vs where w: "tx = w @ vs" "w \<in> items_lang (One c # its)" "e \<longrightarrow> vs = []"
    unfolding prefix_lang_def fst_conv snd_conv by blast
  from w(2) obtain b us where "w = b # us" "byte_ok c b" "us \<in> items_lang its" by auto
  with w have "tx = b # us @ vs" "byte_ok c b" "us \<in> items_lang its" "e \<longrightarrow> vs = []" by simp_all
  moreover from this have "prefix_lang (its, e) (us @ vs)" unfolding prefix_lang_def fst_conv snd_conv by blast
  ultimately show "tx \<noteq> [] \<and> byte_ok c (hd tx) \<and> prefix_lang (its, e) (tl tx)" by simp
next
  assume a: "tx \<noteq> [] \<and> byte_ok c (hd tx) \<and> prefix_lang (its, e) (tl tx)"
  then obtain us vs where "tl tx = us @ vs" "us \<in> items_lang its" "e \<longrightarrow> vs = []"
    unfolding prefix_lang_def fst_conv snd_conv by blast
  then have "tx = ([hd tx] @ us) @ vs" using a by (cases tx) auto
  moreover have "[hd tx] @ us \<in> items_lang (One c # its)" using a \<open>us \<in> items_lang its\<close> by (intro items_lang_ConsI) simp_all
  ultimately show "prefix_lang (One c # its, e) tx"
    unfolding prefix_lang_def fst_conv snd_conv using \<open>e \<longrightarrow> vs = []\<close> by blast
qed

lemma prefix_lang_Many:
  "prefix_lang (Many c # its, e) tx \<longleftrightarrow>
    (\<exists>us vs. tx = us @ vs \<and> (\<forall>b \<in> set us. byte_ok c b) \<and> prefix_lang (its, e) vs)"
proof
  assume "prefix_lang (Many c # its, e) tx"
  then obtain w vs where w: "tx = w @ vs" "w \<in> items_lang (Many c # its)" "e \<longrightarrow> vs = []"
    unfolding prefix_lang_def fst_conv snd_conv by blast
  from w(2) obtain us us2 where u: "w = us @ us2" "\<forall>b \<in> set us. byte_ok c b" "us2 \<in> items_lang its" by auto
  then have "tx = us @ (us2 @ vs)" "prefix_lang (its, e) (us2 @ vs)"
    using w unfolding prefix_lang_def fst_conv snd_conv by (simp, blast)
  then show "\<exists>us vs. tx = us @ vs \<and> (\<forall>b \<in> set us. byte_ok c b) \<and> prefix_lang (its, e) vs" using u(2) by blast
next
  assume "\<exists>us vs. tx = us @ vs \<and> (\<forall>b \<in> set us. byte_ok c b) \<and> prefix_lang (its, e) vs"
  then obtain us us2 vs where w: "tx = us @ us2 @ vs" "\<forall>b \<in> set us. byte_ok c b" "us2 \<in> items_lang its" "e \<longrightarrow> vs = []"
    unfolding prefix_lang_def fst_conv snd_conv by blast
  then have "us @ us2 \<in> items_lang (Many c # its)" "tx = (us @ us2) @ vs"
    using items_lang_ConsI [of us "Many c"] by simp_all
  then show "prefix_lang (Many c # its, e) tx"
    unfolding prefix_lang_def fst_conv snd_conv using w(4) by blast
qed

lemma prefix_lang_Many_step:
  "prefix_lang (Many c # its, e) tx \<longleftrightarrow> prefix_lang (its, e) tx \<or>
    tx \<noteq> [] \<and> byte_ok c (hd tx) \<and> prefix_lang (Many c # its, e) (tl tx)" (is "?l \<longleftrightarrow> ?r")
proof
  assume ?l
  then obtain us vs where t: "tx = us @ vs" "\<forall>b \<in> set us. byte_ok c b" "prefix_lang (its, e) vs"
    unfolding prefix_lang_Many by blast
  then show ?r by (cases us) (auto simp: prefix_lang_Many)
next
  assume ?r
  then show ?l
  proof
    assume "prefix_lang (its, e) tx"
    then show ?l unfolding prefix_lang_Many by (intro exI [of _ "[]"] exI [of _ tx]) simp
  next
    assume a: "tx \<noteq> [] \<and> byte_ok c (hd tx) \<and> prefix_lang (Many c # its, e) (tl tx)"
    then obtain us vs where t: "tl tx = us @ vs" "\<forall>b \<in> set us. byte_ok c b" "prefix_lang (its, e) vs"
      unfolding prefix_lang_Many by blast
    then show ?l unfolding prefix_lang_Many
      using a by (intro exI [of _ "hd tx # us"] exI [of _ vs]) (cases tx; auto)
  qed
qed

lemma matchhere_lang:
  "matchhere re tx \<longleftrightarrow> prefix_lang (parse_re re) tx"
  "matchstar c re tx \<longleftrightarrow> prefix_lang (Many c # fst (parse_re re), snd (parse_re re)) tx"
proof (induction re tx and c re tx rule: matchhere_matchstar.induct)
  case (1 tx)
  then show ?case by (simp add: prefix_lang_Nil)
next
  case (2 c re tx)
  show ?case
  proof (cases re)
    case Nil
    then show ?thesis using 2 by (auto simp: prefix_lang_Nil prefix_lang_One byte_ok_def)
  next
    case (Cons d re')
    then show ?thesis using 2
      by (cases "parse_re re'"; cases "parse_re re") (auto simp: prefix_lang_One byte_ok_def)
  qed
next
  case (3 c re tx)
  then show ?case
    by (subst matchstar.simps, subst prefix_lang_Many_step) (auto simp: byte_ok_def)
qed

lemma match_any_lang: "match_any re tx \<longleftrightarrow> (\<exists>us vs. tx = us @ vs \<and> prefix_lang (parse_re re) vs)"
proof (induction tx)
  case (Cons t tx)
  have "(\<exists>us vs. t # tx = us @ vs \<and> prefix_lang (parse_re re) vs) \<longleftrightarrow>
      prefix_lang (parse_re re) (t # tx) \<or> (\<exists>us vs. tx = us @ vs \<and> prefix_lang (parse_re re) vs)"
    by (auto simp: Cons_eq_append_conv)
  then show ?case using Cons by (simp add: matchhere_lang(1))
qed (simp add: matchhere_lang(1))

lemma match_lang: "match re tx \<longleftrightarrow> pattern_lang re tx"
proof (cases re)
  case Nil
  have "matchhere [] t" for t by simp
  then have "match_any [] tx" by (cases tx) simp_all
  then show ?thesis using Nil by (simp add: match_def pattern_lang_def)
next
  case (Cons c re')
  then show ?thesis by (simp add: match_def pattern_lang_def match_any_lang matchhere_lang(1))
qed

end
