(* ===== verification/Text_Props.thy ===== *)
theory Text_Props
  imports Grep
begin

text \<open>Properties of the string functions, of formatted output and of the pattern matcher.\<close>

text \<open>C23: \<open>memmove\<close> moves bytes between regions that may overlap: every byte of the destination
  gets the value the source had before the call and nothing else changes.  The kernel's version
  and the user library's, which decide the direction of the copy differently, agree.\<close>

theorem memmove_versions_agree:
  assumes "unat dst + unat n < 2 ^ 64" and "unat src + unat n < 2 ^ 64" and "unat n < 2 ^ 31"
  shows "moved dst src (unat n) m (memmove dst src n m) \<and> u_memmove dst src (int (unat n)) m = memmove dst src n m"
proof -
  have k: "moved dst src (unat n) m (memmove dst src n m)" by (rule memmove_moved [OF assms(1,2)])
  have "moved dst src (nat (int (unat n))) m (u_memmove dst src (int (unat n)) m)"
    by (rule u_memmove_moved) (use assms(1,2) in simp_all)
  then show ?thesis using k moved_unique by simp
qed

theorem memmove_versions_agree_witness:
  "\<forall>m. moved 0x1008 0x1000 (unat (16 :: u32)) m (memmove 0x1008 0x1000 16 m) \<and>
     u_memmove 0x1008 0x1000 16 m = memmove 0x1008 0x1000 16 m"
  using memmove_versions_agree [of "0x1008" 16 "0x1000"] by simp

text \<open>C24: printing and reading back.  \<open>printint\<close> of user/printf.c prints every non-negative \<open>int\<close> in
  decimal without overrunning its buffer, and \<open>atoi\<close> of the printed text, stored as a string
  anywhere in memory, is the number.\<close>

theorem printint_atoi_roundtrip:
  assumes "0 \<le> v" and "v < 2 ^ 31"
  shows "\<exists>bs. u_printint v 10 True = Inr bs \<and> (\<forall>m s. cstr m s bs \<longrightarrow> atoi s m = Some v)"
  using u_printint_nonneg [OF assms] atoi_dec [of "nat v"] assms by auto

theorem printint_atoi_roundtrip_witness:
  "\<exists>bs. u_printint 2147483647 10 True = Inr bs \<and> (\<forall>m s. cstr m s bs \<longrightarrow> atoi s m = Some 2147483647)"
  using printint_atoi_roundtrip [of 2147483647] by simp



text \<open>C26: the pattern matcher of grep decides the language of the pattern: literal bytes, any byte, repetitions,
  and anchors at both ends; a pattern without a leading caret may match anywhere in the line.\<close>

theorem grep_match_language: "match re tx \<longleftrightarrow> pattern_lang re tx"
  by (rule match_lang)

text \<open>C27: \<open>strcmp\<close> on two strings in memory returns, and it returns zero exactly for equal strings.\<close>

theorem strcmp_decides_equality:
  assumes "cstr m p as" and "cstr m q bs"
  shows "\<exists>r. strcmp p q m = Some r \<and> (r = 0 \<longleftrightarrow> as = bs)"
  using strcmp_cstr [OF assms] bytes_cmp_zero [of as bs] assms by (auto simp: cstr_def)

theorem strcmp_decides_equality_witness:
  "\<exists>m :: cmem. cstr m 16 [115, 104] \<and> cstr m 32 [115] \<and> (\<exists>r. strcmp 16 32 m = Some r \<and> r \<noteq> 0)"
proof -
  let ?m = "(\<lambda>_. 0)(16 := 115, 17 := 104, 32 := 115) :: cmem"
  have "cstr ?m 16 [115, 104]" "cstr ?m 32 [115]" by (simp_all add: cstr_Cons)
  then show ?thesis using strcmp_decides_equality [of ?m 16 "[115, 104]" 32 "[115]"] by blast
qed

end
