(* ===== verification/Proc.thy ===== *)
theory Proc
  imports Spinlock Riscv
begin

text \<open>
  The process table and the parts of kernel/proc.c that work on it alone: process ids, waking,
  killing, sleeping and the switch to the scheduler.  The functions act on the state as one hart
  sees it; \<open>acquire\<close> of a lock another hart holds is \<open>Diverges\<close> (see Spinlock).
\<close>

section \<open>Data\<close>

definition NPROC :: nat where "NPROC = 64"
definition NOFILE :: nat where "NOFILE = 16"

record ctxt =
  x_ra :: u64
  x_sp :: u64
  x_s0 :: u64
  x_s1 :: u64
  x_s2 :: u64
  x_s3 :: u64
  x_s4 :: u64
  x_s5 :: u64
  x_s6 :: u64
  x_s7 :: u64
  x_s8 :: u64
  x_s9 :: u64
  x_s10 :: u64
  x_s11 :: u64

definition ctxt_zero :: ctxt where
  "ctxt_zero = \<lparr> x_ra = 0, x_sp = 0, x_s0 = 0, x_s1 = 0, x_s2 = 0, x_s3 = 0, x_s4 = 0, x_s5 = 0, x_s6 = 0,
     x_s7 = 0, x_s8 = 0, x_s9 = 0, x_s10 = 0, x_s11 = 0 \<rparr>"

text \<open>\<open>struct cpu\<close>; \<open>noff\<close> and \<open>intena\<close> are in the hart of theory Spinlock.  Processes are named
  by their index in \<open>proc[]\<close>.\<close>

record cpu =
  cpu_proc :: "nat option"
  cpu_context :: ctxt
  cpu_hart :: hart

datatype procstate = UNUSED | USED | SLEEPING | RUNNABLE | RUNNING | ZOMBIE

text \<open>What a process sleeps on: nothing, another process's entry, a buffer, an inode, the log, the tick
  counter, the console, the serial port, or some other kernel object.\<close>

datatype chan = NoChan | ProcChan nat | BufChan nat | InodeChan nat | LogChan | TicksChan | ConsChan | UartChan | AddrChan addr

record proc =
  p_lock :: spinlock
  p_state :: procstate
  p_chan :: chan
  p_killed :: int
  p_xstate :: int
  p_pid :: int
  p_parent :: "nat option"
  p_kstack :: u64
  p_sz :: u64
  p_pagetable :: addr
  p_trapframe :: addr
  p_context :: ctxt
  p_ofile :: "nat \<Rightarrow> nat option"
  p_cwd :: "nat option"
  p_name :: "u8 list"

text \<open>The globals of proc.c with the \<open>cpu\<close> of the hart that runs.\<close>

record ps =
  ps_proc :: "nat \<Rightarrow> proc"
  ps_cpu :: cpu
  ps_nextpid :: int
  ps_pid_lock :: spinlock
  ps_wait_lock :: spinlock
  ps_initproc :: "nat option"

definition upd_proc :: "nat \<Rightarrow> (proc \<Rightarrow> proc) \<Rightarrow> ps \<Rightarrow> ps" where
  "upd_proc p f s = s \<lparr> ps_proc := (ps_proc s)(p := f (ps_proc s p)) \<rparr>"

definition set_hart :: "hart \<Rightarrow> ps \<Rightarrow> ps" where
  "set_hart c s = s \<lparr> ps_cpu := (ps_cpu s) \<lparr> cpu_hart := c \<rparr> \<rparr>"

abbreviation ps_hart :: "ps \<Rightarrow> hart" where
  "ps_hart s \<equiv> cpu_hart (ps_cpu s)"

section \<open>Locks of the table\<close>

definition acquire_p :: "nat \<Rightarrow> ps \<Rightarrow> ps res" where
  "acquire_p p s =
    bindE (acquire (p_lock (ps_proc s p)) (ps_hart s)) (\<lambda>(lk, c).
      Inr (upd_proc p (p_lock_update (\<lambda>_. lk)) (set_hart c s)))"

definition release_p :: "nat \<Rightarrow> ps \<Rightarrow> ps res" where
  "release_p p s =
    bindE (release (p_lock (ps_proc s p)) (ps_hart s)) (\<lambda>(lk, c).
      Inr (upd_proc p (p_lock_update (\<lambda>_. lk)) (set_hart c s)))"

definition acquire_wait :: "ps \<Rightarrow> ps res" where
  "acquire_wait s =
    bindE (acquire (ps_wait_lock s) (ps_hart s)) (\<lambda>(lk, c). Inr (set_hart c (s \<lparr> ps_wait_lock := lk \<rparr>)))"

definition release_wait :: "ps \<Rightarrow> ps res" where
  "release_wait s =
    bindE (release (ps_wait_lock s) (ps_hart s)) (\<lambda>(lk, c). Inr (set_hart c (s \<lparr> ps_wait_lock := lk \<rparr>)))"

section \<open>Operations\<close>

definition procinit :: "ps \<Rightarrow> ps" where
  "procinit s =
    (let s1 = s \<lparr> ps_pid_lock := initlock ''nextpid'', ps_wait_lock := initlock ''wait_lock'' \<rparr> in
     fold (\<lambda>p. upd_proc p (\<lambda>pr. pr \<lparr> p_lock := initlock ''proc'', p_state := UNUSED, p_kstack := KSTACK (of_nat p) \<rparr>))
       [0..<NPROC] s1)"

definition cpuid :: "ps \<Rightarrow> nat" where
  "cpuid s = h_id (ps_hart s)"

definition mycpu :: "ps \<Rightarrow> cpu" where
  "mycpu s = ps_cpu s"

definition myproc :: "ps \<Rightarrow> (nat option \<times> ps) res" where
  "myproc s =
    (let s1 = set_hart (push_off (ps_hart s)) s; p = cpu_proc (mycpu s1) in
     bindE (pop_off (ps_hart s1)) (\<lambda>c. Inr (p, set_hart c s1)))"

definition allocpid :: "ps \<Rightarrow> (int \<times> ps) res" where
  "allocpid s =
    bindE (acquire (ps_pid_lock s) (ps_hart s)) (\<lambda>(lk, c).
    (let s1 = set_hart c (s \<lparr> ps_pid_lock := lk \<rparr>);
         pid = ps_nextpid s1;
         s2 = s1 \<lparr> ps_nextpid := signed_take_bit 31 (ps_nextpid s1 + 1) \<rparr> in
     bindE (release (ps_pid_lock s2) (ps_hart s2)) (\<lambda>(lk, c).
     Inr (pid, set_hart c (s2 \<lparr> ps_pid_lock := lk \<rparr>)))))"

text \<open>The loops over \<open>proc[]\<close> run over the indices.\<close>

definition wakeup1 :: "chan \<Rightarrow> nat \<Rightarrow> ps \<Rightarrow> ps res" where
  "wakeup1 ch p s =
    bindE (myproc s) (\<lambda>(me, s).
    if me = Some p then Inr s
    else
      bindE (acquire_p p s) (\<lambda>s.
      (let pr = ps_proc s p;
           s = (if p_state pr = SLEEPING \<and> p_chan pr = ch then upd_proc p (p_state_update (\<lambda>_. RUNNABLE)) s else s) in
       release_p p s)))"

definition wakeup :: "chan \<Rightarrow> ps \<Rightarrow> ps res" where
  "wakeup ch s = foldE (wakeup1 ch) [0..<NPROC] s"

definition reparent1 :: "nat \<Rightarrow> nat \<Rightarrow> ps \<Rightarrow> ps res" where
  "reparent1 p pp s =
    (if p_parent (ps_proc s pp) = Some p then
       (let s1 = upd_proc pp (p_parent_update (\<lambda>_. ps_initproc s)) s in
        wakeup (case ps_initproc s1 of None \<Rightarrow> NoChan | Some i \<Rightarrow> ProcChan i) s1)
     else Inr s)"

definition reparent :: "nat \<Rightarrow> ps \<Rightarrow> ps res" where
  "reparent p s = foldE (reparent1 p) [0..<NPROC] s"

fun kill_loop :: "int \<Rightarrow> nat list \<Rightarrow> ps \<Rightarrow> (int \<times> ps) res" where
  "kill_loop pid [] s = Inr (-1, s)"
| "kill_loop pid (p # qs) s =
    bindE (acquire_p p s) (\<lambda>s.
    if p_pid (ps_proc s p) = pid then
      (let s1 = upd_proc p (p_killed_update (\<lambda>_. 1)) s;
           s2 = (if p_state (ps_proc s1 p) = SLEEPING then upd_proc p (p_state_update (\<lambda>_. RUNNABLE)) s1 else s1) in
       bindE (release_p p s2) (\<lambda>s. Inr (0, s)))
    else bindE (release_p p s) (kill_loop pid qs))"

definition kill :: "int \<Rightarrow> ps \<Rightarrow> (int \<times> ps) res" where
  "kill pid s = kill_loop pid [0..<NPROC] s"

definition setkilled :: "nat \<Rightarrow> ps \<Rightarrow> ps res" where
  "setkilled p s = bindE (acquire_p p s) (\<lambda>s. release_p p (upd_proc p (p_killed_update (\<lambda>_. 1)) s))"

definition killed :: "nat \<Rightarrow> ps \<Rightarrow> (int \<times> ps) res" where
  "killed p s =
    bindE (acquire_p p s) (\<lambda>s.
    (let k = p_killed (ps_proc s p) in
     bindE (release_p p s) (\<lambda>s. Inr (k, s))))"

section \<open>Switching\<close>

text \<open>
  \<open>swtch\<close> stores the registers of the running thread and loads those of the other.  \<open>regs\<close> are the
  callee-saved registers of the hart at the call.
\<close>

definition swtch :: "ctxt \<Rightarrow> ctxt \<Rightarrow> ctxt \<times> ctxt" where
  "swtch regs new = (regs, new)"

text \<open>
  The half of \<open>sched\<close> before the switch: its checks, and \<open>swtch(&p->context, &mycpu()->context)\<close>.
  It returns the saved \<open>intena\<close> and the registers the hart goes on with.
\<close>

definition sched_enter :: "ctxt \<Rightarrow> ps \<Rightarrow> (bool \<times> ctxt \<times> ps) res" where
  "sched_enter regs s =
    bindE (myproc s) (\<lambda>(me, s).
    (case me of
       None \<Rightarrow> Inl NullDeref
     | Some p \<Rightarrow>
        guardE (holding (p_lock (ps_proc s p)) (ps_hart s)) (Panic ''sched p->lock'')
        (guardE (h_noff (ps_hart s) = 1) (Panic ''sched locks'')
        (guardE (p_state (ps_proc s p) \<noteq> RUNNING) (Panic ''sched running'')
        (guardE (\<not> h_intr (ps_hart s)) (Panic ''sched interruptible'')
          (let intena = h_intena (ps_hart s) in
           (case swtch regs (cpu_context (mycpu s)) of (saved, loaded) \<Rightarrow>
             Inr (intena, loaded, upd_proc p (p_context_update (\<lambda>_. saved)) s))))))))"

text \<open>The half of \<open>sched\<close> after the process was switched to again.\<close>

definition sched_leave :: "bool \<Rightarrow> ps \<Rightarrow> ps" where
  "sched_leave intena s = set_hart ((ps_hart s) \<lparr> h_intena := intena \<rparr>) s"

text \<open>The body of the loop in \<open>scheduler\<close>, before and after the switch to the process.\<close>

definition scheduler_pick :: "ctxt \<Rightarrow> nat \<Rightarrow> ps \<Rightarrow> (ctxt option \<times> ps) res" where
  "scheduler_pick regs p s =
    bindE (acquire_p p s) (\<lambda>s.
    if p_state (ps_proc s p) = RUNNABLE then
      (let s1 = upd_proc p (p_state_update (\<lambda>_. RUNNING)) s;
           s2 = s1 \<lparr> ps_cpu := (ps_cpu s1) \<lparr> cpu_proc := Some p \<rparr> \<rparr> in
       (case swtch regs (p_context (ps_proc s2 p)) of (saved, loaded) \<Rightarrow>
         Inr (Some loaded, s2 \<lparr> ps_cpu := (ps_cpu s2) \<lparr> cpu_context := saved \<rparr> \<rparr>)))
    else bindE (release_p p s) (\<lambda>s. Inr (None, s)))"

definition scheduler_back :: "nat \<Rightarrow> ps \<Rightarrow> ps res" where
  "scheduler_back p s = release_p p (s \<lparr> ps_cpu := (ps_cpu s) \<lparr> cpu_proc := None \<rparr> \<rparr>)"

text \<open>\<open>yield\<close> and \<open>sleep\<close> up to the switch, and what they do when the process runs again.\<close>

definition yield_enter :: "ctxt \<Rightarrow> ps \<Rightarrow> (bool \<times> ctxt \<times> ps) res" where
  "yield_enter regs s =
    bindE (myproc s) (\<lambda>(me, s).
    (case me of
       None \<Rightarrow> Inl NullDeref
     | Some p \<Rightarrow>
        bindE (acquire_p p s) (\<lambda>s. sched_enter regs (upd_proc p (p_state_update (\<lambda>_. RUNNABLE)) s))))"

definition yield_leave :: "nat \<Rightarrow> bool \<Rightarrow> ps \<Rightarrow> ps res" where
  "yield_leave p intena s = release_p p (sched_leave intena s)"

definition sleep_enter :: "ctxt \<Rightarrow> chan \<Rightarrow> spinlock \<Rightarrow> ps \<Rightarrow> (bool \<times> ctxt \<times> spinlock \<times> ps) res" where
  "sleep_enter regs ch lk s =
    bindE (myproc s) (\<lambda>(me, s).
    (case me of
       None \<Rightarrow> Inl NullDeref
     | Some p \<Rightarrow>
        bindE (acquire_p p s) (\<lambda>s.
        bindE (release lk (ps_hart s)) (\<lambda>(lk, c).
        (let s = upd_proc p (\<lambda>pr. pr \<lparr> p_chan := ch, p_state := SLEEPING \<rparr>) (set_hart c s) in
         bindE (sched_enter regs s) (\<lambda>(intena, loaded, s). Inr (intena, loaded, lk, s)))))))"

definition sleep_wake :: "nat \<Rightarrow> bool \<Rightarrow> ps \<Rightarrow> ps res" where
  "sleep_wake p intena s = release_p p (upd_proc p (p_chan_update (\<lambda>_. NoChan)) (sched_leave intena s))"

definition sleep_leave :: "nat \<Rightarrow> bool \<Rightarrow> spinlock \<Rightarrow> ps \<Rightarrow> (spinlock \<times> ps) res" where
  "sleep_leave p intena lk s =
    bindE (sleep_wake p intena s) (\<lambda>s.
    bindE (acquire lk (ps_hart s)) (\<lambda>(lk, c). Inr (lk, set_hart c s)))"

text \<open>
  The end of \<open>exit\<close>, from \<open>acquire(&p->lock)\<close> on; the caller holds \<open>wait_lock\<close>.  The switch never
  comes back.
\<close>

definition exit_enter :: "ctxt \<Rightarrow> int \<Rightarrow> nat \<Rightarrow> ps \<Rightarrow> (bool \<times> ctxt \<times> ps) res" where
  "exit_enter regs status p s =
    bindE (acquire_p p s) (\<lambda>s.
    bindE (release_wait (upd_proc p (\<lambda>pr. pr \<lparr> p_xstate := status, p_state := ZOMBIE \<rparr>) s)) (\<lambda>s.
    sched_enter regs s))"

section \<open>Listing\<close>

definition state_name :: "procstate \<Rightarrow> string" where
  "state_name st = (case st of UNUSED \<Rightarrow> ''unused'' | USED \<Rightarrow> ''used'' | SLEEPING \<Rightarrow> ''sleep '' |
     RUNNABLE \<Rightarrow> ''runble'' | RUNNING \<Rightarrow> ''run   '' | ZOMBIE \<Rightarrow> ''zombie'')"

end
