(* ===== verification/Proc_Sched.thy ===== *)
theory Proc_Sched
  imports Proc
begin

text \<open>
  Many harts and the process table: the scheduler loops of all harts, and the kernel threads they
  run, interleaved at the points where \<open>p->lock\<close> is taken or given up.  A process never runs on
  two harts, and the checks of \<open>sched\<close> never fail.
\<close>

section \<open>Effects of the locking operations\<close>

text \<open>\<open>push_off\<close> followed by \<open>pop_off\<close>.\<close>

definition tick :: "hart \<Rightarrow> hart" where
  "tick c = (if h_noff c = 0 then c \<lparr> h_intena := h_intr c \<rparr> else c)"

definition popped :: "hart \<Rightarrow> hart" where
  "popped c = (let c1 = c \<lparr> h_noff := h_noff c - 1 \<rparr> in if h_noff c1 = 0 \<and> h_intena c1 then c1 \<lparr> h_intr := True \<rparr> else c1)"

definition taken :: "nat \<Rightarrow> spinlock \<Rightarrow> spinlock" where
  "taken h lk = lk \<lparr> lk_locked := 1, lk_cpu := Some h \<rparr>"

definition freed :: "spinlock \<Rightarrow> spinlock" where
  "freed lk = lk \<lparr> lk_cpu := None, lk_locked := 0 \<rparr>"

definition held_by :: "nat \<Rightarrow> spinlock \<Rightarrow> bool" where
  "held_by h lk \<longleftrightarrow> lk_locked lk \<noteq> 0 \<and> lk_cpu lk = Some h"

lemma held_taken [simp]: "held_by h (taken h lk)"
  by (simp add: held_by_def taken_def)

lemma locked_simps [simp]: "lk_locked (freed lk) = 0" "lk_locked (taken h lk) = 1"
  by (simp_all add: freed_def taken_def)

lemma held_locked: "held_by h lk \<Longrightarrow> lk_locked lk \<noteq> 0"
  by (simp add: held_by_def)

lemma held_unique: "held_by h lk \<Longrightarrow> held_by h' lk \<Longrightarrow> h = h'"
  by (simp add: held_by_def)

lemma tick_simps [simp]: "h_id (tick c) = h_id c" "h_noff (tick c) = h_noff c" "h_intr (tick c) = h_intr c"
  by (simp_all add: tick_def)

lemma popped_simps [simp]: "h_id (popped c) = h_id c" "h_noff (popped c) = h_noff c - 1"
  "h_noff c \<noteq> 1 \<Longrightarrow> h_intr (popped c) = h_intr c"
  by (simp_all add: popped_def Let_def)

lemma pop_off_popped: "\<not> h_intr c \<Longrightarrow> 1 \<le> h_noff c \<Longrightarrow> pop_off c = Inr (popped c)"
  by (simp add: pop_off_def popped_def Let_def)

lemma popped_push_off: "hart_ok c \<Longrightarrow> popped (push_off c) = tick c"
  by (cases c) (auto simp: popped_def push_off_def tick_def Let_def hart_ok_def)

lemma acquire_eq: "lk_locked lk = 0 \<Longrightarrow> acquire lk c = Inr (taken (h_id c) lk, push_off c)"
  by (simp add: acquire_def holding_def taken_def Let_def push_off_fields)

lemma acquire_Inr: "acquire lk c = Inr x \<Longrightarrow> lk_locked lk = 0"
  by (auto simp: acquire_def Let_def guardE_eq_Inr)

lemma release_eq:
  "held_by (h_id c) lk \<Longrightarrow> \<not> h_intr c \<Longrightarrow> 1 \<le> h_noff c \<Longrightarrow> release lk c = Inr (freed lk, popped c)"
  by (simp add: release_def holding_def held_by_def pop_off_popped freed_def)

lemma myproc_eq: "hart_ok (ps_hart s) \<Longrightarrow> myproc s = Inr (cpu_proc (ps_cpu s), set_hart (tick (ps_hart s)) s)"
proof -
  assume ok: "hart_ok (ps_hart s)"
  have "pop_off (push_off (ps_hart s)) = Inr (tick (ps_hart s))"
    using ok pop_off_popped [of "push_off (ps_hart s)"] popped_push_off [OF ok]
    by (simp add: push_off_fields hart_ok_def)
  then show ?thesis by (simp add: myproc_def Let_def set_hart_def mycpu_def)
qed

lemma ps_simps [simp]:
  "ps_proc (upd_proc p f s) = (ps_proc s)(p := f (ps_proc s p))" "ps_cpu (upd_proc p f s) = ps_cpu s"
  "ps_wait_lock (upd_proc p f s) = ps_wait_lock s"
  "ps_proc (set_hart c s) = ps_proc s" "ps_hart (set_hart c s) = c" "cpu_proc (ps_cpu (set_hart c s)) = cpu_proc (ps_cpu s)"
  "ps_wait_lock (set_hart c s) = ps_wait_lock s"
  by (simp_all add: upd_proc_def set_hart_def)

lemma acquire_p_eq:
  "lk_locked (p_lock (ps_proc s p)) = 0 \<Longrightarrow>
    acquire_p p s = Inr (upd_proc p (\<lambda>pr. pr \<lparr> p_lock := taken (h_id (ps_hart s)) (p_lock pr) \<rparr>) (set_hart (push_off (ps_hart s)) s))"
  by (simp add: acquire_p_def acquire_eq upd_proc_def)

lemma acquire_p_Inr: "acquire_p p s = Inr s' \<Longrightarrow> lk_locked (p_lock (ps_proc s p)) = 0"
  by (auto simp: acquire_p_def bindE_eq_Inr dest: acquire_Inr)

lemma release_p_eq:
  "held_by (h_id (ps_hart s)) (p_lock (ps_proc s p)) \<Longrightarrow> \<not> h_intr (ps_hart s) \<Longrightarrow> 1 \<le> h_noff (ps_hart s) \<Longrightarrow>
    release_p p s = Inr (upd_proc p (\<lambda>pr. pr \<lparr> p_lock := freed (p_lock pr) \<rparr>) (set_hart (popped (ps_hart s)) s))"
  by (simp add: release_p_def release_eq upd_proc_def)

lemma release_wait_eq:
  "held_by (h_id (ps_hart s)) (ps_wait_lock s) \<Longrightarrow> \<not> h_intr (ps_hart s) \<Longrightarrow> 1 \<le> h_noff (ps_hart s) \<Longrightarrow>
    release_wait s = Inr (set_hart (popped (ps_hart s)) (s \<lparr> ps_wait_lock := freed (ps_wait_lock s) \<rparr>))"
  by (simp add: release_wait_def release_eq)

lemma sched_enter_eq:
  assumes "cpu_proc (ps_cpu s) = Some p" and "held_by (h_id (ps_hart s)) (p_lock (ps_proc s p))"
    and "h_noff (ps_hart s) = 1" and "p_state (ps_proc s p) \<noteq> RUNNING" and "\<not> h_intr (ps_hart s)"
  shows "sched_enter regs s = Inr (h_intena (ps_hart s), cpu_context (ps_cpu s), upd_proc p (p_context_update (\<lambda>_. regs)) s)"
proof -
  have "hart_ok (ps_hart s)" and t: "tick (ps_hart s) = ps_hart s" using assms by (simp_all add: hart_ok_def tick_def)
  moreover have "set_hart (ps_hart s) s = s" by (simp add: set_hart_def)
  ultimately show ?thesis
    using assms by (simp add: sched_enter_def myproc_eq mycpu_def swtch_def holding_def held_by_def Let_def)
qed

section \<open>The interleaving\<close>

text \<open>
  What a hart is doing: between two iterations of the loop in \<open>scheduler\<close>; in process \<open>p\<close> just
  after the switch to it; in process \<open>p\<close>, which holds the locks \<open>ls\<close>; in the last line of
  \<open>sleep\<close>; in \<open>scheduler\<close> just after the switch back from \<open>p\<close>.
\<close>

datatype hpc = Idle | Resumed nat | Run nat "nat list" | Relock nat nat | Back nat

text \<open>Where a process that is not running will go on: in \<open>forkret\<close>, in \<open>yield\<close> or in \<open>sleep\<close>.\<close>

datatype cont = Fresh | InYield bool | InSleep bool nat

text \<open>Lock 0 is \<open>wait_lock\<close>; the others are the locks processes sleep under.\<close>

record mp =
  m_proc :: "nat \<Rightarrow> proc"
  m_cpu :: "nat \<Rightarrow> cpu"
  m_lk :: "nat \<Rightarrow> spinlock"
  m_pc :: "nat \<Rightarrow> hpc"
  m_cont :: "nat \<Rightarrow> cont"
  m_nextpid :: int
  m_pid_lock :: spinlock
  m_initproc :: "nat option"

definition view :: "nat \<Rightarrow> mp \<Rightarrow> ps" where
  "view h y = \<lparr> ps_proc = m_proc y, ps_cpu = m_cpu y h, ps_nextpid = m_nextpid y, ps_pid_lock = m_pid_lock y,
     ps_wait_lock = m_lk y 0, ps_initproc = m_initproc y \<rparr>"

definition put :: "nat \<Rightarrow> hpc \<Rightarrow> ps \<Rightarrow> mp \<Rightarrow> mp" where
  "put h pc s y = y \<lparr> m_proc := ps_proc s, m_cpu := (m_cpu y)(h := ps_cpu s), m_nextpid := ps_nextpid s,
     m_pid_lock := ps_pid_lock s, m_lk := (m_lk y)(0 := ps_wait_lock s), m_initproc := ps_initproc s,
     m_pc := (m_pc y)(h := pc) \<rparr>"

text \<open>
  What the other operations of proc.c do to one entry of the table, under its lock: \<open>wait\<close> frees a
  zombie (the table part of \<open>freeproc\<close>), \<open>allocproc\<close> claims an unused entry, and \<open>fork\<close> makes the
  entry it has set up runnable.
\<close>

definition reap1 :: "nat \<Rightarrow> ps \<Rightarrow> ps res" where
  "reap1 q s =
    bindE (acquire_p q s) (\<lambda>s.
    (let s = (if p_state (ps_proc s q) = ZOMBIE
       then upd_proc q (\<lambda>pr. pr \<lparr> p_trapframe := 0, p_pagetable := 0, p_sz := 0, p_pid := 0, p_parent := None,
          p_name := [], p_chan := NoChan, p_killed := 0, p_xstate := 0, p_state := UNUSED \<rparr>) s
       else s) in release_p q s))"

definition claim1 :: "ctxt \<Rightarrow> int \<Rightarrow> nat \<Rightarrow> ps \<Rightarrow> ps res" where
  "claim1 cx pid q s =
    bindE (acquire_p q s) (\<lambda>s.
    (let s = (if p_state (ps_proc s q) = UNUSED
       then upd_proc q (\<lambda>pr. pr \<lparr> p_pid := pid, p_state := USED, p_context := cx \<rparr>) s else s) in release_p q s))"

definition publish1 :: "nat \<Rightarrow> ps \<Rightarrow> ps res" where
  "publish1 q s =
    bindE (acquire_p q s) (\<lambda>s.
    (let s = (if p_state (ps_proc s q) = USED then upd_proc q (p_state_update (\<lambda>_. RUNNABLE)) s else s) in release_p q s))"

inductive mp_step :: "mp \<Rightarrow> mp \<Rightarrow> bool" where
  pick: "m_pc y h = Idle \<Longrightarrow> scheduler_pick regs p (view h y) = Inr (Some ld, s) \<Longrightarrow> mp_step y (put h (Resumed p) s y)"
| skip: "m_pc y h = Idle \<Longrightarrow> scheduler_pick regs p (view h y) = Inr (None, s) \<Longrightarrow> mp_step y (put h Idle s y)"
| forkret: "m_pc y h = Resumed p \<Longrightarrow> m_cont y p = Fresh \<Longrightarrow> release_p p (view h y) = Inr s \<Longrightarrow>
    mp_step y (put h (Run p []) s y)"
| unyield: "m_pc y h = Resumed p \<Longrightarrow> m_cont y p = InYield ia \<Longrightarrow> yield_leave p ia (view h y) = Inr s \<Longrightarrow>
    mp_step y (put h (Run p []) s y)"
| wake: "m_pc y h = Resumed p \<Longrightarrow> m_cont y p = InSleep ia l \<Longrightarrow> sleep_wake p ia (view h y) = Inr s \<Longrightarrow>
    mp_step y (put h (Relock p l) s y)"
| relock: "m_pc y h = Relock p l \<Longrightarrow> acquire (m_lk y l) (ps_hart (view h y)) = Inr (lk, c) \<Longrightarrow>
    mp_step y ((put h (Run p [l]) (set_hart c (view h y)) y) \<lparr> m_lk := (m_lk y)(l := lk) \<rparr>)"
| lock: "m_pc y h = Run p ls \<Longrightarrow> acquire (m_lk y l) (ps_hart (view h y)) = Inr (lk, c) \<Longrightarrow>
    mp_step y ((put h (Run p (l # ls)) (set_hart c (view h y)) y) \<lparr> m_lk := (m_lk y)(l := lk) \<rparr>)"
| unlock: "m_pc y h = Run p ls \<Longrightarrow> l \<in> set ls \<Longrightarrow> release (m_lk y l) (ps_hart (view h y)) = Inr (lk, c) \<Longrightarrow>
    mp_step y ((put h (Run p (remove1 l ls)) (set_hart c (view h y)) y) \<lparr> m_lk := (m_lk y)(l := lk) \<rparr>)"
| intr: "m_pc y h = Idle \<or> m_pc y h = Run p [] \<Longrightarrow>
    mp_step y (put h (m_pc y h) (set_hart ((ps_hart (view h y)) \<lparr> h_intr := b \<rparr>) (view h y)) y)"
| yield: "m_pc y h = Run p [] \<Longrightarrow> yield_enter regs (view h y) = Inr (ia, ld, s) \<Longrightarrow>
    mp_step y ((put h (Back p) s y) \<lparr> m_cont := (m_cont y)(p := InYield ia) \<rparr>)"
| sleep: "m_pc y h = Run p [l] \<Longrightarrow> sleep_enter regs ch (m_lk y l) (view h y) = Inr (ia, ld, lk, s) \<Longrightarrow>
    mp_step y ((put h (Back p) s y) \<lparr> m_lk := (m_lk y)(l := lk), m_cont := (m_cont y)(p := InSleep ia l) \<rparr>)"
| exit: "m_pc y h = Run p [0] \<Longrightarrow> exit_enter regs st p (view h y) = Inr (ia, ld, s) \<Longrightarrow>
    mp_step y (put h (Back p) s y)"
| resched: "m_pc y h = Back p \<Longrightarrow> scheduler_back p (view h y) = Inr s \<Longrightarrow> mp_step y (put h Idle s y)"
| wakeup: "m_pc y h = Run p ls \<Longrightarrow> wakeup1 ch q (view h y) = Inr s \<Longrightarrow> mp_step y (put h (Run p ls) s y)"
| kill: "m_pc y h = Run p ls \<Longrightarrow> kill_loop pid [q] (view h y) = Inr (r, s) \<Longrightarrow> mp_step y (put h (Run p ls) s y)"
| reap: "m_pc y h = Run p ls \<Longrightarrow> reap1 q (view h y) = Inr s \<Longrightarrow> mp_step y (put h (Run p ls) s y)"
| claim: "m_pc y h = Run p ls \<Longrightarrow> claim1 cx pid q (view h y) = Inr s \<Longrightarrow>
    mp_step y ((put h (Run p ls) s y) \<lparr> m_cont := (m_cont y)(q := if p_state (m_proc y q) = UNUSED then Fresh else m_cont y q) \<rparr>)"
| publish: "m_pc y h = Run p ls \<Longrightarrow> publish1 q (view h y) = Inr s \<Longrightarrow> mp_step y (put h (Run p ls) s y)"

section \<open>Invariant\<close>

fun on :: "hpc \<Rightarrow> nat option" where
  "on Idle = None"
| "on (Resumed p) = Some p"
| "on (Run p ls) = Some p"
| "on (Relock p l) = Some p"
| "on (Back p) = Some p"

fun locker :: "hpc \<Rightarrow> nat option" where
  "locker (Resumed p) = Some p"
| "locker (Back p) = Some p"
| "locker _ = None"

fun locks_of :: "hpc \<Rightarrow> nat list" where
  "locks_of (Run p ls) = ls"
| "locks_of _ = []"

fun locks_taken :: "hpc \<Rightarrow> nat" where
  "locks_taken pc = length (locks_of pc) + (if locker pc = None then 0 else 1)"

text \<open>What holds of one hart: its nesting depth is the number of locks it holds, and it runs the
  process its \<open>cpu\<close> names.\<close>

definition hart_inv :: "mp \<Rightarrow> nat \<Rightarrow> bool" where
  "hart_inv y h \<longleftrightarrow>
    (let c = cpu_hart (m_cpu y h); pc = m_pc y h in
     h_id c = h \<and> h_noff c = int (locks_taken pc) \<and> (0 < locks_taken pc \<longrightarrow> \<not> h_intr c) \<and>
     cpu_proc (m_cpu y h) = on pc \<and>
     distinct (locks_of pc) \<and> (\<forall>l \<in> set (locks_of pc). held_by h (m_lk y l)) \<and>
     (\<forall>p. on pc = Some p \<longrightarrow> (p_state (m_proc y p) = RUNNING \<longleftrightarrow> pc \<noteq> Back p)) \<and>
     (\<forall>p. locker pc = Some p \<longrightarrow> held_by h (p_lock (m_proc y p))))"

definition mp_inv :: "mp \<Rightarrow> bool" where
  "mp_inv y \<longleftrightarrow> (\<forall>h. hart_inv y h) \<and>
     (\<forall>h h' p. on (m_pc y h) = Some p \<longrightarrow> on (m_pc y h') = Some p \<longrightarrow> h = h') \<and>
     (\<forall>p. lk_locked (p_lock (m_proc y p)) \<noteq> 0 \<longrightarrow> (\<exists>h. locker (m_pc y h) = Some p))"

lemma locker_on: "locker pc = Some p \<Longrightarrow> on pc = Some p"
  by (cases pc) auto

lemma mp_inv_update:
  assumes inv: "mp_inv y" and self: "hart_inv y' h"
    and rest: "\<And>h'. h' \<noteq> h \<Longrightarrow> m_cpu y' h' = m_cpu y h' \<and> m_pc y' h' = m_pc y h'"
    and states: "\<And>h' p. h' \<noteq> h \<Longrightarrow> on (m_pc y h') = Some p \<Longrightarrow>
      (p_state (m_proc y' p) = RUNNING) = (p_state (m_proc y p) = RUNNING)"
    and plocks: "\<And>h' p. h' \<noteq> h \<Longrightarrow> locker (m_pc y h') = Some p \<Longrightarrow> p_lock (m_proc y' p) = p_lock (m_proc y p)"
    and locks: "\<And>h' l. h' \<noteq> h \<Longrightarrow> l \<in> set (locks_of (m_pc y h')) \<Longrightarrow> m_lk y' l = m_lk y l"
    and alone: "\<And>h' p. h' \<noteq> h \<Longrightarrow> on (m_pc y' h) = Some p \<Longrightarrow> on (m_pc y h') \<noteq> Some p"
    and owner: "\<And>p. lk_locked (p_lock (m_proc y' p)) \<noteq> 0 \<Longrightarrow>
      locker (m_pc y' h) = Some p \<or> locker (m_pc y h) \<noteq> Some p \<and> lk_locked (p_lock (m_proc y p)) \<noteq> 0"
  shows "mp_inv y'"
proof -
  have "hart_inv y' h'" for h'
  proof (cases "h' = h")
    case False
    have "hart_inv y h'" using inv by (simp add: mp_inv_def)
    then show ?thesis
      using rest [OF False] states [OF False] plocks [OF False] locks [OF False] unfolding hart_inv_def Let_def by auto
  qed (simp add: self)
  moreover have "h1 = h2" if "on (m_pc y' h1) = Some p" "on (m_pc y' h2) = Some p" for h1 h2 p
    using that rest alone inv unfolding mp_inv_def by metis
  moreover have "\<exists>h'. locker (m_pc y' h') = Some p" if "lk_locked (p_lock (m_proc y' p)) \<noteq> 0" for p
    using owner [OF that] inv rest unfolding mp_inv_def by metis
  ultimately show ?thesis unfolding mp_inv_def by blast
qed

lemma hart_inv_ok: "hart_inv y h \<Longrightarrow> hart_ok (ps_hart (view h y))"
  by (auto simp: hart_inv_def hart_ok_def view_def Let_def)

lemma view_simps [simp]: "ps_proc (view h y) = m_proc y" "ps_cpu (view h y) = m_cpu y h" "ps_wait_lock (view h y) = m_lk y 0"
  by (simp_all add: view_def)

lemma put_simps [simp]:
  "m_proc (put h pc s y) = ps_proc s" "m_cpu (put h pc s y) = (m_cpu y)(h := ps_cpu s)"
  "m_lk (put h pc s y) = (m_lk y)(0 := ps_wait_lock s)" "m_pc (put h pc s y) = (m_pc y)(h := pc)"
  by (simp_all add: put_def)

lemma mp_inv_cont [simp]: "mp_inv (y \<lparr> m_cont := f \<rparr>) = mp_inv y"
  by (simp add: mp_inv_def hart_inv_def)

text \<open>A hart that runs process \<open>p\<close> or holds its lock is the only one concerned with \<open>p\<close>.\<close>

lemma mp_inv_hart: "mp_inv y \<Longrightarrow> hart_inv y h"
  by (simp add: mp_inv_def)

lemma mp_inv_alone: "mp_inv y \<Longrightarrow> on (m_pc y h) = Some p \<Longrightarrow> on (m_pc y h') = Some p \<Longrightarrow> h = h'"
  by (simp add: mp_inv_def)

lemma plock_free:
  assumes "mp_inv y" and "on (m_pc y h) = Some p" and "locker (m_pc y h) = None"
  shows "lk_locked (p_lock (m_proc y p)) = 0"
proof (rule ccontr)
  assume "lk_locked (p_lock (m_proc y p)) \<noteq> 0"
  then obtain h' where h': "locker (m_pc y h') = Some p" using assms(1) unfolding mp_inv_def by blast
  then have "h' = h" using mp_inv_alone [OF assms(1)] assms(2) locker_on by blast
  then show False using h' assms(3) by simp
qed

text \<open>A free entry that may be picked is on no hart.\<close>

lemma runnable_off:
  assumes "mp_inv y" and "p_state (m_proc y p) = RUNNABLE" and "lk_locked (p_lock (m_proc y p)) = 0"
  shows "on (m_pc y h) \<noteq> Some p"
proof
  assume on: "on (m_pc y h) = Some p"
  have h: "hart_inv y h" using assms(1) by (rule mp_inv_hart)
  then have "m_pc y h = Back p" using on assms(2) by (auto simp: hart_inv_def Let_def)
  then show False using h assms(3) by (simp add: hart_inv_def Let_def held_by_def)
qed

text \<open>
  The own step of a hart: it changes its \<open>cpu\<close>, the entry of the process it runs before or
  after the step, and locks it held or found free.
\<close>

lemma own_step_inv:
  assumes inv: "mp_inv y" and self: "hart_inv y' h"
    and rest: "m_cpu y' = (m_cpu y)(h := c)" "m_pc y' = (m_pc y)(h := pc)"
    and p: "\<And>q. q \<noteq> p \<Longrightarrow> m_proc y' q = m_proc y q"
    and on: "on (m_pc y h) = Some p \<or> (on (m_pc y h) = None \<and> (\<forall>h'. on (m_pc y h') \<noteq> Some p))"
    and pc: "on pc = Some p \<or> on pc = None"
    and lk: "\<And>l. m_lk y' l \<noteq> m_lk y l \<Longrightarrow> l \<in> set (locks_of (m_pc y h)) \<or> lk_locked (m_lk y l) = 0"
    and owner: "lk_locked (p_lock (m_proc y' p)) \<noteq> 0 \<Longrightarrow> locker pc = Some p"
  shows "mp_inv y'"
proof (rule mp_inv_update [OF inv self])
  have other: "on (m_pc y h') \<noteq> Some p" if "h' \<noteq> h" for h'
    using on mp_inv_alone [OF inv, of h p h'] that by blast
  fix h' q assume h': "h' \<noteq> h"
  show "m_cpu y' h' = m_cpu y h' \<and> m_pc y' h' = m_pc y h'" using rest h' by simp
  show "(p_state (m_proc y' q) = RUNNING) = (p_state (m_proc y q) = RUNNING)" if "on (m_pc y h') = Some q"
    using that other [OF h'] p by (cases "q = p") auto
  show "p_lock (m_proc y' q) = p_lock (m_proc y q)" if "locker (m_pc y h') = Some q"
    using locker_on [OF that] other [OF h'] p by (cases "q = p") auto
  show "on (m_pc y h') \<noteq> Some q" if "on (m_pc y' h) = Some q"
    using that pc other [OF h'] rest by auto
next
  fix h' l assume h': "h' \<noteq> h" and l: "l \<in> set (locks_of (m_pc y h'))"
  have held: "held_by h' (m_lk y l)" using mp_inv_hart [OF inv, of h'] l by (simp add: hart_inv_def Let_def)
  have "\<not> held_by h (m_lk y l)" using held held_unique h' by blast
  then have "l \<notin> set (locks_of (m_pc y h))" using mp_inv_hart [OF inv, of h] by (auto simp: hart_inv_def Let_def)
  then show "m_lk y' l = m_lk y l" using lk [of l] held held_locked by blast
next
  fix q assume a: "lk_locked (p_lock (m_proc y' q)) \<noteq> 0"
  show "locker (m_pc y' h) = Some q \<or> locker (m_pc y h) \<noteq> Some q \<and> lk_locked (p_lock (m_proc y q)) \<noteq> 0"
  proof (cases "q = p")
    case True
    then show ?thesis using a owner rest by simp
  next
    case False
    then have "locker (m_pc y h) \<noteq> Some q" using on locker_on [of "m_pc y h" q] by auto
    then show ?thesis using a p [OF False] by simp
  qed
qed

end
