(* ===== verification/Proc_Inv.thy ===== *)
theory Proc_Inv
  imports Proc_Sched
begin

text \<open>
  Every step of the interleaving keeps the invariant; the calls that reach \<open>sched\<close> succeed.
\<close>

section \<open>Visiting one entry of the table\<close>

text \<open>
  Taking the lock of entry \<open>q\<close>, changing the entry and giving the lock up, as the loops over the
  table do.
\<close>

definition touch :: "nat \<Rightarrow> ps \<Rightarrow> ps \<Rightarrow> bool" where
  "touch q s s' \<longleftrightarrow> ps_cpu s' = (ps_cpu s) \<lparr> cpu_hart := tick (ps_hart s) \<rparr> \<and> ps_wait_lock s' = ps_wait_lock s \<and>
    (\<forall>p. p \<noteq> q \<longrightarrow> ps_proc s' p = ps_proc s p) \<and>
    (p_state (ps_proc s' q) = RUNNING \<longleftrightarrow> p_state (ps_proc s q) = RUNNING) \<and>
    (p_lock (ps_proc s' q) = p_lock (ps_proc s q) \<or>
     lk_locked (p_lock (ps_proc s q)) = 0 \<and> lk_locked (p_lock (ps_proc s' q)) = 0)"

definition visit :: "nat \<Rightarrow> (proc \<Rightarrow> proc) \<Rightarrow> ps \<Rightarrow> ps res" where
  "visit q f s = bindE (acquire_p q s) (\<lambda>s. release_p q (upd_proc q f s))"

lemma upd_proc_id: "upd_proc q (\<lambda>pr. pr) s = s"
  by (simp add: upd_proc_def)

lemma visit_if: "(if b (ps_proc s q) then upd_proc q f s else s) = upd_proc q (\<lambda>pr. if b pr then f pr else pr) s"
  by (simp add: upd_proc_def)

lemma visit_touch:
  assumes "visit q f s = Inr s'" and ok: "hart_ok (ps_hart s)" and "\<And>pr. p_lock (f pr) = p_lock pr"
    and "\<And>pr. p_state (f pr) = RUNNING \<longleftrightarrow> p_state pr = RUNNING"
  shows "touch q s s'"
proof -
  let ?c = "ps_hart s"
  obtain s1 where s1: "acquire_p q s = Inr s1" and s': "release_p q (upd_proc q f s1) = Inr s'"
    using assms(1) by (auto simp: visit_def bindE_eq_Inr)
  have free: "lk_locked (p_lock (ps_proc s q)) = 0" using acquire_p_Inr [OF s1] .
  have e1: "s1 = upd_proc q (\<lambda>pr. pr \<lparr> p_lock := taken (h_id ?c) (p_lock pr) \<rparr>) (set_hart (push_off ?c) s)"
    using s1 acquire_p_eq [OF free] by simp
  have n: "1 \<le> h_noff (push_off ?c)" "\<not> h_intr (push_off ?c)" "h_id (push_off ?c) = h_id ?c"
    using ok by (simp_all add: push_off_fields hart_ok_def)
  have h1: "ps_hart (upd_proc q f s1) = push_off ?c" and l1: "p_lock (ps_proc (upd_proc q f s1) q) = taken (h_id ?c) (p_lock (ps_proc s q))"
    unfolding e1 using assms(3) by simp_all
  have "s' = upd_proc q (\<lambda>pr. pr \<lparr> p_lock := freed (p_lock pr) \<rparr>) (set_hart (popped (push_off ?c)) (upd_proc q f s1))"
    using s' release_p_eq [of "upd_proc q f s1" q] h1 l1 n by simp
  then show ?thesis
    unfolding touch_def e1 popped_push_off [OF ok] using assms(3,4) free
    by (simp add: set_hart_def upd_proc_def)
qed

lemma touch_refl: "ps_hart s = tick c \<Longrightarrow> touch q s s"
  by (simp add: touch_def tick_def)

lemma touch_tick: "touch q (set_hart (tick (ps_hart s)) s) s' \<Longrightarrow> touch q s s'"
  by (simp add: touch_def set_hart_def tick_def split: if_splits)

lemma wakeup1_touch:
  assumes "wakeup1 ch q s = Inr s'" and ok: "hart_ok (ps_hart s)"
  shows "touch q s s'"
proof -
  let ?s = "set_hart (tick (ps_hart s)) s"
  let ?f = "\<lambda>pr. if p_state pr = SLEEPING \<and> p_chan pr = ch then p_state_update (\<lambda>_. RUNNABLE) pr else pr"
  have ok': "hart_ok (ps_hart ?s)" using ok by (simp add: hart_ok_def)
  have "(if cpu_proc (ps_cpu s) = Some q then Inr ?s else visit q ?f ?s) = Inr s'"
    using assms(1) unfolding wakeup1_def myproc_eq [OF ok] visit_def Let_def bindE_Inr prod.case
      visit_if [where b = "\<lambda>pr. p_state pr = SLEEPING \<and> p_chan pr = ch"] by simp
  then have "touch q ?s s'"
  proof (cases "cpu_proc (ps_cpu s) = Some q")
    case False
    then have v: "visit q ?f ?s = Inr s'" using \<open>(if _ then _ else _) = _\<close> by simp
    show ?thesis by (rule visit_touch [OF v ok']) (auto split: if_splits)
  qed (use touch_refl [of ?s "ps_hart s" q] ps_simps(5) [of "tick (ps_hart s)" s] in force)
  then show ?thesis by (rule touch_tick)
qed

lemma kill_touch:
  assumes "kill_loop pid [q] s = Inr (r, s')" and ok: "hart_ok (ps_hart s)"
  shows "touch q s s'"
proof -
  let ?g = "\<lambda>pr. if p_state pr = SLEEPING then pr \<lparr> p_killed := 1, p_state := RUNNABLE \<rparr> else pr \<lparr> p_killed := 1 \<rparr>"
  let ?f = "\<lambda>pr. if p_pid pr = pid then ?g pr else pr"
  have e: "(if p_state (ps_proc t q) = SLEEPING
      then upd_proc q (p_state_update (\<lambda>_. RUNNABLE)) (upd_proc q (p_killed_update (\<lambda>_. 1)) t)
      else upd_proc q (p_killed_update (\<lambda>_. 1)) t) = upd_proc q ?g t" for t
    by (simp add: upd_proc_def)
  obtain s1 where s1: "acquire_p q s = Inr s1" using assms(1) by (auto simp: bindE_eq_Inr)
  have "release_p q (upd_proc q ?f s1) = Inr s'"
  proof (cases "p_pid (ps_proc s1 q) = pid")
    case True
    then have "release_p q (upd_proc q ?g s1) = Inr s'" using assms(1) s1 by (simp add: Let_def e bindE_eq_Inr)
    moreover have "upd_proc q ?g s1 = upd_proc q ?f s1" using True by (simp add: upd_proc_def)
    ultimately show ?thesis by simp
  next
    case False
    then have "upd_proc q ?f s1 = s1" by (simp add: upd_proc_def)
    then show ?thesis using assms(1) s1 False by (simp add: bindE_eq_Inr)
  qed
  then have v: "visit q ?f s = Inr s'" using s1 by (simp add: visit_def)
  show ?thesis by (rule visit_touch [OF v ok]) (auto split: if_splits)
qed

lemma table_touch:
  assumes ok: "hart_ok (ps_hart s)"
  shows "reap1 q s = Inr s' \<Longrightarrow> touch q s s'" and "claim1 cx pid q s = Inr s' \<Longrightarrow> touch q s s'"
    and "publish1 q s = Inr s' \<Longrightarrow> touch q s s'"
proof -
  assume "reap1 q s = Inr s'"
  then show "touch q s s'"
    unfolding reap1_def Let_def visit_if [where b = "\<lambda>pr. p_state pr = ZOMBIE"] visit_def [symmetric]
    by (rule visit_touch [OF _ ok]) auto
next
  assume "claim1 cx pid q s = Inr s'"
  then show "touch q s s'"
    unfolding claim1_def Let_def visit_if [where b = "\<lambda>pr. p_state pr = UNUSED"] visit_def [symmetric]
    by (rule visit_touch [OF _ ok]) auto
next
  assume "publish1 q s = Inr s'"
  then show "touch q s s'"
    unfolding publish1_def Let_def visit_if [where b = "\<lambda>pr. p_state pr = USED"] visit_def [symmetric]
    by (rule visit_touch [OF _ ok]) auto
qed

lemma skip_touch:
  assumes "scheduler_pick regs q s = Inr (None, s')" and ok: "hart_ok (ps_hart s)"
  shows "touch q s s'"
proof -
  obtain s1 where s1: "acquire_p q s = Inr s1" "release_p q s1 = Inr s'"
    using assms(1) by (auto simp: scheduler_pick_def bindE_eq_Inr swtch_def Let_def split: if_splits)
  then have v: "visit q (\<lambda>pr. pr) s = Inr s'" by (simp add: visit_def upd_proc_id)
  show ?thesis by (rule visit_touch [OF v ok]) auto
qed

lemma touch_inv:
  assumes inv: "mp_inv y" and t: "touch q (view h y) s"
  shows "mp_inv (put h (m_pc y h) s y)"
proof (rule mp_inv_update [OF inv, where h = h])
  have cpu: "ps_cpu s = (m_cpu y h) \<lparr> cpu_hart := tick (cpu_hart (m_cpu y h)) \<rparr>" and w: "ps_wait_lock s = m_lk y 0"
    and p: "\<And>p. p \<noteq> q \<Longrightarrow> ps_proc s p = m_proc y p"
    and st: "p_state (ps_proc s q) = RUNNING \<longleftrightarrow> p_state (m_proc y q) = RUNNING"
    and lk: "p_lock (ps_proc s q) = p_lock (m_proc y q) \<or>
     lk_locked (p_lock (m_proc y q)) = 0 \<and> lk_locked (p_lock (ps_proc s q)) = 0"
    using t by (simp_all add: touch_def)
  have st': "p_state (ps_proc s p) = RUNNING \<longleftrightarrow> p_state (m_proc y p) = RUNNING" for p
    using p [of p] st by (cases "p = q") simp_all
  have lk': "p_lock (ps_proc s p) = p_lock (m_proc y p)" if "held_by h' (p_lock (m_proc y p))" for p h'
    using p [of p] lk that held_locked by (cases "p = q") auto
  have lkh: "held_by h' (p_lock (ps_proc s p))" if "held_by h' (p_lock (m_proc y p))" for p h'
    using lk' [OF that] that by simp
  show "hart_inv (put h (m_pc y h) s y) h"
    using mp_inv_hart [OF inv, of h] lkh st' by (simp add: hart_inv_def Let_def cpu w fun_upd_idem)
  fix h' pr assume h': "h' \<noteq> h"
  show "m_cpu (put h (m_pc y h) s y) h' = m_cpu y h' \<and> m_pc (put h (m_pc y h) s y) h' = m_pc y h'"
    using h' by simp
  show "(p_state (m_proc (put h (m_pc y h) s y) pr) = RUNNING) = (p_state (m_proc y pr) = RUNNING)"
    using st' by simp
  show "p_lock (m_proc (put h (m_pc y h) s y) pr) = p_lock (m_proc y pr)" if "locker (m_pc y h') = Some pr"
    using lk' [of h' pr] that mp_inv_hart [OF inv, of h'] by (simp add: hart_inv_def Let_def)
  show "on (m_pc y h') \<noteq> Some pr" if "on (m_pc (put h (m_pc y h) s y) h) = Some pr"
    using that mp_inv_alone [OF inv, of h pr h'] h' by auto
  show "m_lk (put h (m_pc y h) s y) l = m_lk y l" for l using w by simp
next
  fix p assume a: "lk_locked (p_lock (m_proc (put h (m_pc y h) s y) p)) \<noteq> 0"
  then have "lk_locked (p_lock (m_proc y p)) \<noteq> 0"
    using t by (cases "p = q") (auto simp: touch_def)
  then show "locker (m_pc (put h (m_pc y h) s y) h) = Some p \<or>
      locker (m_pc y h) \<noteq> Some p \<and> lk_locked (p_lock (m_proc y p)) \<noteq> 0" by simp
qed

section \<open>The steps of a hart\<close>

lemma pick_inv:
  assumes inv: "mp_inv y" and idle: "m_pc y h = Idle" and r: "scheduler_pick regs p (view h y) = Inr (Some ld, s)"
  shows "mp_inv (put h (Resumed p) s y)"
proof -
  let ?c = "cpu_hart (m_cpu y h)"
  obtain s1 where s1: "acquire_p p (view h y) = Inr s1" and run: "p_state (ps_proc s1 p) = RUNNABLE"
    using r by (auto simp: scheduler_pick_def bindE_eq_Inr split: if_splits)
  have free: "lk_locked (p_lock (m_proc y p)) = 0" using acquire_p_Inr [OF s1] by simp
  have e1: "s1 = upd_proc p (\<lambda>pr. pr \<lparr> p_lock := taken (h_id ?c) (p_lock pr) \<rparr>) (set_hart (push_off ?c) (view h y))"
    using s1 acquire_p_eq [of "view h y" p] free by simp
  have off: "on (m_pc y h') \<noteq> Some p" for h' using runnable_off [OF inv _ free] run unfolding e1 by simp
  have proc: "ps_proc s = (m_proc y)(p := (m_proc y p) \<lparr> p_lock := taken (h_id ?c) (p_lock (m_proc y p)), p_state := RUNNING \<rparr>)"
    and hart: "cpu_hart (ps_cpu s) = push_off ?c" "cpu_proc (ps_cpu s) = Some p" and w: "ps_wait_lock s = m_lk y 0"
    using r run s1 unfolding scheduler_pick_def by (auto simp: e1 swtch_def Let_def upd_proc_def set_hart_def)
  have h: "hart_inv y h" using inv by (rule mp_inv_hart)
  have "hart_inv (put h (Resumed p) s y) h"
    using h idle hart by (simp add: hart_inv_def Let_def proc push_off_fields)
  then show ?thesis
    by (rule own_step_inv [OF inv, where p = p and pc = "Resumed p"]) (use idle off w in \<open>simp_all add: proc\<close>)
qed

text \<open>The process gives up its own lock after the switch to it.\<close>

lemma resume_inv:
  assumes inv: "mp_inv y" and pc: "m_pc y h = Resumed p" and s0: "ps_proc s0 = (m_proc y)(p := pr)"
    "p_lock pr = p_lock (m_proc y p)" "p_state pr = p_state (m_proc y p)" "ps_wait_lock s0 = m_lk y 0"
    "h_id (ps_hart s0) = h" "h_noff (ps_hart s0) = 1" "\<not> h_intr (ps_hart s0)" "cpu_proc (ps_cpu s0) = Some p"
    and r: "release_p p s0 = Inr s" and new: "pc' = Run p [] \<or> pc' = Relock p l"
  shows "mp_inv (put h pc' s y)"
proof -
  have h: "hart_inv y h" using inv by (rule mp_inv_hart)
  have held: "held_by h (p_lock (m_proc y p))" using h pc by (simp add: hart_inv_def Let_def)
  have "release_p p s0 = Inr (upd_proc p (\<lambda>pr. pr \<lparr> p_lock := freed (p_lock pr) \<rparr>) (set_hart (popped (ps_hart s0)) s0))"
    by (rule release_p_eq) (use s0 held in simp_all)
  then have s: "s = upd_proc p (\<lambda>pr. pr \<lparr> p_lock := freed (p_lock pr) \<rparr>) (set_hart (popped (ps_hart s0)) s0)" using r by simp
  have proc: "ps_proc s = (m_proc y)(p := pr \<lparr> p_lock := freed (p_lock pr) \<rparr>)" "ps_hart s = popped (ps_hart s0)"
    "cpu_proc (ps_cpu s) = Some p" "ps_wait_lock s = m_lk y 0" using s s0 by simp_all
  have "hart_inv (put h pc' s y) h"
    using h pc new s0 by (auto simp: hart_inv_def Let_def proc)
  then show ?thesis
    by (rule own_step_inv [OF inv, where p = p and pc = pc']) (use pc new in \<open>auto simp: proc\<close>)
qed

lemma hart_fields:
  assumes "mp_inv y"
  shows "h_id (cpu_hart (m_cpu y h)) = h" and "h_noff (cpu_hart (m_cpu y h)) = int (locks_taken (m_pc y h))"
    and "0 < locks_taken (m_pc y h) \<Longrightarrow> \<not> h_intr (cpu_hart (m_cpu y h))" and "cpu_proc (m_cpu y h) = on (m_pc y h)"
  using mp_inv_hart [OF assms, of h] by (simp_all add: hart_inv_def Let_def)

lemma forkret_inv:
  assumes "mp_inv y" and "m_pc y h = Resumed p" and "release_p p (view h y) = Inr s"
  shows "mp_inv (put h (Run p []) s y)"
  by (rule resume_inv [OF assms(1,2) _ _ _ _ _ _ _ _ assms(3), where pr = "m_proc y p"])
    (use hart_fields [OF assms(1), of h] assms(2) in simp_all)

lemma unyield_inv:
  assumes "mp_inv y" and "m_pc y h = Resumed p" and "yield_leave p ia (view h y) = Inr s"
  shows "mp_inv (put h (Run p []) s y)"
  by (rule resume_inv [OF assms(1,2) _ _ _ _ _ _ _ _ assms(3) [unfolded yield_leave_def], where pr = "m_proc y p"])
    (use hart_fields [OF assms(1), of h] assms(2) in \<open>simp_all add: sched_leave_def\<close>)

lemma wake_inv:
  assumes "mp_inv y" and "m_pc y h = Resumed p" and "sleep_wake p ia (view h y) = Inr s"
  shows "mp_inv (put h (Relock p l) s y)"
  by (rule resume_inv [OF assms(1,2) _ _ _ _ _ _ _ _ assms(3) [unfolded sleep_wake_def],
        where pr = "(m_proc y p) \<lparr> p_chan := NoChan \<rparr>"])
    (use hart_fields [OF assms(1), of h] assms(2) in \<open>simp_all add: sched_leave_def\<close>)

lemma lock_inv:
  assumes inv: "mp_inv y" and pc: "m_pc y h = Relock p l \<and> ls = [] \<or> m_pc y h = Run p ls"
    and r: "acquire (m_lk y l) (cpu_hart (m_cpu y h)) = Inr (lk, c)"
  shows "mp_inv ((put h (Run p (l # ls)) (set_hart c (view h y)) y) \<lparr> m_lk := (m_lk y)(l := lk) \<rparr>)"
proof -
  have h: "hart_inv y h" using inv by (rule mp_inv_hart)
  have free: "lk_locked (m_lk y l) = 0" using acquire_Inr [OF r] .
  then have e: "lk = taken h (m_lk y l)" "c = push_off (cpu_hart (m_cpu y h))"
    using r acquire_eq [OF free, of "cpu_hart (m_cpu y h)"] hart_fields [OF inv, of h] by simp_all
  have nl: "l \<notin> set ls"
  proof
    assume "l \<in> set ls"
    then have "held_by h (m_lk y l)" using h pc by (auto simp: hart_inv_def Let_def)
    then show False using free held_locked by blast
  qed
  have "on (m_pc y h) = Some p" "locker (m_pc y h) = None" "locks_of (m_pc y h) = ls" using pc by auto
  moreover have "p_state (m_proc y p) = RUNNING" using h pc by (auto simp: hart_inv_def Let_def)
  ultimately have "hart_inv ((put h (Run p (l # ls)) (set_hart c (view h y)) y) \<lparr> m_lk := (m_lk y)(l := lk) \<rparr>) h"
    using h nl by (auto simp: hart_inv_def Let_def e push_off_fields)
  then show ?thesis
    by (rule own_step_inv [OF inv, where p = p and pc = "Run p (l # ls)"])
      (use \<open>on (m_pc y h) = Some p\<close> plock_free [OF inv \<open>on (m_pc y h) = Some p\<close> \<open>locker (m_pc y h) = None\<close>] free in \<open>auto split: if_splits\<close>)
qed

lemma unlock_inv:
  assumes inv: "mp_inv y" and pc: "m_pc y h = Run p ls" and l: "l \<in> set ls"
    and r: "release (m_lk y l) (cpu_hart (m_cpu y h)) = Inr (lk, c)"
  shows "mp_inv ((put h (Run p (remove1 l ls)) (set_hart c (view h y)) y) \<lparr> m_lk := (m_lk y)(l := lk) \<rparr>)"
proof -
  have h: "hart_inv y h" using inv by (rule mp_inv_hart)
  note f = hart_fields [OF inv, of h]
  have held: "held_by h (m_lk y l)" using h pc l by (simp add: hart_inv_def Let_def)
  have len: "1 \<le> length ls" "length (remove1 l ls) = length ls - 1" using l by (auto simp: Suc_le_eq length_remove1 intro: length_pos_if_in_set)
  have ni: "\<not> h_intr (cpu_hart (m_cpu y h))" using f(3) pc len(1) by fastforce
  then have e: "lk = freed (m_lk y l)" "c = popped (cpu_hart (m_cpu y h))"
    using r release_eq [of "cpu_hart (m_cpu y h)" "m_lk y l"] held f pc len(1) by simp_all
  have "remove1 l ls = [] \<or> \<not> h_intr c"
  proof (cases "length ls = 1")
    case True
    then show ?thesis using len(2) by simp
  next
    case False
    then show ?thesis using f pc ni unfolding e by simp
  qed
  then have "hart_inv ((put h (Run p (remove1 l ls)) (set_hart c (view h y)) y) \<lparr> m_lk := (m_lk y)(l := lk) \<rparr>) h"
    using h pc len unfolding e by (auto simp: hart_inv_def Let_def of_nat_diff)
  then show ?thesis
    by (rule own_step_inv [OF inv, where p = p and pc = "Run p (remove1 l ls)"]) (use pc l plock_free [OF inv, of h p] in \<open>auto split: if_splits\<close>)
qed

lemma intr_inv:
  assumes inv: "mp_inv y" and pc: "m_pc y h = Idle \<or> m_pc y h = Run p []"
  shows "mp_inv (put h (m_pc y h) (set_hart ((cpu_hart (m_cpu y h)) \<lparr> h_intr := b \<rparr>) (view h y)) y)"
proof -
  let ?y = "put h (m_pc y h) (set_hart ((cpu_hart (m_cpu y h)) \<lparr> h_intr := b \<rparr>) (view h y)) y"
  have eq: "m_proc ?y = m_proc y" "m_lk ?y = m_lk y" "m_pc ?y = m_pc y" "\<And>h'. h' \<noteq> h \<Longrightarrow> m_cpu ?y h' = m_cpu y h'"
    by simp_all
  have "hart_inv ?y h'" for h'
  proof (cases "h' = h")
    case True
    then show ?thesis using mp_inv_hart [OF inv, of h] pc by (auto simp: hart_inv_def Let_def)
  next
    case False
    from mp_inv_hart [OF inv, of h'] show ?thesis unfolding hart_inv_def eq(1-3) eq(4) [OF False] .
  qed
  then show ?thesis using inv unfolding mp_inv_def eq(1-3) by blast
qed

text \<open>
  The process gives the hart back: it holds its own lock, has changed its state and calls
  \<open>sched\<close>.
\<close>

lemma leave_inv:
  assumes inv: "mp_inv y" and pc: "m_pc y h = Run p ls" and s0: "ps_proc s0 = (m_proc y)(p := pr)"
    "p_lock pr = taken h lk" "p_state pr \<noteq> RUNNING"
    "h_id (ps_hart s0) = h" "h_noff (ps_hart s0) = 1" "\<not> h_intr (ps_hart s0)" "cpu_proc (ps_cpu s0) = Some p"
    and r: "sched_enter regs s0 = Inr (ia, ld, s)"
    and y': "m_proc y' = ps_proc s" "m_cpu y' = (m_cpu y)(h := ps_cpu s)" "m_pc y' = (m_pc y)(h := Back p)"
    and lk: "\<And>l. ps_wait_lock s = ps_wait_lock s0 \<Longrightarrow> l \<notin> set ls \<Longrightarrow> m_lk y' l = m_lk y l"
  shows "mp_inv y'"
proof -
  have h: "hart_inv y h" using inv by (rule mp_inv_hart)
  have "sched_enter regs s0 = Inr (h_intena (ps_hart s0), cpu_context (ps_cpu s0), upd_proc p (p_context_update (\<lambda>_. regs)) s0)"
    by (rule sched_enter_eq) (use s0 in simp_all)
  then have s: "s = upd_proc p (p_context_update (\<lambda>_. regs)) s0" using r by simp
  have proc: "ps_proc s = (m_proc y)(p := pr \<lparr> p_context := regs \<rparr>)" "ps_cpu s = ps_cpu s0"
    "ps_wait_lock s = ps_wait_lock s0" using s s0 by simp_all
  have "hart_inv y' h"
    using s0 by (simp add: hart_inv_def Let_def proc y')
  then show ?thesis
    by (rule own_step_inv [OF inv, where p = p and pc = "Back p"]) (use pc lk in \<open>auto simp: proc y'\<close>)
qed

lemma yield_enter_sched:
  assumes inv: "mp_inv y" and pc: "m_pc y h = Run p []"
  shows "\<exists>s0. yield_enter regs (view h y) = sched_enter regs s0 \<and>
    ps_proc s0 = (m_proc y)(p := (m_proc y p) \<lparr> p_lock := taken h (p_lock (m_proc y p)), p_state := RUNNABLE \<rparr>) \<and>
    h_id (ps_hart s0) = h \<and> h_noff (ps_hart s0) = 1 \<and> \<not> h_intr (ps_hart s0) \<and> cpu_proc (ps_cpu s0) = Some p \<and>
    ps_wait_lock s0 = m_lk y 0"
proof -
  let ?c = "cpu_hart (m_cpu y h)" let ?s = "set_hart (tick (cpu_hart (m_cpu y h))) (view h y)"
  have ok: "hart_ok (ps_hart (view h y))" by (rule hart_inv_ok [OF mp_inv_hart [OF inv]])
  have free: "lk_locked (p_lock (ps_proc ?s p)) = 0" using plock_free [OF inv, of h p] pc by simp
  note f = hart_fields [OF inv, of h]
  let ?s1 = "upd_proc p (\<lambda>pr. pr \<lparr> p_lock := taken (h_id (ps_hart ?s)) (p_lock pr) \<rparr>) (set_hart (push_off (ps_hart ?s)) ?s)"
  have "yield_enter regs (view h y) = sched_enter regs (upd_proc p (p_state_update (\<lambda>_. RUNNABLE)) ?s1)"
    unfolding yield_enter_def using myproc_eq [OF ok] f pc acquire_p_eq [OF free] by simp
  then show ?thesis
    by (intro exI [of _ "upd_proc p (p_state_update (\<lambda>_. RUNNABLE)) ?s1"]) (use f pc in \<open>simp add: push_off_fields\<close>)
qed

lemma sleep_enter_sched:
  assumes inv: "mp_inv y" and pc: "m_pc y h = Run p [l]"
  shows "\<exists>s0. sleep_enter regs ch (m_lk y l) (view h y) =
      bindE (sched_enter regs s0) (\<lambda>(intena, loaded, s). Inr (intena, loaded, freed (m_lk y l), s)) \<and>
    ps_proc s0 = (m_proc y)(p := (m_proc y p) \<lparr> p_lock := taken h (p_lock (m_proc y p)), p_chan := ch, p_state := SLEEPING \<rparr>) \<and>
    h_id (ps_hart s0) = h \<and> h_noff (ps_hart s0) = 1 \<and> \<not> h_intr (ps_hart s0) \<and> cpu_proc (ps_cpu s0) = Some p \<and>
    ps_wait_lock s0 = m_lk y 0"
proof -
  let ?c = "cpu_hart (m_cpu y h)" let ?s = "set_hart (tick (cpu_hart (m_cpu y h))) (view h y)"
  have ok: "hart_ok (ps_hart (view h y))" by (rule hart_inv_ok [OF mp_inv_hart [OF inv]])
  have free: "lk_locked (p_lock (ps_proc ?s p)) = 0" using plock_free [OF inv, of h p] pc by simp
  note f = hart_fields [OF inv, of h]
  have held: "held_by h (m_lk y l)" using mp_inv_hart [OF inv, of h] pc by (simp add: hart_inv_def Let_def)
  let ?s1 = "upd_proc p (\<lambda>pr. pr \<lparr> p_lock := taken (h_id (ps_hart ?s)) (p_lock pr) \<rparr>) (set_hart (push_off (ps_hart ?s)) ?s)"
  have rel: "release (m_lk y l) (ps_hart ?s1) = Inr (freed (m_lk y l), popped (ps_hart ?s1))"
    by (rule release_eq) (use f pc held in \<open>simp_all add: push_off_fields\<close>)
  let ?s0 = "upd_proc p (\<lambda>pr. pr \<lparr> p_chan := ch, p_state := SLEEPING \<rparr>) (set_hart (popped (ps_hart ?s1)) ?s1)"
  have "sleep_enter regs ch (m_lk y l) (view h y) =
      bindE (sched_enter regs ?s0) (\<lambda>(intena, loaded, s). Inr (intena, loaded, freed (m_lk y l), s))"
    unfolding sleep_enter_def using myproc_eq [OF ok] f pc acquire_p_eq [OF free] rel by simp
  then show ?thesis
    by (intro exI [of _ ?s0]) (use f pc in \<open>simp add: push_off_fields\<close>)
qed

lemma exit_enter_sched:
  assumes inv: "mp_inv y" and pc: "m_pc y h = Run p [0]"
  shows "\<exists>s0. exit_enter regs st p (view h y) = sched_enter regs s0 \<and>
    ps_proc s0 = (m_proc y)(p := (m_proc y p) \<lparr> p_lock := taken h (p_lock (m_proc y p)), p_xstate := st, p_state := ZOMBIE \<rparr>) \<and>
    h_id (ps_hart s0) = h \<and> h_noff (ps_hart s0) = 1 \<and> \<not> h_intr (ps_hart s0) \<and> cpu_proc (ps_cpu s0) = Some p \<and>
    ps_wait_lock s0 = freed (m_lk y 0)"
proof -
  let ?s = "view h y"
  have free: "lk_locked (p_lock (ps_proc ?s p)) = 0" using plock_free [OF inv, of h p] pc by simp
  note f = hart_fields [OF inv, of h]
  have held: "held_by h (m_lk y 0)" using mp_inv_hart [OF inv, of h] pc by (simp add: hart_inv_def Let_def)
  let ?s1 = "upd_proc p (\<lambda>pr. pr \<lparr> p_lock := taken (h_id (ps_hart ?s)) (p_lock pr) \<rparr>) (set_hart (push_off (ps_hart ?s)) ?s)"
  let ?s2 = "upd_proc p (\<lambda>pr. pr \<lparr> p_xstate := st, p_state := ZOMBIE \<rparr>) ?s1"
  have rel: "release_wait ?s2 = Inr (set_hart (popped (ps_hart ?s2)) (?s2 \<lparr> ps_wait_lock := freed (ps_wait_lock ?s2) \<rparr>))"
    by (rule release_wait_eq) (use f pc held in \<open>simp_all add: push_off_fields\<close>)
  let ?s0 = "set_hart (popped (ps_hart ?s2)) (?s2 \<lparr> ps_wait_lock := freed (ps_wait_lock ?s2) \<rparr>)"
  have "exit_enter regs st p (view h y) = sched_enter regs ?s0"
    unfolding exit_enter_def using acquire_p_eq [OF free] rel by simp
  then show ?thesis
    by (intro exI [of _ ?s0]) (use f pc in \<open>simp add: push_off_fields upd_proc_def set_hart_def\<close>)
qed

lemma resched_inv:
  assumes inv: "mp_inv y" and pc: "m_pc y h = Back p" and r: "scheduler_back p (view h y) = Inr s"
  shows "mp_inv (put h Idle s y)"
proof -
  let ?v = "(view h y) \<lparr> ps_cpu := (m_cpu y h) \<lparr> cpu_proc := None \<rparr> \<rparr>"
  have h: "hart_inv y h" using inv by (rule mp_inv_hart)
  have held: "held_by h (p_lock (m_proc y p))" using h pc by (simp add: hart_inv_def Let_def)
  note f = hart_fields [OF inv, of h]
  have "release_p p ?v = Inr (upd_proc p (\<lambda>pr. pr \<lparr> p_lock := freed (p_lock pr) \<rparr>) (set_hart (popped (ps_hart ?v)) ?v))"
    by (rule release_p_eq) (use f pc held in simp_all)
  then have s: "s = upd_proc p (\<lambda>pr. pr \<lparr> p_lock := freed (p_lock pr) \<rparr>) (set_hart (popped (ps_hart ?v)) ?v)"
    using r by (simp add: scheduler_back_def)
  have proc: "ps_proc s = (m_proc y)(p := (m_proc y p) \<lparr> p_lock := freed (p_lock (m_proc y p)) \<rparr>)" "ps_wait_lock s = m_lk y 0"
    "ps_hart s = popped (cpu_hart (m_cpu y h))" "cpu_proc (ps_cpu s) = None" unfolding s by simp_all
  have "hart_inv (put h Idle s y) h" using f pc by (simp add: hart_inv_def Let_def proc)
  then show ?thesis
    by (rule own_step_inv [OF inv, where p = p and pc = Idle]) (use pc in \<open>auto simp: proc\<close>)
qed

theorem mp_step_inv: "mp_step y y' \<Longrightarrow> mp_inv y \<Longrightarrow> mp_inv y'"
proof (induction rule: mp_step.induct)
  case (pick y h regs p ld s)
  then show ?case by (metis pick_inv)
next
  case (skip y h regs p s)
  have "touch p (view h y) s" by (rule skip_touch [OF skip.hyps(2) hart_inv_ok [OF mp_inv_hart [OF skip.prems]]])
  then show ?case using touch_inv [OF skip.prems, of p h s] skip.hyps(1) by simp
next
  case (forkret y h p s)
  then show ?case by (metis forkret_inv)
next
  case (unyield y h p ia s)
  then show ?case by (metis unyield_inv)
next
  case (wake y h p ia l s)
  then show ?case by (metis wake_inv)
next
  case (relock y h p l lk c)
  show ?case by (rule lock_inv [OF relock.prems]) (use relock.hyps in simp_all)
next
  case (lock y h p ls l lk c)
  show ?case by (rule lock_inv [OF lock.prems]) (use lock.hyps in simp_all)
next
  case (unlock y h p ls l lk c)
  show ?case by (rule unlock_inv [OF unlock.prems unlock.hyps(1,2)]) (use unlock.hyps(3) in simp)
next
  case (intr y h p b)
  show ?case using intr_inv [OF intr.prems intr.hyps(1)] by simp
next
  case (yield y h p regs ia ld s)
  obtain s0 where s0: "sched_enter regs s0 = Inr (ia, ld, s)"
    "ps_proc s0 = (m_proc y)(p := (m_proc y p) \<lparr> p_lock := taken h (p_lock (m_proc y p)), p_state := RUNNABLE \<rparr>)"
    "h_id (ps_hart s0) = h" "h_noff (ps_hart s0) = 1" "\<not> h_intr (ps_hart s0)" "cpu_proc (ps_cpu s0) = Some p"
    "ps_wait_lock s0 = m_lk y 0"
    using yield_enter_sched [OF yield.prems yield.hyps(1), of regs] yield.hyps(2) by auto
  show ?case
    by (rule leave_inv [OF yield.prems yield.hyps(1) s0(2) _ _ s0(3-6,1)]) (simp_all add: s0(7))
next
  case (sleep y h p l regs ch ia ld lk s)
  obtain s0 where e: "sleep_enter regs ch (m_lk y l) (view h y) =
      bindE (sched_enter regs s0) (\<lambda>(intena, loaded, s). Inr (intena, loaded, freed (m_lk y l), s))" and s0:
    "ps_proc s0 = (m_proc y)(p := (m_proc y p) \<lparr> p_lock := taken h (p_lock (m_proc y p)), p_chan := ch, p_state := SLEEPING \<rparr>)"
    "h_id (ps_hart s0) = h" "h_noff (ps_hart s0) = 1" "\<not> h_intr (ps_hart s0)" "cpu_proc (ps_cpu s0) = Some p"
    "ps_wait_lock s0 = m_lk y 0"
    using sleep_enter_sched [OF sleep.prems sleep.hyps(1), of regs ch] by blast
  have r: "sched_enter regs s0 = Inr (ia, ld, s)"
    using sleep.hyps(2) unfolding e by (auto simp: bindE_eq_Inr)
  show ?case
    by (rule leave_inv [OF sleep.prems sleep.hyps(1) s0(1) _ _ s0(2-5) r]) (simp_all add: s0(6))
next
  case (exit y h p regs st ia ld s)
  obtain s0 where s0: "sched_enter regs s0 = Inr (ia, ld, s)"
    "ps_proc s0 = (m_proc y)(p := (m_proc y p) \<lparr> p_lock := taken h (p_lock (m_proc y p)), p_xstate := st, p_state := ZOMBIE \<rparr>)"
    "h_id (ps_hart s0) = h" "h_noff (ps_hart s0) = 1" "\<not> h_intr (ps_hart s0)" "cpu_proc (ps_cpu s0) = Some p"
    using exit_enter_sched [OF exit.prems exit.hyps(1), of regs st] exit.hyps(2) by auto
  show ?case
    by (rule leave_inv [OF exit.prems exit.hyps(1) s0(2) _ _ s0(3-6,1)]) simp_all
next
  case (resched y h p s)
  then show ?case by (metis resched_inv)
next
  case (wakeup y h p ls ch q s)
  have "touch q (view h y) s" by (rule wakeup1_touch [OF wakeup.hyps(2) hart_inv_ok [OF mp_inv_hart [OF wakeup.prems]]])
  then show ?case using touch_inv [OF wakeup.prems, of q h s] wakeup.hyps(1) by simp
next
  case (kill y h p ls pid q r s)
  have "touch q (view h y) s" by (rule kill_touch [OF kill.hyps(2) hart_inv_ok [OF mp_inv_hart [OF kill.prems]]])
  then show ?case using touch_inv [OF kill.prems, of q h s] kill.hyps(1) by simp
next
  case (reap y h p ls q s)
  have "touch q (view h y) s" by (rule table_touch(1) [OF hart_inv_ok [OF mp_inv_hart [OF reap.prems]] reap.hyps(2)])
  then show ?case using touch_inv [OF reap.prems, of q h s] reap.hyps(1) by simp
next
  case (claim y h p ls cx pid q s)
  have "touch q (view h y) s" by (rule table_touch(2) [OF hart_inv_ok [OF mp_inv_hart [OF claim.prems]] claim.hyps(2)])
  then show ?case using touch_inv [OF claim.prems, of q h s] claim.hyps(1) by simp
next
  case (publish y h p ls q s)
  have "touch q (view h y) s" by (rule table_touch(3) [OF hart_inv_ok [OF mp_inv_hart [OF publish.prems]] publish.hyps(2)])
  then show ?case using touch_inv [OF publish.prems, of q h s] publish.hyps(1) by simp
qed

section \<open>Reachable states\<close>

text \<open>
  After \<open>procinit\<close> and the start of the harts: every hart is in its scheduler loop, all locks are
  free.
\<close>

definition mp_start :: "mp \<Rightarrow> bool" where
  "mp_start y \<longleftrightarrow> (\<forall>h. m_pc y h = Idle \<and> cpu_proc (m_cpu y h) = None \<and> h_id (cpu_hart (m_cpu y h)) = h \<and>
     h_noff (cpu_hart (m_cpu y h)) = 0) \<and> (\<forall>p. lk_locked (p_lock (m_proc y p)) = 0)"

inductive mp_reach :: "mp \<Rightarrow> bool" where
  start: "mp_start y \<Longrightarrow> mp_reach y"
| step: "mp_reach y \<Longrightarrow> mp_step y y' \<Longrightarrow> mp_reach y'"

lemma mp_reach_inv: "mp_reach y \<Longrightarrow> mp_inv y"
proof (induction rule: mp_reach.induct)
  case (start y)
  then show ?case by (simp add: mp_start_def mp_inv_def hart_inv_def Let_def)
next
  case (step y y')
  then show ?case using mp_step_inv by blast
qed

end
