(* ===== verification/Proc_Props.thy ===== *)
theory Proc_Props
  imports Proc_Inv
begin

text \<open>Properties of the scheduler.\<close>

text \<open>C28: a process never runs on two harts.  In every interleaving of any number of harts that schedule,
  yield, sleep, wake, kill, exit and reap, at most one \<open>cpu\<close> names a given process.\<close>

theorem process_on_one_hart:
  assumes "mp_reach y" and "cpu_proc (m_cpu y h) = Some p" and "cpu_proc (m_cpu y h') = Some p"
  shows "h = h'"
proof -
  have inv: "mp_inv y" by (rule mp_reach_inv [OF assms(1)])
  then show ?thesis using mp_inv_alone [OF inv, of h p h'] hart_fields(4) [OF inv] assms(2,3) by metis
qed

text \<open>A table with one runnable process, and two idle harts.\<close>

definition ex_proc :: "procstate \<Rightarrow> proc" where
  "ex_proc st = \<lparr>p_lock = initlock ''proc'', p_state = st, p_chan = NoChan, p_killed = 0, p_xstate = 0, p_pid = 1,
     p_parent = None, p_kstack = 0, p_sz = 0, p_pagetable = 0, p_trapframe = 0, p_context = ctxt_zero,
     p_ofile = (\<lambda>_. None), p_cwd = None, p_name = []\<rparr>"

definition ex_mp :: mp where
  "ex_mp = \<lparr>m_proc = (\<lambda>p. ex_proc (if p = 0 then RUNNABLE else UNUSED)),
     m_cpu = (\<lambda>h. \<lparr>cpu_proc = None, cpu_context = ctxt_zero,
        cpu_hart = \<lparr>h_id = h, h_noff = 0, h_intena = False, h_intr = True\<rparr>\<rparr>),
     m_lk = (\<lambda>_. initlock ''lk''), m_pc = (\<lambda>_. Idle), m_cont = (\<lambda>_. Fresh), m_nextpid = 2,
     m_pid_lock = initlock ''nextpid'', m_initproc = Some 0\<rparr>"

lemma ex_mp_start: "mp_reach ex_mp"
  by (rule mp_reach.start) (simp add: mp_start_def ex_mp_def ex_proc_def initlock_def)

lemma ex_running: "\<exists>y. mp_reach y \<and> cpu_proc (m_cpu y 0) = Some 0 \<and> m_pc y 0 = Run 0 []"
proof -
  have free: "lk_locked (p_lock (ps_proc (view 0 ex_mp) 0)) = 0" by (simp add: ex_mp_def ex_proc_def initlock_def)
  have "p_state (m_proc ex_mp 0) = RUNNABLE" by (simp add: ex_mp_def ex_proc_def)
  then have "\<exists>ld s. scheduler_pick ctxt_zero 0 (view 0 ex_mp) = Inr (Some ld, s) \<and> cpu_proc (ps_cpu s) = Some 0"
    by (simp add: scheduler_pick_def acquire_p_eq [OF free] swtch_def Let_def)
  then obtain ld s where p: "scheduler_pick ctxt_zero 0 (view 0 ex_mp) = Inr (Some ld, s)" "cpu_proc (ps_cpu s) = Some 0"
    by blast
  let ?y = "put 0 (Resumed 0) s ex_mp"
  have y: "mp_reach ?y" by (rule mp_reach.step [OF ex_mp_start mp_step.pick [OF _ p(1)]]) (simp add: ex_mp_def)
  have inv: "mp_inv ?y" by (rule mp_reach_inv [OF y])
  have held: "held_by 0 (p_lock (m_proc ?y 0))" using mp_inv_hart [OF inv, of 0] by (simp add: hart_inv_def Let_def)
  note f = hart_fields [OF inv, of 0]
  obtain s' where r: "release_p 0 (view 0 ?y) = Inr s'" "cpu_proc (ps_cpu s') = Some 0"
    using release_p_eq [of "view 0 ?y" 0] held f by auto
  have c: "m_cont ?y 0 = Fresh" by (simp add: put_def ex_mp_def)
  have "mp_reach (put 0 (Run 0 []) s' ?y)"
    by (rule mp_reach.step [OF y mp_step.forkret [OF _ c r(1)]]) simp
  then show ?thesis using r(2) by (intro exI [of _ "put 0 (Run 0 []) s' ?y"]) simp
qed

theorem process_on_one_hart_witness:
  "\<exists>y. mp_reach y \<and> cpu_proc (m_cpu y 0) = Some 0 \<and> cpu_proc (m_cpu y 1) \<noteq> Some 0"
proof -
  obtain y where "mp_reach y" "cpu_proc (m_cpu y 0) = Some 0" using ex_running by blast
  then show ?thesis using process_on_one_hart [of y 0 0 1] by auto
qed

text \<open>C29: the checks in \<open>sched\<close> never fail.  A running process that holds no lock can yield, and one that holds exactly
  the lock it passes to \<open>sleep\<close> can sleep: neither call panics or blocks, in any interleaving.\<close>

theorem sched_never_panics:
  assumes "mp_reach y"
  shows "(m_pc y h = Run p [] \<longrightarrow> (\<exists>r. yield_enter regs (view h y) = Inr r)) \<and>
    (m_pc y h = Run p [l] \<longrightarrow> (\<exists>r. sleep_enter regs ch (m_lk y l) (view h y) = Inr r))"
proof -
  have inv: "mp_inv y" by (rule mp_reach_inv [OF assms])
  have sched: "\<exists>r. sched_enter regs s0 = Inr r"
    if "ps_proc s0 = (m_proc y)(p := pr)" "p_lock pr = taken h lk" "p_state pr \<noteq> RUNNING" "h_id (ps_hart s0) = h"
      "h_noff (ps_hart s0) = 1" "\<not> h_intr (ps_hart s0)" "cpu_proc (ps_cpu s0) = Some p" for s0 pr lk
    using sched_enter_eq [of s0 p regs] that by auto
  have "\<exists>r. yield_enter regs (view h y) = Inr r" if pc: "m_pc y h = Run p []"
  proof -
    obtain s0 where s0: "yield_enter regs (view h y) = sched_enter regs s0"
      "ps_proc s0 = (m_proc y)(p := (m_proc y p) \<lparr> p_lock := taken h (p_lock (m_proc y p)), p_state := RUNNABLE \<rparr>)"
      "h_id (ps_hart s0) = h" "h_noff (ps_hart s0) = 1" "\<not> h_intr (ps_hart s0)" "cpu_proc (ps_cpu s0) = Some p"
      using yield_enter_sched [OF inv pc, of regs] by blast
    show ?thesis unfolding s0(1) by (rule sched [OF s0(2) _ _ s0(3-6)]) simp_all
  qed
  moreover have "\<exists>r. sleep_enter regs ch (m_lk y l) (view h y) = Inr r" if pc: "m_pc y h = Run p [l]"
  proof -
    obtain s0 where s0: "sleep_enter regs ch (m_lk y l) (view h y) =
        bindE (sched_enter regs s0) (\<lambda>(intena, loaded, s). Inr (intena, loaded, freed (m_lk y l), s))"
      "ps_proc s0 = (m_proc y)(p := (m_proc y p) \<lparr> p_lock := taken h (p_lock (m_proc y p)), p_chan := ch, p_state := SLEEPING \<rparr>)"
      "h_id (ps_hart s0) = h" "h_noff (ps_hart s0) = 1" "\<not> h_intr (ps_hart s0)" "cpu_proc (ps_cpu s0) = Some p"
      using sleep_enter_sched [OF inv pc, of regs ch] by blast
    have "\<exists>r. sched_enter regs s0 = Inr r" by (rule sched [OF s0(2) _ _ s0(3-6)]) simp_all
    then show ?thesis unfolding s0(1) by auto
  qed
  ultimately show ?thesis by blast
qed

theorem sched_never_panics_witness:
  "\<exists>y. mp_reach y \<and> m_pc y 0 = Run 0 [] \<and> (\<exists>r. yield_enter ctxt_zero (view 0 y) = Inr r)"
proof -
  obtain y where "mp_reach y" "m_pc y 0 = Run 0 []" using ex_running by blast
  then show ?thesis using sched_never_panics [of y 0 0 ctxt_zero] by blast
qed

end
