(* ===== verification/Vm.thy ===== *)
theory Vm
  imports Kernel_Mem Cstring_Lemmas
begin

text \<open>
  kernel/vm.c: Sv39 page tables in byte-addressed physical memory, which the kernel maps one to
  one.  Pages come from and go back to the page allocator of theory Kernel\_Mem, whose own data is
  kept apart from the bytes of the pages it has handed out.
\<close>

section \<open>Words in memory\<close>

text \<open>Little-endian 64-bit loads and stores.\<close>

definition ld64 :: "cmem \<Rightarrow> addr \<Rightarrow> u64" where
  "ld64 m a = word_of_int (horner_sum uint 256 (map (\<lambda>i. m (a + of_nat i)) [0..<8]))"

definition st64 :: "addr \<Rightarrow> u64 \<Rightarrow> cmem \<Rightarrow> cmem" where
  "st64 a w m = fold (\<lambda>i m. m(a + of_nat i := ucast (drop_bit (8 * i) w))) [0..<8] m"

record vm =
  vm_mem :: cmem
  vm_k :: kmem

section \<open>Walking\<close>

text \<open>The loop of \<open>walk\<close> over the levels 2 and 1; the address 0 is the null pointer.\<close>

fun walk_levels :: "nat list \<Rightarrow> addr \<Rightarrow> u64 \<Rightarrow> bool \<Rightarrow> vm \<Rightarrow> (addr \<times> vm) res" where
  "walk_levels [] pt va al s = Inr (pt + 8 * PX 0 va, s)"
| "walk_levels (level # ls) pt va al s =
    (let pte = pt + 8 * PX level va; e = ld64 (vm_mem s) pte in
     if e AND PTE_V \<noteq> 0 then walk_levels ls (PTE2PA e) va al s
     else if \<not> al then Inr (0, s)
     else
       bindE (kalloc (vm_k s)) (\<lambda>(p, k).
       if p = 0 then Inr (0, s \<lparr> vm_k := k \<rparr>)
       else walk_levels ls p va al
         (s \<lparr> vm_mem := st64 pte (PA2PTE p OR PTE_V) (memset p 0 4096 (vm_mem s)), vm_k := k \<rparr>)))"

definition walk :: "addr \<Rightarrow> u64 \<Rightarrow> bool \<Rightarrow> vm \<Rightarrow> (addr \<times> vm) res" where
  "walk pt va al s = guardE (va < MAXVA) (Panic ''walk'') (walk_levels [2, 1] pt va al s)"

definition walkaddr :: "addr \<Rightarrow> u64 \<Rightarrow> vm \<Rightarrow> (u64 \<times> vm) res" where
  "walkaddr pt va s =
    (if va \<ge> MAXVA then Inr (0, s)
     else
       bindE (walk pt va False s) (\<lambda>(pte, s).
       if pte = 0 then Inr (0, s)
       else (let e = ld64 (vm_mem s) pte in
         if e AND PTE_V = 0 then Inr (0, s)
         else if e AND PTE_U = 0 then Inr (0, s)
         else Inr (PTE2PA e, s))))"

section \<open>Mapping\<close>

lemma bindE_cong [fundef_cong]: "r = r' \<Longrightarrow> (\<And>x. r' = Inr x \<Longrightarrow> f x = f' x) \<Longrightarrow> bindE r f = bindE r' f'"
  by (cases r') auto

lemma guardE_cong [fundef_cong]: "b = b' \<Longrightarrow> e = e' \<Longrightarrow> (b' \<Longrightarrow> r = r') \<Longrightarrow> guardE b e r = guardE b' e' r'"
  by (simp add: guardE_def)

lemma walk_below: "walk pt va al s = Inr x \<Longrightarrow> unat va < 2 ^ 38"
  by (simp add: walk_def guardE_eq_Inr MAXVA_def word_less_nat_alt)

lemma page_up_measure:
  assumes "unat a < 2 ^ 38"
  shows "2 ^ 39 - unat (a + PGSIZE) < 2 ^ 39 - unat a"
proof -
  have "unat (a + PGSIZE) = unat a + 4096" using assms by (simp add: unat_add_no_wrap)
  then show ?thesis using assms by simp
qed

function mappages_loop :: "addr \<Rightarrow> u64 \<Rightarrow> u64 \<Rightarrow> u64 \<Rightarrow> u64 \<Rightarrow> vm \<Rightarrow> (int \<times> vm) res" where
  "mappages_loop pt a lst pa perm s =
    bindE (walk pt a True s) (\<lambda>(pte, s).
    if pte = 0 then Inr (-1, s)
    else
      guardE (ld64 (vm_mem s) pte AND PTE_V = 0) (Panic ''mappages: remap'')
      (let s = s \<lparr> vm_mem := st64 pte (PA2PTE pa OR perm OR PTE_V) (vm_mem s) \<rparr> in
       if a = lst then Inr (0, s) else mappages_loop pt (a + PGSIZE) lst (pa + PGSIZE) perm s))"
  by pat_completeness auto
termination
  by (relation "measure (\<lambda>(pt, a, lst, pa, perm, s). 2 ^ 39 - unat a)")
    (use page_up_measure walk_below in \<open>auto simp del: power_numeral\<close>)

declare mappages_loop.simps [simp del]

definition mappages :: "addr \<Rightarrow> u64 \<Rightarrow> u64 \<Rightarrow> u64 \<Rightarrow> u64 \<Rightarrow> vm \<Rightarrow> (int \<times> vm) res" where
  "mappages pt va sz pa perm s =
    guardE (sz \<noteq> 0) (Panic ''mappages: size'')
     (mappages_loop pt (PGROUNDDOWN va) (PGROUNDDOWN (va + sz - 1)) pa perm s)"

definition kvmmap :: "addr \<Rightarrow> u64 \<Rightarrow> u64 \<Rightarrow> u64 \<Rightarrow> u64 \<Rightarrow> vm \<Rightarrow> vm res" where
  "kvmmap kpgtbl va pa sz perm s =
    bindE (mappages kpgtbl va sz pa perm s) (\<lambda>(r, s). guardE (r = 0) (Panic ''kvmmap'') (Inr s))"

function uvmunmap_loop :: "addr \<Rightarrow> u64 \<Rightarrow> u64 \<Rightarrow> bool \<Rightarrow> vm \<Rightarrow> vm res" where
  "uvmunmap_loop pt a lim do_free s =
    (if a < lim then
       bindE (walk pt a False s) (\<lambda>(pte, s).
       guardE (pte \<noteq> 0) (Panic ''uvmunmap: walk'')
       (guardE (ld64 (vm_mem s) pte AND PTE_V \<noteq> 0) (Panic ''uvmunmap: not mapped'')
       (guardE (PTE_FLAGS (ld64 (vm_mem s) pte) \<noteq> PTE_V) (Panic ''uvmunmap: not a leaf'')
       (bindE (if do_free then kfree (PTE2PA (ld64 (vm_mem s) pte)) (vm_k s) else Inr (vm_k s)) (\<lambda>k.
        uvmunmap_loop pt (a + PGSIZE) lim do_free (s \<lparr> vm_k := k, vm_mem := st64 pte 0 (vm_mem s) \<rparr>))))))
     else Inr s)"
  by pat_completeness auto
termination
  by (relation "measure (\<lambda>(pt, a, lim, d, s). 2 ^ 39 - unat a)")
    (use page_up_measure walk_below in \<open>auto simp del: power_numeral\<close>)

declare uvmunmap_loop.simps [simp del]

definition uvmunmap :: "addr \<Rightarrow> u64 \<Rightarrow> u64 \<Rightarrow> bool \<Rightarrow> vm \<Rightarrow> vm res" where
  "uvmunmap pt va np do_free s =
    guardE (va mod PGSIZE = 0) (Panic ''uvmunmap: not aligned'')
     (uvmunmap_loop pt va (va + np * PGSIZE) do_free s)"

definition uvmcreate :: "vm \<Rightarrow> (addr \<times> vm) res" where
  "uvmcreate s =
    bindE (kalloc (vm_k s)) (\<lambda>(p, k).
    if p = 0 then Inr (0, s \<lparr> vm_k := k \<rparr>) else Inr (p, s \<lparr> vm_k := k, vm_mem := memset p 0 4096 (vm_mem s) \<rparr>))"

text \<open>\<open>mem\<close> is used without a check for null; the result of \<open>mappages\<close> is ignored.\<close>

definition uvmfirst :: "addr \<Rightarrow> addr \<Rightarrow> u32 \<Rightarrow> vm \<Rightarrow> vm res" where
  "uvmfirst pt src sz s =
    guardE (ucast sz < PGSIZE) (Panic ''uvmfirst: more than a page'')
     (bindE (kalloc (vm_k s)) (\<lambda>(p, k).
      guardE (p \<noteq> 0) NullDeref
       (bindE (mappages pt 0 PGSIZE p (PTE_W OR PTE_R OR PTE_X OR PTE_U)
          (s \<lparr> vm_k := k, vm_mem := memset p 0 4096 (vm_mem s) \<rparr>)) (\<lambda>(r, s).
        Inr (s \<lparr> vm_mem := memmove p src sz (vm_mem s) \<rparr>)))))"

section \<open>Growing and shrinking\<close>

definition uvmdealloc :: "addr \<Rightarrow> u64 \<Rightarrow> u64 \<Rightarrow> vm \<Rightarrow> (u64 \<times> vm) res" where
  "uvmdealloc pt oldsz newsz s =
    (if newsz \<ge> oldsz then Inr (oldsz, s)
     else
       bindE (if PGROUNDUP newsz < PGROUNDUP oldsz then
           (let np = i32_of_u64 ((PGROUNDUP oldsz - PGROUNDUP newsz) div PGSIZE) in
            uvmunmap pt (PGROUNDUP newsz) (word_of_int np) True s)
         else Inr s) (\<lambda>s. Inr (newsz, s)))"

lemma mappages_below:
  "mappages pt a PGSIZE pa perm s = Inr (r, s') \<Longrightarrow> unat (PGROUNDDOWN a) < 2 ^ 38"
  unfolding mappages_def by (subst (asm) mappages_loop.simps) (auto simp: guardE_eq_Inr bindE_eq_Inr dest: walk_below)

function uvmalloc_loop :: "addr \<Rightarrow> u64 \<Rightarrow> u64 \<Rightarrow> u64 \<Rightarrow> u64 \<Rightarrow> vm \<Rightarrow> (u64 \<times> vm) res" where
  "uvmalloc_loop pt a oldsz newsz xperm s =
    (if a < newsz then
       bindE (kalloc (vm_k s)) (\<lambda>(p, k).
       if p = 0 then bindE (uvmdealloc pt a oldsz (s \<lparr> vm_k := k \<rparr>)) (\<lambda>(_, s). Inr (0, s))
       else
         bindE (mappages pt a PGSIZE p (PTE_R OR PTE_U OR xperm)
            (s \<lparr> vm_k := k, vm_mem := memset p 0 4096 (vm_mem s) \<rparr>)) (\<lambda>(r, s).
         if r \<noteq> 0 then
           bindE (kfree p (vm_k s)) (\<lambda>k.
           bindE (uvmdealloc pt a oldsz (s \<lparr> vm_k := k \<rparr>)) (\<lambda>(_, s). Inr (0, s)))
         else uvmalloc_loop pt (a + PGSIZE) oldsz newsz xperm s))
     else Inr (newsz, s))"
  by pat_completeness auto
termination
proof (relation "measure (\<lambda>(pt, a, oldsz, newsz, xperm, s). 2 ^ 39 - unat a)", goal_cases)
  case (2 pt a oldsz newsz xperm s x xa y xb xc ya)
  then have "unat (PGROUNDDOWN a) < 2 ^ 38" using mappages_below by blast
  then have "unat a < 2 ^ 38 + 4096"
    using mod_less_divisor [of 4096 "unat a"] by (simp add: unat_PGROUNDDOWN)
  then have "unat (a + PGSIZE) = unat a + 4096" "unat a < 2 ^ 39" by (simp_all add: unat_add_no_wrap)
  then show ?case by simp
qed simp

declare uvmalloc_loop.simps [simp del]

definition uvmalloc :: "addr \<Rightarrow> u64 \<Rightarrow> u64 \<Rightarrow> u64 \<Rightarrow> vm \<Rightarrow> (u64 \<times> vm) res" where
  "uvmalloc pt oldsz newsz xperm s =
    (if newsz < oldsz then Inr (oldsz, s)
     else let oldsz = PGROUNDUP oldsz in uvmalloc_loop pt oldsz oldsz newsz xperm s)"

section \<open>Freeing\<close>

text \<open>
  The recursion of \<open>freewalk\<close> follows the entries it finds; \<open>d\<close> bounds its depth.  The tables
  that \<open>walk\<close> builds are three levels deep.
\<close>

fun freewalk :: "nat \<Rightarrow> addr \<Rightarrow> vm \<Rightarrow> vm res" where
  "freewalk 0 pt s = Inl Diverges"
| "freewalk (Suc d) pt s =
    bindE (foldE (\<lambda>i s.
        (let e = ld64 (vm_mem s) (pt + 8 * of_nat i) in
         if e AND PTE_V \<noteq> 0 \<and> e AND (PTE_R OR PTE_W OR PTE_X) = 0 then
           bindE (freewalk d (PTE2PA e) s) (\<lambda>s.
           Inr (s \<lparr> vm_mem := st64 (pt + 8 * of_nat i) 0 (vm_mem s) \<rparr>))
         else guardE (e AND PTE_V = 0) (Panic ''freewalk: leaf'') (Inr s)))
      [0..<512] s) (\<lambda>s.
    bindE (kfree pt (vm_k s)) (\<lambda>k. Inr (s \<lparr> vm_k := k \<rparr>)))"

definition uvmfree :: "addr \<Rightarrow> u64 \<Rightarrow> vm \<Rightarrow> vm res" where
  "uvmfree pt sz s =
    bindE (if sz > 0 then uvmunmap pt 0 (PGROUNDUP sz div PGSIZE) True s else Inr s) (freewalk 3 pt)"

section \<open>Copying an address space\<close>

function uvmcopy_loop :: "addr \<Rightarrow> addr \<Rightarrow> u64 \<Rightarrow> u64 \<Rightarrow> vm \<Rightarrow> (int \<times> vm) res" where
  "uvmcopy_loop old new i sz s =
    (if i < sz then
       bindE (walk old i False s) (\<lambda>(pte, s).
       guardE (pte \<noteq> 0) (Panic ''uvmcopy: pte should exist'')
       (let e = ld64 (vm_mem s) pte in
        guardE (e AND PTE_V \<noteq> 0) (Panic ''uvmcopy: page not present'')
        (let pa = PTE2PA e; flags = PTE_FLAGS e in
         bindE (kalloc (vm_k s)) (\<lambda>(p, k).
         if p = 0 then bindE (uvmunmap new 0 (i div PGSIZE) True (s \<lparr> vm_k := k \<rparr>)) (\<lambda>s. Inr (-1, s))
         else
           bindE (mappages new i PGSIZE p flags (s \<lparr> vm_k := k, vm_mem := memmove p pa 4096 (vm_mem s) \<rparr>)) (\<lambda>(r, s).
           if r \<noteq> 0 then
             bindE (kfree p (vm_k s)) (\<lambda>k.
             bindE (uvmunmap new 0 (i div PGSIZE) True (s \<lparr> vm_k := k \<rparr>)) (\<lambda>s. Inr (-1, s)))
           else uvmcopy_loop old new (i + PGSIZE) sz s)))))
     else Inr (0, s))"
  by pat_completeness auto
termination
  by (relation "measure (\<lambda>(old, new, i, sz, s). 2 ^ 39 - unat i)")
    (use page_up_measure walk_below in \<open>auto simp del: power_numeral\<close>)

declare uvmcopy_loop.simps [simp del]

definition uvmcopy :: "addr \<Rightarrow> addr \<Rightarrow> u64 \<Rightarrow> vm \<Rightarrow> (int \<times> vm) res" where
  "uvmcopy old new sz s = uvmcopy_loop old new 0 sz s"

definition uvmclear :: "addr \<Rightarrow> u64 \<Rightarrow> vm \<Rightarrow> vm res" where
  "uvmclear pt va s =
    bindE (walk pt va False s) (\<lambda>(pte, s).
    guardE (pte \<noteq> 0) (Panic ''uvmclear'')
     (Inr (s \<lparr> vm_mem := st64 pte (ld64 (vm_mem s) pte AND NOT PTE_U) (vm_mem s) \<rparr>)))"

section \<open>Copying between user and kernel\<close>

lemma page_offset: "unat (va - PGROUNDDOWN va) = unat va mod 4096"
proof -
  have "PGROUNDDOWN va \<le> va" by (simp add: word_le_nat_alt unat_PGROUNDDOWN)
  then show ?thesis by (simp add: unat_sub unat_PGROUNDDOWN)
qed

text \<open>The number of bytes up to the end of the page, at most \<open>len\<close>.\<close>

definition chunk :: "u64 \<Rightarrow> u64 \<Rightarrow> u64" where
  "chunk va len = (let n = PGSIZE - (va - PGROUNDDOWN va) in if n > len then len else n)"

lemma unat_chunk: "unat (chunk va len) = min (4096 - unat va mod 4096) (unat len)"
proof -
  have "va - PGROUNDDOWN va \<le> PGSIZE" by (simp add: word_le_nat_alt page_offset less_imp_le)
  then have "unat (PGSIZE - (va - PGROUNDDOWN va)) = 4096 - unat va mod 4096" by (simp add: unat_sub page_offset)
  then show ?thesis by (auto simp: chunk_def Let_def word_less_nat_alt)
qed

lemma chunk_decreases:
  assumes "len > 0"
  shows "unat (len - chunk va len) < unat len"
proof -
  have "0 < unat len" using assms by (simp add: word_less_nat_alt)
  moreover have "unat va mod 4096 < 4096" by simp
  ultimately have "0 < unat (chunk va len)" unfolding unat_chunk by simp
  moreover have "chunk va len \<le> len" by (simp add: word_le_nat_alt unat_chunk)
  ultimately show ?thesis using \<open>0 < unat len\<close> by (simp add: unat_sub)
qed

function copyout :: "addr \<Rightarrow> u64 \<Rightarrow> addr \<Rightarrow> u64 \<Rightarrow> vm \<Rightarrow> (int \<times> vm) res" where
  "copyout pt dstva src len s =
    (if len > 0 then
       (let va0 = PGROUNDDOWN dstva in
        bindE (walkaddr pt va0 s) (\<lambda>(pa0, s).
        if pa0 = 0 then Inr (-1, s)
        else (let n = chunk dstva len in
          copyout pt (va0 + PGSIZE) (src + n) (len - n)
            (s \<lparr> vm_mem := memmove (pa0 + (dstva - va0)) src (ucast n) (vm_mem s) \<rparr>))))
     else Inr (0, s))"
  by pat_completeness auto
termination
  by (relation "measure (\<lambda>(pt, dstva, src, len, s). unat len)") (auto intro: chunk_decreases)

function copyin :: "addr \<Rightarrow> addr \<Rightarrow> u64 \<Rightarrow> u64 \<Rightarrow> vm \<Rightarrow> (int \<times> vm) res" where
  "copyin pt dst srcva len s =
    (if len > 0 then
       (let va0 = PGROUNDDOWN srcva in
        bindE (walkaddr pt va0 s) (\<lambda>(pa0, s).
        if pa0 = 0 then Inr (-1, s)
        else (let n = chunk srcva len in
          copyin pt (dst + n) (va0 + PGSIZE) (len - n)
            (s \<lparr> vm_mem := memmove dst (pa0 + (srcva - va0)) (ucast n) (vm_mem s) \<rparr>))))
     else Inr (0, s))"
  by pat_completeness auto
termination
  by (relation "measure (\<lambda>(pt, dst, srcva, len, s). unat len)") (auto intro: chunk_decreases)

text \<open>The inner loop of \<open>copyinstr\<close>: whether the NUL was found, and \<open>dst\<close>, \<open>max\<close> and memory after it.\<close>

fun copyinstr_page :: "nat \<Rightarrow> addr \<Rightarrow> addr \<Rightarrow> u64 \<Rightarrow> cmem \<Rightarrow> bool \<times> addr \<times> u64 \<times> cmem" where
  "copyinstr_page 0 p dst mx m = (False, dst, mx, m)"
| "copyinstr_page (Suc n) p dst mx m =
    (if m p = 0 then (True, dst, mx, m(dst := 0))
     else copyinstr_page n (p + 1) (dst + 1) (mx - 1) (m(dst := m p)))"

lemma copyinstr_page_max:
  "copyinstr_page n p dst mx m = (False, dst', mx', m') \<Longrightarrow> n \<le> unat mx \<Longrightarrow> unat mx' = unat mx - n"
proof (induction n arbitrary: p dst mx m)
  case (Suc n)
  then have "unat (mx - 1) = unat mx - 1" by (intro unat_minus_one) auto
  then show ?case using Suc.prems Suc.IH [of "p + 1" "dst + 1" "mx - 1"] by (auto split: if_splits)
qed simp

lemma copyinstr_page_decreases:
  assumes "(False, dst', mx', m') = copyinstr_page (unat (chunk srcva mx)) p dst mx m" and "0 < mx"
  shows "unat mx' < unat mx"
proof -
  have le: "unat (chunk srcva mx) \<le> unat mx" by (simp add: unat_chunk)
  then have "unat mx' = unat mx - unat (chunk srcva mx)" using copyinstr_page_max [OF assms(1) [symmetric]] by blast
  then show ?thesis using chunk_decreases [OF assms(2), of srcva] le by (simp add: unat_sub word_le_nat_alt)
qed

function copyinstr_loop :: "addr \<Rightarrow> addr \<Rightarrow> u64 \<Rightarrow> u64 \<Rightarrow> vm \<Rightarrow> (int \<times> vm) res" where
  "copyinstr_loop pt dst srcva mx s =
    (if mx > 0 then
       (let va0 = PGROUNDDOWN srcva in
        bindE (walkaddr pt va0 s) (\<lambda>(pa0, s).
        if pa0 = 0 then Inr (-1, s)
        else
          (case copyinstr_page (unat (chunk srcva mx)) (pa0 + (srcva - va0)) dst mx (vm_mem s) of
             (got_null, dst', mx', m) \<Rightarrow>
               if got_null then Inr (0, s \<lparr> vm_mem := m \<rparr>)
               else copyinstr_loop pt dst' (va0 + PGSIZE) mx' (s \<lparr> vm_mem := m \<rparr>))))
     else Inr (-1, s))"
  by pat_completeness auto
termination
  by (relation "measure (\<lambda>(pt, dst, srcva, mx, s). unat mx)") (auto intro: copyinstr_page_decreases)

declare copyout.simps [simp del] copyin.simps [simp del] copyinstr_loop.simps [simp del]

definition copyinstr :: "addr \<Rightarrow> addr \<Rightarrow> u64 \<Rightarrow> u64 \<Rightarrow> vm \<Rightarrow> (int \<times> vm) res" where
  "copyinstr pt dst srcva mx s = copyinstr_loop pt dst srcva mx s"

end
