(* ===== verification/Vm_Lemmas.thy ===== *)
theory Vm_Lemmas
  imports Vm
begin

text \<open>
  Loads after stores, page tables as trees of pages, and the map from virtual pages to entries
  that a page table represents.
\<close>

section \<open>Loads and stores\<close>

lemma fold_upd:
  fixes a :: addr
  assumes "n \<le> 2 ^ 64"
  shows "fold (\<lambda>i m. m(a + of_nat i := f i)) [0..<n] m x = (if unat (x - a) < n then f (unat (x - a)) else m x)"
  using assms
proof (induction n)
  case (Suc n)
  have n: "n < 2 ^ 64" using Suc.prems by simp
  have "x = a + of_nat n \<longleftrightarrow> unat (x - a) = n"
  proof
    assume "x = a + of_nat n"
    then show "unat (x - a) = n" using n by (simp add: unat_of_nat_small)
  next
    assume "unat (x - a) = n"
    then have "x - a = of_nat n" using n by (simp add: word_unat_eq_iff unat_of_nat_small)
    then show "x = a + of_nat n" by (metis add.commute diff_add_cancel)
  qed
  then show ?case using Suc.IH n by auto
qed simp

lemma memset_apply:
  assumes "unat n \<le> 2 ^ 31"
  shows "memset dst c n m x = (if unat (x - dst) < unat n then word_of_int c else m x)"
proof -
  have "fold (\<lambda>i m. m(dst + word_of_int (signed_take_bit 31 (int i)) := word_of_int c)) [0..<unat n] m =
      fold (\<lambda>i m. m(dst + of_nat i := word_of_int c)) [0..<unat n] m"
  proof (rule fold_cong)
    fix i assume "i \<in> set [0..<unat n]"
    then have "signed_take_bit 31 (int i) = int i" using assms by (intro i32_fits) simp_all
    then show "(\<lambda>m. m(dst + word_of_int (signed_take_bit 31 (int i)) := word_of_int c)) =
        (\<lambda>m. m(dst + of_nat i := (word_of_int c :: u8)))" by simp
  qed simp_all
  then show ?thesis
    unfolding memset_def using fold_upd [of "unat n" dst "\<lambda>_. word_of_int c" m x] assms by simp
qed

lemma st64_apply: "st64 a w m x = (if unat (x - a) < 8 then ucast (drop_bit (8 * unat (x - a)) w) else m x)"
  unfolding st64_def by (rule fold_upd) simp

lemma bit_ld64: "n < 64 \<Longrightarrow> bit (ld64 m a) n = bit (m (a + of_nat (n div 8))) (n mod 8)"
proof -
  assume n: "n < 64"
  have "(256 :: int) = 2 ^ LENGTH(8)" by simp
  then have "bit (horner_sum uint (256 :: int) (map (\<lambda>i. m (a + of_nat i)) [0..<8])) n =
      bit (m (a + of_nat (n div 8))) (n mod 8)"
    using n by (simp only: bit_horner_sum_uint_exp_iff) (simp add: less_mult_imp_div_less)
  then show ?thesis using n by (simp add: ld64_def bit_word_of_int_iff)
qed

lemma ld64_cong:
  assumes "\<And>i. i < 8 \<Longrightarrow> m (a + of_nat i) = m' (a + of_nat i)"
  shows "ld64 m a = ld64 m' a"
proof -
  have "map (\<lambda>i. m (a + of_nat i)) [0..<8] = map (\<lambda>i. m' (a + of_nat i)) [0..<8]" using assms by simp
  then show ?thesis unfolding ld64_def by presburger
qed

lemma ld64_st64 [simp]: "ld64 (st64 a w m) a = w"
proof (rule bit_word_eqI)
  fix n assume n: "n < LENGTH(64)"
  then have d: "n div 8 < 8" by (simp add: less_mult_imp_div_less)
  then have u: "unat (a + of_nat (n div 8) - a) = n div 8" by (simp add: unat_of_nat)
  have "bit (st64 a w m (a + of_nat (n div 8))) (n mod 8) = bit w (8 * (n div 8) + n mod 8)"
    unfolding st64_apply u using d by (simp add: bit_simps)
  then show "bit (ld64 (st64 a w m) a) n = bit w n" using n bit_ld64 [of n] by simp
qed

lemma ld64_st64_other:
  assumes "\<And>i. i < 8 \<Longrightarrow> 8 \<le> unat (b + of_nat i - a)"
  shows "ld64 (st64 a w m) b = ld64 m b"
  by (rule ld64_cong) (use assms in \<open>simp add: st64_apply not_less [symmetric]\<close>)

section \<open>Pages of entries\<close>

definition page_aligned :: "addr \<Rightarrow> bool" where
  "page_aligned p \<longleftrightarrow> 4096 dvd unat p"

text \<open>Entry \<open>i\<close> of the table page \<open>p\<close>.\<close>

definition ent :: "cmem \<Rightarrow> addr \<Rightarrow> u64 \<Rightarrow> u64" where
  "ent m p i = ld64 m (p + 8 * i)"

lemma unat_diff_cases: "unat (x - y :: u64) = (if unat y \<le> unat x then unat x - unat y else 2 ^ 64 + unat x - unat y)"
proof (cases "unat y \<le> unat x")
  case True
  then show ?thesis by (simp add: unat_sub word_le_nat_alt)
next
  case False
  have "unat x < 2 ^ 64" "unat y < 2 ^ 64" using unsigned_less [of x] unsigned_less [of y] by simp_all
  then show ?thesis using False by (simp add: unat_sub_if' word_le_nat_alt)
qed

lemma page_top: "page_aligned p \<Longrightarrow> unat p + 4096 \<le> 2 ^ 64"
proof -
  assume "page_aligned p"
  then obtain k where k: "unat p = 4096 * k" by (auto simp: page_aligned_def)
  have "unat p < 2 ^ 64" using unsigned_less [of p] by simp
  then have "4096 * k < 4096 * 2 ^ 52" unfolding k by simp
  then have "k + 1 \<le> 2 ^ 52" by simp
  then have "4096 * (k + 1) \<le> 4096 * 2 ^ 52" by (rule mult_le_mono2)
  then show ?thesis using k by simp
qed

lemma unat_entry:
  assumes "page_aligned p" and "i < 512" and "k < 8"
  shows "unat (p + 8 * i + of_nat k) = unat p + 8 * unat i + k"
proof -
  have i: "unat i < 512" using assms(2) by (simp add: word_less_nat_alt)
  have "unat (8 * i) = 8 * unat i" using i by (simp add: unat_word_ariths)
  then have "unat (p + 8 * i) = unat p + 8 * unat i"
    using page_top [OF assms(1)] i by (simp add: unat_add_no_wrap)
  then show ?thesis
    using page_top [OF assms(1)] i assms(3) unat_add_of_nat [of "p + 8 * i" k] by simp
qed

lemma aligned_apart:
  assumes "page_aligned p" and "page_aligned q" and "p \<noteq> q"
  shows "unat p + 4096 \<le> unat q \<or> unat q + 4096 \<le> unat p"
proof -
  obtain k l where "unat p = 4096 * k" "unat q = 4096 * l" using assms(1,2) unfolding page_aligned_def by (elim dvdE) blast
  moreover have "unat p \<noteq> unat q" using assms(3) by (simp add: word_unat_eq_iff)
  ultimately have "k < l \<or> l < k" by auto
  then have "k + 1 \<le> l \<or> l + 1 \<le> k" by auto
  then show ?thesis using \<open>unat p = _\<close> \<open>unat q = _\<close> by auto
qed

lemma ent_st64:
  assumes "page_aligned p" and "page_aligned q" and "i < 512" and "j < 512"
  shows "ent (st64 (p + 8 * i) w m) q j = (if q = p \<and> j = i then w else ent m q j)"
proof (cases "q = p \<and> j = i")
  case False
  have i: "unat i < 512" "unat j < 512" using assms by (simp_all add: word_less_nat_alt)
  have ne: "unat p + 8 * unat i + 8 \<le> unat q + 8 * unat j \<or> unat q + 8 * unat j + 8 \<le> unat p + 8 * unat i"
  proof (cases "q = p")
    case True
    then have "unat i \<noteq> unat j" using False by (simp add: word_unat_eq_iff)
    then show ?thesis using True by auto
  next
    case False
    then show ?thesis using aligned_apart [OF assms(1,2)] i by auto
  qed
  have "8 \<le> unat (q + 8 * j + of_nat k - (p + 8 * i))" if "k < 8" for k
  proof -
    have a: "unat (q + 8 * j + of_nat k) = unat q + 8 * unat j + k" "unat (p + 8 * i) = unat p + 8 * unat i"
      using unat_entry [OF assms(2,4) that] unat_entry [OF assms(1,3), of 0] by simp_all
    show ?thesis
      using ne that page_top [OF assms(1)] page_top [OF assms(2)] i unfolding unat_diff_cases a by auto
  qed
  then show ?thesis using False by (auto simp: ent_def ld64_st64_other)
qed (simp add: ent_def)

lemma ld64_zero: "(\<And>i. i < 8 \<Longrightarrow> m (a + of_nat i) = 0) \<Longrightarrow> ld64 m a = 0"
  by (rule bit_word_eqI) (simp add: bit_ld64 less_mult_imp_div_less)

lemma ent_memset:
  assumes "page_aligned p" and "page_aligned q" and "j < 512"
  shows "ent (memset p 0 4096 m) q j = (if q = p then 0 else ent m q j)"
proof -
  have j: "unat j < 512" using assms(3) by (simp add: word_less_nat_alt)
  have in_pg: "unat (q + 8 * j + of_nat k - p) < 4096 \<longleftrightarrow> q = p" if "k < 8" for k
  proof -
    have a: "unat (q + 8 * j + of_nat k) = unat q + 8 * unat j + k" by (rule unat_entry [OF assms(2,3) that])
    show ?thesis
    proof (cases "q = p")
      case True
      then show ?thesis using j that unfolding unat_diff_cases a by auto
    next
      case False
      then show ?thesis
        using aligned_apart [OF assms(1,2)] j that page_top [OF assms(1)] unfolding unat_diff_cases a by auto
    qed
  qed
  have set: "memset p 0 4096 m x = (if unat (x - p) < 4096 then 0 else m x)" for x
    by (simp add: memset_apply)
  show ?thesis
  proof (cases "q = p")
    case True
    then show ?thesis unfolding ent_def using in_pg by (simp add: set ld64_zero)
  next
    case False
    then show ?thesis unfolding ent_def using in_pg by (auto simp: set intro: ld64_cong)
  qed
qed

end
