(* ===== verification/Vm_Tree.thy ===== *)
theory Vm_Tree
  imports Vm_Lemmas
begin

text \<open>
  A page table as a tree of pages: the pages are pairwise distinct, so that writing an entry or
  hanging a fresh page into the tree changes exactly one entry of the map it represents.
\<close>

section \<open>The tree\<close>

definition nxt :: "cmem \<Rightarrow> addr \<Rightarrow> u64 \<Rightarrow> addr option" where
  "nxt m p i = (if ent m p i AND PTE_V \<noteq> 0 then Some (PTE2PA (ent m p i)) else None)"

definition tabs1 :: "cmem \<Rightarrow> addr \<Rightarrow> addr set" where
  "tabs1 m root = {t. \<exists>i < 512. nxt m root i = Some t}"

definition tabs0 :: "cmem \<Rightarrow> addr \<Rightarrow> addr set" where
  "tabs0 m root = {t. \<exists>t1 \<in> tabs1 m root. \<exists>i < 512. nxt m t1 i = Some t}"

definition tabs :: "cmem \<Rightarrow> addr \<Rightarrow> addr set" where
  "tabs m root = insert root (tabs1 m root \<union> tabs0 m root)"

definition wf_pt :: "cmem \<Rightarrow> addr \<Rightarrow> bool" where
  "wf_pt m root \<longleftrightarrow>
    (\<forall>t \<in> tabs m root. page_aligned t \<and> t \<noteq> 0) \<and>
    root \<notin> tabs1 m root \<and> root \<notin> tabs0 m root \<and> tabs1 m root \<inter> tabs0 m root = {} \<and>
    (\<forall>i j t. i < 512 \<longrightarrow> j < 512 \<longrightarrow> nxt m root i = Some t \<longrightarrow> nxt m root j = Some t \<longrightarrow> i = j) \<and>
    (\<forall>t1 \<in> tabs1 m root. \<forall>t2 \<in> tabs1 m root. \<forall>i j t. i < 512 \<longrightarrow> j < 512 \<longrightarrow>
      nxt m t1 i = Some t \<longrightarrow> nxt m t2 j = Some t \<longrightarrow> t1 = t2 \<and> i = j)"

text \<open>The leaf table of an address, and its entry; an address without a leaf table has entry 0.\<close>

definition leaf :: "cmem \<Rightarrow> addr \<Rightarrow> u64 \<Rightarrow> addr option" where
  "leaf m root va = (case nxt m root (PX 2 va) of None \<Rightarrow> None | Some t1 \<Rightarrow> nxt m t1 (PX 1 va))"

definition pte_of :: "cmem \<Rightarrow> addr \<Rightarrow> u64 \<Rightarrow> u64" where
  "pte_of m root va = (case leaf m root va of None \<Rightarrow> 0 | Some t0 \<Rightarrow> ent m t0 (PX 0 va))"

lemma wf_ptD:
  assumes "wf_pt m root"
  shows "\<And>t. t \<in> tabs m root \<Longrightarrow> page_aligned t" and "\<And>t. t \<in> tabs m root \<Longrightarrow> t \<noteq> 0"
    and "root \<notin> tabs1 m root" and "root \<notin> tabs0 m root" and "tabs1 m root \<inter> tabs0 m root = {}"
    and "\<And>i j t. i < 512 \<Longrightarrow> j < 512 \<Longrightarrow> nxt m root i = Some t \<Longrightarrow> nxt m root j = Some t \<Longrightarrow> i = j"
    and "\<And>t1 t2 i j t. t1 \<in> tabs1 m root \<Longrightarrow> t2 \<in> tabs1 m root \<Longrightarrow> i < 512 \<Longrightarrow> j < 512 \<Longrightarrow>
      nxt m t1 i = Some t \<Longrightarrow> nxt m t2 j = Some t \<Longrightarrow> t1 = t2 \<and> i = j"
  using assms unfolding wf_pt_def by blast+

lemma tabs_intros:
  "root \<in> tabs m root" "t \<in> tabs1 m root \<Longrightarrow> t \<in> tabs m root" "t \<in> tabs0 m root \<Longrightarrow> t \<in> tabs m root"
  by (simp_all add: tabs_def)

lemma tabs1I: "i < 512 \<Longrightarrow> nxt m root i = Some t \<Longrightarrow> t \<in> tabs1 m root"
  by (auto simp: tabs1_def)

lemma tabs0I: "t1 \<in> tabs1 m root \<Longrightarrow> i < 512 \<Longrightarrow> nxt m t1 i = Some t \<Longrightarrow> t \<in> tabs0 m root"
  by (auto simp: tabs0_def)

lemma leaf_tab:
  assumes "leaf m root va = Some t0"
  obtains t1 where "nxt m root (PX 2 va) = Some t1" and "nxt m t1 (PX 1 va) = Some t0" and "t1 \<in> tabs1 m root"
    and "t0 \<in> tabs0 m root"
proof -
  obtain t1 where t: "nxt m root (PX 2 va) = Some t1" "nxt m t1 (PX 1 va) = Some t0"
    using assms by (auto simp: leaf_def split: option.splits)
  have "t1 \<in> tabs1 m root" by (rule tabs1I [OF PX_bound t(1)])
  then show thesis using that t tabs0I [OF _ PX_bound t(2)] by blast
qed

lemma leaf_px: "PX 2 va' = PX 2 va \<Longrightarrow> PX 1 va' = PX 1 va \<Longrightarrow> leaf m root va' = leaf m root va"
  by (simp only: leaf_def)

lemma leaf_inj:
  assumes wf: "wf_pt m root" and "leaf m root va = Some t" and "leaf m root va' = Some t"
  shows "PX 2 va = PX 2 va'" and "PX 1 va = PX 1 va'"
proof -
  obtain t1 where a: "nxt m root (PX 2 va) = Some t1" "nxt m t1 (PX 1 va) = Some t" "t1 \<in> tabs1 m root"
    using leaf_tab [OF assms(2)] .
  obtain t2 where b: "nxt m root (PX 2 va') = Some t2" "nxt m t2 (PX 1 va') = Some t" "t2 \<in> tabs1 m root"
    using leaf_tab [OF assms(3)] .
  have e: "t1 = t2 \<and> PX 1 va = PX 1 va'" by (rule wf_ptD(7) [OF wf a(3) b(3) PX_bound PX_bound a(2) b(2)])
  then show "PX 1 va = PX 1 va'" ..
  show "PX 2 va = PX 2 va'" using wf_ptD(6) [OF wf PX_bound PX_bound a(1)] b(1) e by blast
qed

section \<open>Memories with the same tree\<close>

lemma tree_cong:
  assumes "\<And>i. i < 512 \<Longrightarrow> nxt m' root i = nxt m root i"
    and "\<And>t i. t \<in> tabs1 m root \<Longrightarrow> i < 512 \<Longrightarrow> nxt m' t i = nxt m t i"
  shows "tabs1 m' root = tabs1 m root" and "tabs0 m' root = tabs0 m root" and "tabs m' root = tabs m root"
    and "wf_pt m root \<Longrightarrow> wf_pt m' root" and "leaf m' root va = leaf m root va"
proof -
  show 1: "tabs1 m' root = tabs1 m root" unfolding tabs1_def using assms(1) by (intro Collect_cong) metis
  show 2: "tabs0 m' root = tabs0 m root" unfolding tabs0_def 1 using assms(2) by (intro Collect_cong) metis
  show 3: "tabs m' root = tabs m root" unfolding tabs_def 1 2 ..
  show "wf_pt m' root" if "wf_pt m root"
    using that assms unfolding wf_pt_def 1 2 3 by simp
  show "leaf m' root va = leaf m root va"
  proof (cases "nxt m root (PX 2 va)")
    case None
    then show ?thesis using assms(1) [OF PX_bound, of 2 va] by (simp add: leaf_def)
  next
    case (Some t1)
    then show ?thesis
      using assms(1) [OF PX_bound, of 2 va] assms(2) [OF tabs1I [OF PX_bound Some] PX_bound] by (simp add: leaf_def)
  qed
qed

text \<open>Writing an entry of a leaf table.\<close>

lemma write_leaf:
  fixes w :: u64
  assumes wf: "wf_pt m root" and lf: "leaf m root va = Some t0"
  defines "m' \<equiv> st64 (t0 + 8 * PX 0 va) w m"
  shows "wf_pt m' root" and "tabs m' root = tabs m root" and "leaf m' root va' = leaf m root va'"
    and "pte_of m' root va' =
      (if PX 2 va' = PX 2 va \<and> PX 1 va' = PX 1 va \<and> PX 0 va' = PX 0 va then w else pte_of m root va')"
proof -
  obtain t1 where t1: "nxt m root (PX 2 va) = Some t1" "nxt m t1 (PX 1 va) = Some t0" "t0 \<in> tabs0 m root"
    using leaf_tab [OF lf] .
  note al = wf_ptD(1) [OF wf]
  have at0: "page_aligned t0" by (rule al [OF tabs_intros(3) [OF t1(3)]])
  have e: "ent m' q j = (if q = t0 \<and> j = PX 0 va then w else ent m q j)" if "page_aligned q" "j < 512" for q j
    unfolding m'_def by (rule ent_st64 [OF at0 that(1) PX_bound that(2)])
  have r: "nxt m' root i = nxt m root i" if "i < 512" for i
  proof -
    have "root \<noteq> t0" using wf_ptD(4) [OF wf] t1(3) by blast
    then show ?thesis using e [OF al [OF tabs_intros(1)] that] by (simp add: nxt_def)
  qed
  have s: "nxt m' t i = nxt m t i" if "t \<in> tabs1 m root" "i < 512" for t i
  proof -
    have "t \<noteq> t0" using wf_ptD(5) [OF wf] t1(3) that by blast
    then show ?thesis using e [OF al [OF tabs_intros(2) [OF that(1)]] that(2)] by (simp add: nxt_def)
  qed
  show "wf_pt m' root" by (rule tree_cong(4) [OF _ _ wf]) (use r s in simp_all)
  show "tabs m' root = tabs m root" by (rule tree_cong(3)) (use r s in simp_all)
  show lf': "leaf m' root va' = leaf m root va'" for va' by (rule tree_cong(5)) (use r s in simp_all)
  show "pte_of m' root va' =
      (if PX 2 va' = PX 2 va \<and> PX 1 va' = PX 1 va \<and> PX 0 va' = PX 0 va then w else pte_of m root va')"
  proof (cases "leaf m root va'")
    case None
    then have "\<not> (PX 2 va' = PX 2 va \<and> PX 1 va' = PX 1 va)" using lf leaf_px [of va' va m root] by fastforce
    then show ?thesis using None lf' by (auto simp: pte_of_def)
  next
    case (Some t)
    have at: "page_aligned t" using leaf_tab [OF Some] al tabs_intros(3) by metis
    have "t = t0 \<longleftrightarrow> PX 2 va' = PX 2 va \<and> PX 1 va' = PX 1 va"
      using leaf_inj [OF wf, of va' t0 va] leaf_px [of va' va m root] lf Some by fastforce
    then show ?thesis using Some lf' e [OF at PX_bound, of 0 va'] by (auto simp: pte_of_def)
  qed
qed

section \<open>Hanging a fresh page into the tree\<close>

lemma valid_bit: "(x OR PTE_V) AND PTE_V \<noteq> 0"
proof -
  have "bit ((x OR PTE_V) AND PTE_V) 0" by (simp add: PTE_V_def bit_simps)
  then show ?thesis by auto
qed

definition hang :: "addr \<Rightarrow> u64 \<Rightarrow> addr \<Rightarrow> cmem \<Rightarrow> cmem" where
  "hang t i p m = st64 (t + 8 * i) (PA2PTE p OR PTE_V) (memset p 0 4096 m)"

lemma nxt_hang:
  assumes "page_aligned t" and "page_aligned p" and "page_aligned q" and "i < 512" and "j < 512" and "t \<noteq> p"
  shows "nxt (hang t i p m) q j = (if q = t \<and> j = i then Some p else if q = p then None else nxt m q j)"
    and "q \<noteq> t \<Longrightarrow> ent (hang t i p m) q j = (if q = p then 0 else ent m q j)"
proof -
  have e: "ent (hang t i p m) q j = (if q = t \<and> j = i then PA2PTE p OR PTE_V else if q = p then 0 else ent m q j)"
    unfolding hang_def using ent_st64 [OF assms(1,3,4,5)] ent_memset [OF assms(2,3,5)] assms(6) by auto
  have "PTE2PA (PA2PTE p OR PTE_V) = p"
    using assms(2) by (intro PTE2PA_PA2PTE) (simp_all add: page_aligned_def PTE_V_def)
  then show "nxt (hang t i p m) q j = (if q = t \<and> j = i then Some p else if q = p then None else nxt m q j)"
    unfolding nxt_def e using valid_bit assms(6) by auto
  show "ent (hang t i p m) q j = (if q = p then 0 else ent m q j)" if "q \<noteq> t" using e that by simp
qed

lemma hang_root:
  assumes wf: "wf_pt m root" and p: "page_aligned p" "p \<noteq> 0" "p \<notin> tabs m root" and i: "i < 512" "nxt m root i = None"
  defines "m' \<equiv> hang root i p m"
  shows "wf_pt m' root" and "tabs m' root = insert p (tabs m root)" and "pte_of m' root va = pte_of m root va"
    and "nxt m' root i = Some p" and "p \<in> tabs1 m' root" and "\<And>j. j < 512 \<Longrightarrow> nxt m' p j = None"
    and "\<And>t. t \<in> tabs0 m root \<Longrightarrow> t \<in> tabs0 m' root"
proof -
  note al = wf_ptD(1) [OF wf]
  have ar: "page_aligned root" by (rule al [OF tabs_intros(1)])
  have rp: "root \<noteq> p" using p(3) tabs_intros(1) by blast
  have N: "nxt m' q j = (if q = root \<and> j = i then Some p else if q = p then None else nxt m q j)"
    if "page_aligned q" "j < 512" for q j
    unfolding m'_def by (rule nxt_hang(1) [OF ar p(1) that(1) i(1) that(2) rp])
  have Nr: "nxt m' root j = (if j = i then Some p else nxt m root j)" if "j < 512" for j
    using N [OF ar that] rp by simp
  show new: "nxt m' root i = Some p" using Nr [OF i(1)] by simp
  show pn: "nxt m' p j = None" if "j < 512" for j using N [OF p(1) that] rp by simp
  have t1: "tabs1 m' root = insert p (tabs1 m root)"
  proof (rule set_eqI)
    fix x show "x \<in> tabs1 m' root \<longleftrightarrow> x \<in> insert p (tabs1 m root)"
      unfolding tabs1_def mem_Collect_eq insert_iff using Nr i by (metis option.distinct(1) option.inject)
  qed
  then show "p \<in> tabs1 m' root" by simp
  have N1: "nxt m' t j = nxt m t j" if "t \<in> tabs1 m root" "j < 512" for t j
  proof -
    have "t \<noteq> root" "t \<noteq> p" using wf_ptD(3) [OF wf] p(3) that(1) tabs_intros(2) by blast+
    then show ?thesis using N [OF al [OF tabs_intros(2) [OF that(1)]] that(2)] by simp
  qed
  have t0: "tabs0 m' root = tabs0 m root"
  proof (rule set_eqI)
    fix x show "x \<in> tabs0 m' root \<longleftrightarrow> x \<in> tabs0 m root"
      unfolding tabs0_def t1 mem_Collect_eq using N1 pn by (metis insert_iff option.distinct(1))
  qed
  then show "\<And>t. t \<in> tabs0 m root \<Longrightarrow> t \<in> tabs0 m' root" by simp
  show T: "tabs m' root = insert p (tabs m root)" unfolding tabs_def t1 t0 by auto
  have p1: "p \<notin> tabs1 m root" "p \<notin> tabs0 m root" using p(3) tabs_intros by blast+
  have inj1: "j = k" if "j < 512" "k < 512" "nxt m' root j = Some t" "nxt m' root k = Some t" for j k t
    using that Nr p1(1) tabs1I wf_ptD(6) [OF wf] by (metis option.inject)
  have inj2: "a = b \<and> j = k" if "a \<in> tabs1 m' root" "b \<in> tabs1 m' root" "j < 512" "k < 512"
      "nxt m' a j = Some t" "nxt m' b k = Some t" for a b j k t
  proof -
    have "a \<noteq> p" "b \<noteq> p" using that pn by auto
    then have ab: "a \<in> tabs1 m root" "b \<in> tabs1 m root" using that(1,2) t1 by auto
    then show ?thesis using wf_ptD(7) [OF wf ab that(3,4)] that(5,6) N1 [OF ab(1) that(3)] N1 [OF ab(2) that(4)] by simp
  qed
  show "wf_pt m' root"
    unfolding wf_pt_def T
  proof (intro conjI)
    show "\<forall>t \<in> insert p (tabs m root). page_aligned t \<and> t \<noteq> 0" using p al wf_ptD(2) [OF wf] by blast
    show "root \<notin> tabs1 m' root" "root \<notin> tabs0 m' root" "tabs1 m' root \<inter> tabs0 m' root = {}"
      using wf_ptD(3-5) [OF wf] p1 rp unfolding t1 t0 by auto
  qed (use inj1 inj2 in blast)+
  have lf: "leaf m' root va = leaf m root va"
  proof (cases "PX 2 va = i")
    case True
    then show ?thesis using i new pn [OF PX_bound] by (simp add: leaf_def)
  next
    case False
    have "nxt m' root (PX 2 va) = nxt m root (PX 2 va)" using Nr [OF PX_bound] False by simp
    then show ?thesis using N1 [OF tabs1I [OF PX_bound] PX_bound] by (simp add: leaf_def split: option.splits)
  qed
  show "pte_of m' root va = pte_of m root va"
  proof (cases "leaf m root va")
    case (Some t0)
    then have "t0 \<in> tabs0 m root" by (metis leaf_tab)
    then have "t0 \<noteq> root" "t0 \<noteq> p" "page_aligned t0" using wf_ptD(4) [OF wf] p1 al tabs_intros(3) by blast+
    then have "ent m' t0 (PX 0 va) = ent m t0 (PX 0 va)"
      unfolding m'_def using nxt_hang(2) [OF ar p(1) _ i(1) PX_bound rp] by simp
    then show ?thesis using Some lf by (simp add: pte_of_def)
  qed (simp add: pte_of_def lf)
qed

lemma hang_mid:
  assumes wf: "wf_pt m root" and p: "page_aligned p" "p \<noteq> 0" "p \<notin> tabs m root"
    and t: "t \<in> tabs1 m root" and i: "i < 512" "nxt m t i = None"
  defines "m' \<equiv> hang t i p m"
  shows "wf_pt m' root" and "tabs m' root = insert p (tabs m root)" and "pte_of m' root va = pte_of m root va"
    and "nxt m' t i = Some p" and "\<And>j. j < 512 \<Longrightarrow> nxt m' root j = nxt m root j"
proof -
  note al = wf_ptD(1) [OF wf]
  have at: "page_aligned t" by (rule al [OF tabs_intros(2) [OF t]])
  have tp: "t \<noteq> p" using p(3) tabs_intros(2) [OF t] by blast
  have tr: "t \<noteq> root" using wf_ptD(3) [OF wf] t by blast
  have rp: "root \<noteq> p" using p(3) tabs_intros(1) by blast
  have N: "nxt m' q j = (if q = t \<and> j = i then Some p else if q = p then None else nxt m q j)"
    if "page_aligned q" "j < 512" for q j
    unfolding m'_def by (rule nxt_hang(1) [OF at p(1) that(1) i(1) that(2) tp])
  show new: "nxt m' t i = Some p" using N [OF at i(1)] by simp
  show Nr: "nxt m' root j = nxt m root j" if "j < 512" for j
    using N [OF al [OF tabs_intros(1)] that] tr rp by simp
  have t1: "tabs1 m' root = tabs1 m root" unfolding tabs1_def using Nr by (intro Collect_cong) metis
  have p1: "p \<notin> tabs1 m root" "p \<notin> tabs0 m root" using p(3) tabs_intros by blast+
  have N1: "nxt m' a j = (if a = t \<and> j = i then Some p else nxt m a j)" if "a \<in> tabs1 m root" "j < 512" for a j
    using N [OF al [OF tabs_intros(2) [OF that(1)]] that(2)] that(1) p1(1) by auto
  have t0: "tabs0 m' root = insert p (tabs0 m root)"
  proof
    show "tabs0 m' root \<subseteq> insert p (tabs0 m root)"
    proof
      fix x assume "x \<in> tabs0 m' root"
      then obtain a j where "a \<in> tabs1 m root" "j < 512" "nxt m' a j = Some x" unfolding tabs0_def t1 by blast
      then show "x \<in> insert p (tabs0 m root)" using N1 [of a j] tabs0I [of a m root j x] by (auto split: if_splits)
    qed
    show "insert p (tabs0 m root) \<subseteq> tabs0 m' root"
    proof
      fix x assume "x \<in> insert p (tabs0 m root)"
      then consider "x = p" | a j where "a \<in> tabs1 m root" "j < 512" "nxt m a j = Some x" by (auto simp: tabs0_def)
      then show "x \<in> tabs0 m' root"
      proof cases
        case 1
        then show ?thesis using tabs0I [of t m' root i p] t t1 i(1) new by simp
      next
        case 2
        then have "nxt m' a j = Some x" using N1 [OF 2(1,2)] i(2) by auto
        then show ?thesis using tabs0I [of a m' root j x] 2 t1 by simp
      qed
    qed
  qed
  show T: "tabs m' root = insert p (tabs m root)" unfolding tabs_def t1 t0 by auto
  have inj2: "a = b \<and> j = k" if "a \<in> tabs1 m' root" "b \<in> tabs1 m' root" "j < 512" "k < 512"
      "nxt m' a j = Some x" "nxt m' b k = Some x" for a b j k x
  proof (cases "x = p")
    case True
    have "a = t \<and> j = i" using N1 [of a j] that True t1 p1(2) tabs0I [of a m root j p] by (auto split: if_splits)
    moreover have "b = t \<and> k = i" using N1 [of b k] that True t1 p1(2) tabs0I [of b m root k p] by (auto split: if_splits)
    ultimately show ?thesis by simp
  next
    case False
    have "nxt m a j = Some x" using N1 [of a j] that(1,3,5) t1 False by (auto split: if_splits)
    moreover have "nxt m b k = Some x" using N1 [of b k] that(2,4,6) t1 False by (auto split: if_splits)
    ultimately show ?thesis using wf_ptD(7) [OF wf _ _ that(3,4)] that(1,2) t1 by blast
  qed
  show "wf_pt m' root"
    unfolding wf_pt_def T
  proof (intro conjI)
    show "\<forall>t \<in> insert p (tabs m root). page_aligned t \<and> t \<noteq> 0" using p al wf_ptD(2) [OF wf] by blast
    show "root \<notin> tabs1 m' root" "root \<notin> tabs0 m' root" "tabs1 m' root \<inter> tabs0 m' root = {}"
      using wf_ptD(3-5) [OF wf] p1 rp unfolding t1 t0 by auto
    show "\<forall>i j t. i < 512 \<longrightarrow> j < 512 \<longrightarrow> nxt m' root i = Some t \<longrightarrow> nxt m' root j = Some t \<longrightarrow> i = j"
      using Nr wf_ptD(6) [OF wf] by simp
  qed (use inj2 in blast)
  show "pte_of m' root va = pte_of m root va"
  proof (cases "nxt m root (PX 2 va)")
    case None
    then show ?thesis using Nr [OF PX_bound, of 2 va] by (simp add: pte_of_def leaf_def)
  next
    case (Some a)
    have a: "a \<in> tabs1 m root" by (rule tabs1I [OF PX_bound Some])
    have r': "nxt m' root (PX 2 va) = Some a" using Some Nr [OF PX_bound, of 2 va] by simp
    have E: "ent m' q j = (if q = p then 0 else ent m q j)" if "page_aligned q" "j < 512" "q \<noteq> t" for q j
      unfolding m'_def by (rule nxt_hang(2) [OF at p(1) that(1) i(1) that(2) tp that(3)])
    show ?thesis
    proof (cases "a = t \<and> PX 1 va = i")
      case True
      then have "leaf m root va = None" "leaf m' root va = Some p" using Some r' i(2) new by (simp_all add: leaf_def)
      then show ?thesis using E [OF p(1) PX_bound, of 0 va] tp by (simp add: pte_of_def)
    next
      case False
      then have lf: "leaf m' root va = leaf m root va" using Some r' N1 [OF a PX_bound] by (auto simp: leaf_def)
      show ?thesis
      proof (cases "leaf m root va")
        case (Some t0)
        then have "t0 \<in> tabs0 m root" by (metis leaf_tab)
        then have "t0 \<noteq> t" "t0 \<noteq> p" "page_aligned t0" using wf_ptD(5) [OF wf] t p1 al tabs_intros(3) by blast+
        then show ?thesis using Some lf E [OF _ PX_bound, of t0 0 va] by (simp add: pte_of_def)
      qed (simp add: pte_of_def lf)
    qed
  qed
qed

end
