(* ===== verification/Vm_Map.thy ===== *)
theory Vm_Map
  imports Vm_Tree
begin

text \<open>
  \<open>walk\<close>, \<open>mappages\<close> and \<open>uvmunmap\<close> on the map from virtual pages to entries that a page table
  represents.
\<close>

section \<open>Page tables in memory owned by the kernel\<close>

definition vm_inv :: "hart \<Rightarrow> vm \<Rightarrow> addr \<Rightarrow> (addr \<times> u64) set \<Rightarrow> bool" where
  "vm_inv c s root Own \<longleftrightarrow> kinv c (vm_k s) Own \<and> wf_pt (vm_mem s) root \<and>
     (\<forall>t \<in> tabs (vm_mem s) root. (t, 1) \<in> Own)"

definition in_pg :: "addr \<Rightarrow> addr \<Rightarrow> bool" where
  "in_pg t x \<longleftrightarrow> unat (x - t) < 4096"

text \<open>Bytes outside the pages of the table are not touched.\<close>

definition outside_same :: "addr \<Rightarrow> cmem \<Rightarrow> cmem \<Rightarrow> bool" where
  "outside_same root m m' \<longleftrightarrow> (\<forall>x. (\<forall>t \<in> tabs m' root. \<not> in_pg t x) \<longrightarrow> m' x = m x)"

lemma vm_invD:
  assumes "vm_inv c s root Own"
  shows "kinv c (vm_k s) Own" and "wf_pt (vm_mem s) root" and "\<And>t. t \<in> tabs (vm_mem s) root \<Longrightarrow> (t, 1) \<in> Own"
  using assms by (simp_all add: vm_inv_def)

lemma kalloc_page:
  assumes "kinv c k Own"
  obtains k' where "kalloc k = Inr (0, k')" and "kinv c k' Own"
  | p k' where "kalloc k = Inr (p, k')" and "p \<noteq> 0" and "kinv c k' (insert (p, 1) Own)" and "page_aligned p"
      and "\<And>n. (p, n) \<notin> Own"
proof -
  obtain p k' where r: "buddy_alloc 1 k = Inr (p, k')" using kp.alloc_total [OF assms] by blast
  have own: "kinv c k' (if p = 0 then Own else insert (p, 1) Own)" by (rule kp.alloc_owns [OF assms r])
  show thesis
  proof (cases "p = 0")
    case True
    then show thesis using that(1) r own by (simp add: kalloc_def)
  next
    case False
    have "(p, n) \<notin> Own" for n by (rule kp.alloc_fresh [OF assms r False])
    moreover have "kinv c k' (insert (p, 1) Own)" using own False by simp
    moreover from this have "page_aligned p" using kp.own_range [of c k' _ p 1] by (auto simp: page_aligned_def)
    ultimately show thesis using that(2) r False by (simp add: kalloc_def)
  qed
qed

lemma st64_page_frame:
  assumes "page_aligned t" and "i < 512" and "\<not> in_pg t x"
  shows "st64 (t + 8 * i) w m x = m x"
proof -
  have i: "unat i < 512" using assms(2) by (simp add: word_less_nat_alt)
  have a: "unat (t + 8 * i) = unat t + 8 * unat i" using unat_entry [OF assms(1,2), of 0] by simp
  have x: "unat x < 2 ^ 64" using unsigned_less [of x] by simp
  have "\<not> unat (x - (t + 8 * i)) < 8"
    using assms(3) page_top [OF assms(1)] i x unfolding in_pg_def unat_diff_cases a by (auto split: if_splits)
  then show ?thesis by (simp add: st64_apply)
qed

lemma hang_frame:
  assumes "page_aligned t" and "i < 512" and "\<not> in_pg t x" and "\<not> in_pg p x"
  shows "hang t i p m x = m x"
  unfolding hang_def using st64_page_frame [OF assms(1-3)] assms(4) by (simp add: memset_apply in_pg_def)

section \<open>Walking\<close>

lemma walk_step_Some:
  "nxt (vm_mem s) pt (PX level va) = Some t \<Longrightarrow> walk_levels (level # ls) pt va al s = walk_levels ls t va al s"
  by (auto simp: nxt_def ent_def Let_def split: if_splits)

lemma walk_step_None:
  assumes "nxt (vm_mem s) pt (PX level va) = None"
  shows "walk_levels (level # ls) pt va True s =
    bindE (kalloc (vm_k s)) (\<lambda>(p, k).
      if p = 0 then Inr (0, s \<lparr> vm_k := k \<rparr>)
      else walk_levels ls p va True (s \<lparr> vm_mem := hang pt (PX level va) p (vm_mem s), vm_k := k \<rparr>))"
  unfolding hang_def using assms by (auto simp: nxt_def ent_def Let_def split: if_splits)

lemma walk_lookup:
  assumes "va < MAXVA"
  shows "walk root va False s =
    Inr (case leaf (vm_mem s) root va of None \<Rightarrow> 0 | Some t0 \<Rightarrow> t0 + 8 * PX 0 va, s)"
proof (cases "nxt (vm_mem s) root (PX 2 va)")
  case None
  then have "walk_levels [2, 1] root va False s = Inr (0, s)" by (auto simp: nxt_def ent_def Let_def split: if_splits)
  then show ?thesis using None assms by (simp add: walk_def leaf_def)
next
  case (Some t1)
  note w = walk_step_Some [OF Some, of "[1]" False]
  show ?thesis
  proof (cases "nxt (vm_mem s) t1 (PX 1 va)")
    case None
    then have "walk_levels [1] t1 va False s = Inr (0, s)" by (auto simp: nxt_def ent_def Let_def split: if_splits)
    then show ?thesis using Some None assms w by (simp add: walk_def leaf_def del: walk_levels.simps)
  next
    case (Some t0)
    note w2 = walk_step_Some [OF this, of "[]" False]
    show ?thesis using Some \<open>nxt (vm_mem s) root (PX 2 va) = Some t1\<close> assms w w2
      by (simp add: walk_def leaf_def del: walk_levels.simps(2))
  qed
qed

lemma entry_nonzero: "wf_pt m root \<Longrightarrow> leaf m root va = Some t0 \<Longrightarrow> t0 + 8 * PX 0 va \<noteq> 0"
proof -
  assume wf: "wf_pt m root" and lf: "leaf m root va = Some t0"
  have t: "t0 \<in> tabs m root" using leaf_tab [OF lf] tabs_intros(3) by metis
  have "unat (t0 + 8 * PX 0 va) = unat t0 + 8 * unat (PX 0 va)"
    using unat_entry [OF wf_ptD(1) [OF wf t] PX_bound, of 0 0 va] by simp
  moreover have "unat t0 \<noteq> 0" using wf_ptD(2) [OF wf t] by (simp add: unat_eq_0)
  ultimately show ?thesis by (metis add_is_0 unat_0)
qed

text \<open>What \<open>walk\<close> with allocation guarantees.\<close>

definition walked :: "hart \<Rightarrow> addr \<Rightarrow> u64 \<Rightarrow> vm \<Rightarrow> (addr \<times> u64) set \<Rightarrow> addr \<Rightarrow> vm \<Rightarrow> (addr \<times> u64) set \<Rightarrow> bool" where
  "walked c root va s Own a s' Own' \<longleftrightarrow> vm_inv c s' root Own' \<and> Own \<subseteq> Own' \<and>
     (\<forall>va'. pte_of (vm_mem s') root va' = pte_of (vm_mem s) root va') \<and>
     tabs (vm_mem s) root \<subseteq> tabs (vm_mem s') root \<and> outside_same root (vm_mem s) (vm_mem s') \<and>
     (a = 0 \<or> (\<exists>t0. leaf (vm_mem s') root va = Some t0 \<and> a = t0 + 8 * PX 0 va))"

lemma walked_refl:
  assumes "vm_inv c s root Own" and "kinv c k Own"
    and "a = 0 \<or> (\<exists>t0. leaf (vm_mem s) root va = Some t0 \<and> a = t0 + 8 * PX 0 va)"
  shows "walked c root va s Own a (s \<lparr> vm_k := k \<rparr>) Own"
  using assms by (simp add: walked_def vm_inv_def outside_same_def)

lemma walked_trans:
  assumes "walked c root va s Own 0 s1 Own1" and "walked c root va s1 Own1 a s2 Own2"
  shows "walked c root va s Own a s2 Own2"
proof -
  have "outside_same root (vm_mem s) (vm_mem s2)"
    using assms unfolding walked_def outside_same_def by (metis subsetD)
  then show ?thesis using assms unfolding walked_def by (metis subset_trans)
qed

lemma hang_inv:
  assumes inv: "vm_inv c s root Own" and k: "kinv c k (insert (p, 1) Own)"
    and wf: "wf_pt (hang t i p (vm_mem s)) root"
    and tabs: "tabs (hang t i p (vm_mem s)) root = insert p (tabs (vm_mem s) root)"
    and pte: "\<And>va. pte_of (hang t i p (vm_mem s)) root va = pte_of (vm_mem s) root va"
    and t: "t \<in> tabs (vm_mem s) root" "i < 512"
  shows "walked c root va s Own 0 (s \<lparr> vm_mem := hang t i p (vm_mem s), vm_k := k \<rparr>) (insert (p, 1) Own)"
proof -
  have "page_aligned t" by (rule wf_ptD(1) [OF vm_invD(2) [OF inv] t(1)])
  then have "outside_same root (vm_mem s) (hang t i p (vm_mem s))"
    unfolding outside_same_def tabs using hang_frame t by auto
  then show ?thesis using vm_invD(3) [OF inv] k wf pte by (auto simp: walked_def vm_inv_def tabs)
qed

lemma walk_mid:
  assumes inv: "vm_inv c s root Own" and n2: "nxt (vm_mem s) root (PX 2 va) = Some t1"
  shows "\<exists>a s' Own'. walk_levels [1] t1 va True s = Inr (a, s') \<and> walked c root va s Own a s' Own'"
proof (cases "nxt (vm_mem s) t1 (PX 1 va)")
  case (Some t0)
  have lf: "leaf (vm_mem s) root va = Some t0" using n2 Some by (simp add: leaf_def)
  have "walked c root va s Own (t0 + 8 * PX 0 va) (s \<lparr> vm_k := vm_k s \<rparr>) Own"
    by (rule walked_refl [OF inv vm_invD(1) [OF inv]]) (use lf in blast)
  then show ?thesis using walk_step_Some [OF Some, of "[]" True] by auto
next
  case None
  note w = walk_step_None [OF None, of "[]"]
  have t1: "t1 \<in> tabs1 (vm_mem s) root" by (rule tabs1I [OF PX_bound n2])
  from vm_invD(1) [OF inv] show ?thesis
  proof (cases rule: kalloc_page)
    case (1 k')
    then show ?thesis using w walked_refl [OF inv 1(2), of 0] by auto
  next
    case (2 p k')
    have fresh: "p \<notin> tabs (vm_mem s) root" using 2(5) vm_invD(3) [OF inv] by blast
    note h = hang_mid [OF vm_invD(2) [OF inv] 2(4,2) fresh t1 PX_bound None]
    let ?s = "s \<lparr> vm_mem := hang t1 (PX 1 va) p (vm_mem s), vm_k := k' \<rparr>"
    have wk: "walked c root va s Own 0 ?s (insert (p, 1) Own)"
      by (rule hang_inv [OF inv 2(3) h(1,2,3) tabs_intros(2) [OF t1] PX_bound])
    have "leaf (vm_mem ?s) root va = Some p" using h(4) h(5) [OF PX_bound, of 2 va] n2 by (simp add: leaf_def)
    then have "walked c root va s Own (p + 8 * PX 0 va) ?s (insert (p, 1) Own)"
      using wk by (auto simp: walked_def)
    then show ?thesis using w 2(1,2) by auto
  qed
qed

lemma walk_alloc:
  assumes inv: "vm_inv c s root Own" and va: "va < MAXVA"
  shows "\<exists>a s' Own'. walk root va True s = Inr (a, s') \<and> walked c root va s Own a s' Own'"
proof (cases "nxt (vm_mem s) root (PX 2 va)")
  case (Some t1)
  then show ?thesis
    using walk_mid [OF inv Some] walk_step_Some [OF Some, of "[1]" True] va by (simp add: walk_def del: walk_levels.simps)
next
  case None
  note w = walk_step_None [OF None, of "[1]"]
  from vm_invD(1) [OF inv] show ?thesis
  proof (cases rule: kalloc_page)
    case (1 k')
    then show ?thesis using w va walked_refl [OF inv 1(2), of 0] by (auto simp: walk_def)
  next
    case (2 p k')
    have fresh: "p \<notin> tabs (vm_mem s) root" using 2(5) vm_invD(3) [OF inv] by blast
    note h = hang_root [OF vm_invD(2) [OF inv] 2(4,2) fresh PX_bound None]
    let ?s = "s \<lparr> vm_mem := hang root (PX 2 va) p (vm_mem s), vm_k := k' \<rparr>"
    have wk: "walked c root va s Own 0 ?s (insert (p, 1) Own)"
      by (rule hang_inv [OF inv 2(3) h(1,2,3) tabs_intros(1) PX_bound])
    have inv1: "vm_inv c ?s root (insert (p, 1) Own)" using wk by (simp add: walked_def)
    obtain a s' Own' where r: "walk_levels [1] p va True ?s = Inr (a, s')" "walked c root va ?s (insert (p, 1) Own) a s' Own'"
      using walk_mid [OF inv1, of va p] h(4) by auto
    have "walk root va True s = Inr (a, s')" using w va 2(1,2) r(1) by (simp add: walk_def del: walk_levels.simps)
    then show ?thesis using walked_trans [OF wk r(2)] by blast
  qed
qed

section \<open>Pages of virtual addresses\<close>

definition same_page :: "u64 \<Rightarrow> u64 \<Rightarrow> bool" where
  "same_page va va' \<longleftrightarrow> unat va div 4096 = unat va' div 4096"

lemma bit_PX: "bit (PX level va) n \<longleftrightarrow> n < 9 \<and> bit va (12 + 9 * level + n)"
proof -
  have "(0x1FF :: u64) = mask 9" by (simp add: mask_eq_exp_minus_1)
  then have "PX level va = take_bit 9 (drop_bit (PXSHIFT level) va)" by (simp add: PX_def take_bit_eq_mask)
  then show ?thesis by (simp add: PXSHIFT_def bit_take_bit_iff bit_drop_bit_eq)
qed

lemma unat_drop_bit: "unat (drop_bit 12 (w :: u64)) = unat w div 4096"
  by (simp add: drop_bit_eq_div unat_div)

lemma same_page_drop: "same_page va va' \<longleftrightarrow> drop_bit 12 va = drop_bit 12 va'"
  by (simp add: same_page_def word_unat_eq_iff unat_drop_bit)

lemma PX_same_page:
  assumes "va < MAXVA" and "va' < MAXVA"
  shows "PX 2 va' = PX 2 va \<and> PX 1 va' = PX 1 va \<and> PX 0 va' = PX 0 va \<longleftrightarrow> same_page va' va"
proof
  assume px: "PX 2 va' = PX 2 va \<and> PX 1 va' = PX 1 va \<and> PX 0 va' = PX 0 va"
  have lt: "unat va < 2 ^ 38" "unat va' < 2 ^ 38" using assms by (simp_all add: MAXVA_def word_less_nat_alt)
  have "bit va (12 + n) = bit va' (12 + n)" for n
  proof -
    consider "n < 9" | "9 \<le> n" "n < 18" | "18 \<le> n" "n < 27" | "27 \<le> n" by linarith
    then show ?thesis
    proof cases
      case 1
      then show ?thesis using px bit_PX [of 0 va n] bit_PX [of 0 va' n] by simp
    next
      case 2
      then have "n - 9 < 9" by simp
      then show ?thesis using 2 px bit_PX [of 1 va "n - 9"] bit_PX [of 1 va' "n - 9"] by simp
    next
      case 3
      then have "n - 18 < 9" by simp
      then show ?thesis using 3 px bit_PX [of 2 va "n - 18"] bit_PX [of 2 va' "n - 18"] by simp
    next
      case 4
      then have "38 \<le> 12 + n" by simp
      then show ?thesis using high_bits [OF lt(1)] high_bits [OF lt(2)] by blast
    qed
  qed
  then have "drop_bit 12 va = drop_bit 12 va'" by (intro bit_word_eqI) (simp add: bit_drop_bit_eq)
  then show "same_page va' va" by (simp add: same_page_drop)
next
  assume "same_page va' va"
  then have d: "drop_bit 12 va' = drop_bit 12 va" by (simp add: same_page_drop)
  have "PX l va' = PX l va" for l
  proof (rule bit_word_eqI)
    fix n
    have "bit (drop_bit 12 va') (9 * l + n) = bit (drop_bit 12 va) (9 * l + n)" using d by simp
    then show "bit (PX l va') n = bit (PX l va) n" by (simp add: bit_PX bit_drop_bit_eq add.assoc)
  qed
  then show "PX 2 va' = PX 2 va \<and> PX 1 va' = PX 1 va \<and> PX 0 va' = PX 0 va" by blast
qed

lemma PGROUNDDOWN_id: "page_aligned va \<Longrightarrow> PGROUNDDOWN va = va"
  by (simp add: word_unat_eq_iff unat_PGROUNDDOWN page_aligned_def)

lemma PGROUNDDOWN_end:
  assumes "page_aligned va"
  shows "PGROUNDDOWN (va + PGSIZE - 1) = va"
proof -
  have "va + PGSIZE - 1 = va + of_nat 4095" by (simp add: PGSIZE_def)
  moreover have "unat (va + of_nat 4095) = unat va + 4095" using page_top [OF assms] by (intro unat_add_of_nat) simp
  moreover have "(unat va + 4095) mod 4096 = 4095" using assms by (auto simp: page_aligned_def)
  ultimately show ?thesis by (simp add: word_unat_eq_iff unat_PGROUNDDOWN)
qed

section \<open>Mapping and unmapping one page\<close>

lemma outside_same_trans:
  assumes "outside_same root m m1" and "outside_same root m1 m2" and "tabs m1 root \<subseteq> tabs m2 root"
  shows "outside_same root m m2"
  using assms unfolding outside_same_def by (metis subsetD)

lemma write_entry:
  fixes w :: u64
  assumes inv: "vm_inv c s root Own" and lf: "leaf (vm_mem s) root va = Some t0" and va: "va < MAXVA"
  defines "s' \<equiv> s \<lparr> vm_mem := st64 (t0 + 8 * PX 0 va) w (vm_mem s) \<rparr>"
  shows "vm_inv c s' root Own" and "outside_same root (vm_mem s) (vm_mem s')"
    and "tabs (vm_mem s') root = tabs (vm_mem s) root"
    and "\<And>va'. va' < MAXVA \<Longrightarrow> pte_of (vm_mem s') root va' = (if same_page va' va then w else pte_of (vm_mem s) root va')"
proof -
  note wl = write_leaf [OF vm_invD(2) [OF inv] lf, of w]
  have t0: "t0 \<in> tabs (vm_mem s) root" using leaf_tab [OF lf] tabs_intros(3) by metis
  have al: "page_aligned t0" by (rule wf_ptD(1) [OF vm_invD(2) [OF inv] t0])
  show "vm_inv c s' root Own" using inv wl(1,2) by (simp add: vm_inv_def s'_def)
  show "tabs (vm_mem s') root = tabs (vm_mem s) root" using wl(2) by (simp add: s'_def)
  then show "outside_same root (vm_mem s) (vm_mem s')"
    using t0 st64_page_frame [OF al PX_bound] by (simp add: outside_same_def s'_def)
  show "pte_of (vm_mem s') root va' = (if same_page va' va then w else pte_of (vm_mem s) root va')" if "va' < MAXVA" for va'
    using wl(4) [of va'] PX_same_page [OF va that] unfolding s'_def by simp
qed

text \<open>
  Mapping one page sets its entry, or, when there is no page left for a table, changes no entry.
\<close>

lemma mappages_one:
  assumes inv: "vm_inv c s root Own" and va: "va < MAXVA" "page_aligned va"
    and unmapped: "pte_of (vm_mem s) root va AND PTE_V = 0"
  shows "\<exists>r s' Own'. mappages root va PGSIZE pa perm s = Inr (r, s') \<and> vm_inv c s' root Own' \<and> Own \<subseteq> Own' \<and>
    outside_same root (vm_mem s) (vm_mem s') \<and> (r = 0 \<or> r = -1) \<and> (\<forall>va' < MAXVA. pte_of (vm_mem s') root va' =
      (if r = 0 \<and> same_page va' va then PA2PTE pa OR perm OR PTE_V else pte_of (vm_mem s) root va'))"
proof -
  obtain a s1 Own1 where w: "walk root va True s = Inr (a, s1)" "walked c root va s Own a s1 Own1"
    using walk_alloc [OF inv va(1)] by blast
  have args: "mappages root va PGSIZE pa perm s = mappages_loop root va va pa perm s"
    using PGROUNDDOWN_id [OF va(2)] PGROUNDDOWN_end [OF va(2)] by (simp add: mappages_def PGSIZE_def)
  note W = w(2) [unfolded walked_def]
  show ?thesis
  proof (cases "a = 0")
    case True
    then have "mappages root va PGSIZE pa perm s = Inr (-1, s1)" using args w(1) by (simp add: mappages_loop.simps)
    then show ?thesis using W by auto
  next
    case False
    then obtain t0 where t0: "leaf (vm_mem s1) root va = Some t0" "a = t0 + 8 * PX 0 va" using W by blast
    let ?s = "s1 \<lparr> vm_mem := st64 a (PA2PTE pa OR perm OR PTE_V) (vm_mem s1) \<rparr>"
    have e: "ld64 (vm_mem s1) a = pte_of (vm_mem s1) root va" using t0 by (simp add: pte_of_def ent_def)
    then have z: "ld64 (vm_mem s1) a AND PTE_V = 0" using W unmapped by simp
    have inv1: "vm_inv c s1 root Own1" using W by blast
    note we = write_entry [OF inv1 t0(1) va(1), where w = "PA2PTE pa OR perm OR PTE_V", folded t0(2)]
    have "mappages root va PGSIZE pa perm s = Inr (0, ?s)"
      using args w(1) False z by (simp add: mappages_loop.simps [of root va] Let_def)
    moreover have "outside_same root (vm_mem s) (vm_mem ?s)"
      by (rule outside_same_trans [OF _ we(2)]) (use W we(3) in auto)
    ultimately show ?thesis using W we(1,4) by auto
  qed
qed

lemma walkaddr_lookup:
  assumes "vm_inv c s root Own"
  shows "walkaddr root va s =
    Inr (if va < MAXVA \<and> pte_of (vm_mem s) root va AND PTE_V \<noteq> 0 \<and> pte_of (vm_mem s) root va AND PTE_U \<noteq> 0
      then PTE2PA (pte_of (vm_mem s) root va) else 0, s)"
proof (cases "va < MAXVA")
  case True
  then have nle: "\<not> MAXVA \<le> va" by simp
  show ?thesis
  proof (cases "leaf (vm_mem s) root va")
    case None
    then show ?thesis using nle walk_lookup [OF True, of root s] by (simp add: walkaddr_def pte_of_def)
  next
    case (Some t0)
    then show ?thesis
      using True nle walk_lookup [OF True, of root s] entry_nonzero [OF vm_invD(2) [OF assms] Some]
      by (simp add: walkaddr_def pte_of_def ent_def Let_def)
  qed
next
  case False
  then have "MAXVA \<le> va" by simp
  then show ?thesis using False by (simp add: walkaddr_def)
qed

text \<open>Unmapping one page without freeing it clears its entry.\<close>

lemma uvmunmap_one:
  assumes inv: "vm_inv c s root Own" and va: "va < MAXVA" "page_aligned va"
    and mapped: "pte_of (vm_mem s) root va AND PTE_V \<noteq> 0" "PTE_FLAGS (pte_of (vm_mem s) root va) \<noteq> PTE_V"
  shows "\<exists>s'. uvmunmap root va 1 False s = Inr s' \<and> vm_inv c s' root Own \<and>
    outside_same root (vm_mem s) (vm_mem s') \<and>
    (\<forall>va' < MAXVA. pte_of (vm_mem s') root va' = (if same_page va' va then 0 else pte_of (vm_mem s) root va'))"
proof -
  obtain t0 where t0: "leaf (vm_mem s) root va = Some t0"
    using mapped(1) by (cases "leaf (vm_mem s) root va") (auto simp: pte_of_def)
  let ?a = "t0 + 8 * PX 0 va"
  let ?s = "s \<lparr> vm_mem := st64 ?a 0 (vm_mem s) \<rparr>"
  have e: "ld64 (vm_mem s) ?a = pte_of (vm_mem s) root va" using t0 by (simp add: pte_of_def ent_def)
  have lt: "va < va + PGSIZE" using va(1) by (simp add: word_less_nat_alt MAXVA_def unat_add_no_wrap)
  have "uvmunmap_loop root va (va + PGSIZE) False s = Inr ?s"
    using lt walk_lookup [OF va(1), of root s] t0 entry_nonzero [OF vm_invD(2) [OF inv] t0] e mapped
    by (simp add: uvmunmap_loop.simps [of root va] uvmunmap_loop.simps [of root "va + PGSIZE"])
  then have "uvmunmap root va 1 False s = Inr ?s"
    using va(2) by (simp add: uvmunmap_def mod_PGSIZE_eq_0 page_aligned_def)
  then show ?thesis using write_entry [OF inv t0 va(1), where w = 0] by auto
qed

end
