(* ===== verification/Vm_Copy.thy ===== *)
theory Vm_Copy
  imports Vm_Map
begin

text \<open>
  \<open>copyin\<close> and \<open>copyout\<close> move bytes between a kernel buffer and the physical bytes behind a
  range of user addresses.
\<close>

section \<open>Byte-wise copies\<close>

definition bytes_copied :: "nat \<Rightarrow> (nat \<Rightarrow> addr) \<Rightarrow> (nat \<Rightarrow> addr) \<Rightarrow> cmem \<Rightarrow> cmem \<Rightarrow> bool" where
  "bytes_copied n D S m m' \<longleftrightarrow> (\<forall>i < n. m' (D i) = m (S i)) \<and> (\<forall>x. (\<forall>i < n. x \<noteq> D i) \<longrightarrow> m' x = m x)"

lemma bytes_copied_append:
  assumes a: "bytes_copied k D S m m1" and b: "bytes_copied l (\<lambda>i. D (k + i)) (\<lambda>i. S (k + i)) m1 m'"
    and apart: "\<And>i j. i < k + l \<Longrightarrow> j < k + l \<Longrightarrow> D i \<noteq> S j"
    and inj: "\<And>i j. i < k + l \<Longrightarrow> j < k + l \<Longrightarrow> D i = D j \<Longrightarrow> i = j"
  shows "bytes_copied (k + l) D S m m'"
  unfolding bytes_copied_def
proof (intro conjI allI impI)
  fix i assume i: "i < k + l"
  show "m' (D i) = m (S i)"
  proof (cases "i < k")
    case True
    have "D i \<noteq> D (k + j)" if "j < l" for j using inj [of i "k + j"] that True by auto
    then have "m' (D i) = m1 (D i)" using b unfolding bytes_copied_def by blast
    then show ?thesis using a True by (simp add: bytes_copied_def)
  next
    case False
    then obtain j where j: "i = k + j" "j < l" using i by (metis add_diff_inverse_nat nat_add_left_cancel_less)
    then have "m' (D i) = m1 (S i)" using b by (simp add: bytes_copied_def)
    moreover have "S i \<noteq> D j'" if "j' < k" for j' using apart [of j' i] that i by auto
    ultimately show ?thesis using a unfolding bytes_copied_def by metis
  qed
next
  fix x assume x: "\<forall>i < k + l. x \<noteq> D i"
  then have "m' x = m1 x" using b unfolding bytes_copied_def by (metis nat_add_left_cancel_less)
  moreover have "m1 x = m x" using a x unfolding bytes_copied_def by (metis trans_less_add1)
  ultimately show "m' x = m x" by simp
qed

lemma bytes_copied_cong:
  assumes "\<And>i. i < n \<Longrightarrow> D i = D' i" and "\<And>i. i < n \<Longrightarrow> S i = S' i"
  shows "bytes_copied n D S m m' \<longleftrightarrow> bytes_copied n D' S' m m'"
  using assms by (simp add: bytes_copied_def)

lemma moved_bytes_copied: "moved d s n m m' \<longleftrightarrow> bytes_copied n (\<lambda>i. d + of_nat i) (\<lambda>i. s + of_nat i) m m'"
  by (simp add: moved_def bytes_copied_def)

section \<open>Memories with the same page table\<close>

lemma ent_cong:
  assumes "page_aligned t" and "i < 512" and "\<And>x. in_pg t x \<Longrightarrow> m' x = m x"
  shows "ent m' t i = ent m t i"
  unfolding ent_def
proof (rule ld64_cong)
  fix k :: nat assume k: "k < 8"
  have i: "unat i < 512" using assms(2) by (simp add: word_less_nat_alt)
  have "unat (t + 8 * i + of_nat k) = unat t + 8 * unat i + k" by (rule unat_entry [OF assms(1,2) k])
  then have "in_pg t (t + 8 * i + of_nat k)" using i k unfolding in_pg_def unat_diff_cases by simp
  then show "m' (t + 8 * i + of_nat k) = m (t + 8 * i + of_nat k)" by (rule assms(3))
qed

lemma tables_same:
  assumes wf: "wf_pt m root" and same: "\<And>t x. t \<in> tabs m root \<Longrightarrow> in_pg t x \<Longrightarrow> m' x = m x"
  shows "wf_pt m' root" and "tabs m' root = tabs m root" and "pte_of m' root va = pte_of m root va"
proof -
  have e: "ent m' t i = ent m t i" if "t \<in> tabs m root" "i < 512" for t i
    by (rule ent_cong [OF wf_ptD(1) [OF wf that(1)] that(2) same [OF that(1)]])
  have r: "nxt m' root i = nxt m root i" if "i < 512" for i using e [OF tabs_intros(1) that] by (simp add: nxt_def)
  have s: "nxt m' t i = nxt m t i" if "t \<in> tabs1 m root" "i < 512" for t i
    using e [OF tabs_intros(2) [OF that(1)] that(2)] by (simp add: nxt_def)
  show "wf_pt m' root" by (rule tree_cong(4) [OF _ _ wf]) (use r s in simp_all)
  show "tabs m' root = tabs m root" by (rule tree_cong(3)) (use r s in simp_all)
  have lf: "leaf m' root va = leaf m root va" by (rule tree_cong(5)) (use r s in simp_all)
  show "pte_of m' root va = pte_of m root va"
  proof (cases "leaf m root va")
    case (Some t0)
    then have "t0 \<in> tabs m root" using leaf_tab tabs_intros(3) by metis
    then show ?thesis using Some lf e [OF _ PX_bound] by (simp add: pte_of_def)
  qed (simp add: pte_of_def lf)
qed

section \<open>User addresses\<close>

text \<open>The physical address behind a user address, and when it is accessible to the user.\<close>

definition user_pa :: "cmem \<Rightarrow> addr \<Rightarrow> u64 \<Rightarrow> addr" where
  "user_pa m root va = PTE2PA (pte_of m root va) + (va - PGROUNDDOWN va)"

definition user_ok :: "cmem \<Rightarrow> addr \<Rightarrow> u64 \<Rightarrow> bool" where
  "user_ok m root va \<longleftrightarrow> va < MAXVA \<and> pte_of m root va AND PTE_V \<noteq> 0 \<and> pte_of m root va AND PTE_U \<noteq> 0 \<and>
     PTE2PA (pte_of m root va) \<noteq> 0 \<and> unat (PTE2PA (pte_of m root va)) + 4096 < 2 ^ 64"

lemma same_page_pte: "same_page va va' \<Longrightarrow> pte_of m root va = pte_of m root va'"
proof -
  assume "same_page va va'"
  then have d: "drop_bit 12 va = drop_bit 12 va'" by (simp add: same_page_drop)
  have "PX l va = PX l va'" for l
  proof (rule bit_word_eqI)
    fix n
    have "bit (drop_bit 12 va) (9 * l + n) = bit (drop_bit 12 va') (9 * l + n)" using d by simp
    then show "bit (PX l va) n = bit (PX l va') n" by (simp add: bit_PX bit_drop_bit_eq add.assoc)
  qed
  then show ?thesis by (simp only: pte_of_def leaf_def)
qed

lemma same_page_PGROUNDDOWN: "same_page (PGROUNDDOWN va) va"
  by (simp add: same_page_def unat_PGROUNDDOWN minus_mod_eq_div_mult)

lemma walkaddr_user:
  assumes inv: "vm_inv c s root Own" and ok: "user_ok (vm_mem s) root va"
  shows "walkaddr root (PGROUNDDOWN va) s = Inr (PTE2PA (pte_of (vm_mem s) root va), s)"
proof -
  have "unat (PGROUNDDOWN va) \<le> unat va" by (simp add: unat_PGROUNDDOWN)
  then have "PGROUNDDOWN va < MAXVA" using ok by (simp add: user_ok_def word_less_nat_alt)
  then show ?thesis
    using walkaddr_lookup [OF inv, of "PGROUNDDOWN va"] same_page_pte [OF same_page_PGROUNDDOWN, of "vm_mem s" root va] ok
    by (simp add: user_ok_def)
qed

text \<open>Within the chunk that one iteration copies, physical addresses follow each other.\<close>

lemma chunk_contiguous:
  assumes "unat va + i < 2 ^ 64" and "i < 4096 - unat va mod 4096"
  shows "same_page (va + of_nat i) va" and "user_pa m root (va + of_nat i) = user_pa m root va + of_nat i"
proof -
  have u: "unat (va + of_nat i) = unat va + i" by (rule unat_add_of_nat [OF assms(1)])
  have m: "unat va mod 4096 + i < 4096" using assms(2) by linarith
  have "unat va + i = 4096 * (unat va div 4096) + (unat va mod 4096 + i)"
    using mult_div_mod_eq [of 4096 "unat va"] by linarith
  then have d: "(unat va + i) div 4096 = unat va div 4096" using m by (metis add.right_neutral div_less div_mult_self2 mult.commute zero_neq_numeral add.commute)
  then show sp: "same_page (va + of_nat i) va" by (simp add: same_page_def u)
  have "PGROUNDDOWN (va + of_nat i) = PGROUNDDOWN va"
    by (simp add: word_unat_eq_iff unat_PGROUNDDOWN u minus_mod_eq_div_mult d)
  then show "user_pa m root (va + of_nat i) = user_pa m root va + of_nat i"
    using same_page_pte [OF sp, of m root] by (simp add: user_pa_def algebra_simps)
qed

lemma user_pa_room:
  assumes "user_ok m root va"
  shows "unat (user_pa m root va) + (4096 - unat va mod 4096) < 2 ^ 64"
proof -
  have o: "unat (va - PGROUNDDOWN va) = unat va mod 4096" by (rule page_offset)
  have m: "unat va mod 4096 < 4096" by simp
  have t: "unat (PTE2PA (pte_of m root va)) + 4096 < 2 ^ 64" using assms unfolding user_ok_def by blast
  have "unat (user_pa m root va) = unat (PTE2PA (pte_of m root va)) + unat va mod 4096"
    unfolding user_pa_def o [symmetric] by (intro unat_add_no_wrap) (use o m t in linarith)
  then show ?thesis using m t by linarith
qed

lemma next_chunk:
  assumes "unat va + unat len < 2 ^ 63" and "chunk va len < len"
  shows "PGROUNDDOWN va + PGSIZE = va + chunk va len" and "unat (chunk va len) = 4096 - unat va mod 4096"
proof -
  show c: "unat (chunk va len) = 4096 - unat va mod 4096"
    using assms(2) unat_chunk [of va len] by (simp add: word_less_nat_alt min_def split: if_splits)
  have m: "unat va mod 4096 < 4096" by simp
  have "unat (PGROUNDDOWN va + PGSIZE) = unat va - unat va mod 4096 + 4096"
    using assms(1) by (subst unat_add_no_wrap) (simp_all add: unat_PGROUNDDOWN)
  moreover have "unat (va + chunk va len) = unat va + (4096 - unat va mod 4096)"
    using assms c by (subst unat_add_no_wrap) (simp_all add: word_less_nat_alt)
  moreover have "unat va - unat va mod 4096 + 4096 = unat va + (4096 - unat va mod 4096)"
    using m mod_less_eq_dividend [of "unat va" 4096] by linarith
  ultimately show "PGROUNDDOWN va + PGSIZE = va + chunk va len" by (simp add: word_unat_eq_iff)
qed

section \<open>The loops\<close>

lemma vm_inv_tables:
  assumes inv: "vm_inv c s root Own" and same: "\<And>t x. t \<in> tabs (vm_mem s) root \<Longrightarrow> in_pg t x \<Longrightarrow> m' x = vm_mem s x"
  shows "vm_inv c (s \<lparr> vm_mem := m' \<rparr>) root Own" and "tabs m' root = tabs (vm_mem s) root"
    and "user_ok m' root va = user_ok (vm_mem s) root va" and "user_pa m' root va = user_pa (vm_mem s) root va"
proof -
  note t = tables_same [OF vm_invD(2) [OF inv] same]
  show "vm_inv c (s \<lparr> vm_mem := m' \<rparr>) root Own" using inv t(1,2) by (simp add: vm_inv_def)
  show "tabs m' root = tabs (vm_mem s) root" using t(2) by simp
  show "user_ok m' root va = user_ok (vm_mem s) root va" and "user_pa m' root va = user_pa (vm_mem s) root va"
    using tables_same(3) [OF vm_invD(2) [OF inv] same] by (simp_all add: user_ok_def user_pa_def)
qed

lemma unat_chunk_u32: "unat (ucast (chunk va len) :: u32) = unat (chunk va len)"
proof -
  have "unat (chunk va len) < 2 ^ 32" by (simp add: unat_chunk)
  then show ?thesis by (simp add: unsigned_ucast_eq take_bit_nat_eq_self)
qed

text \<open>One iteration: the chunk at the start of the range is moved with one \<open>memmove\<close>.\<close>

lemma chunk_moved:
  assumes ok: "user_ok m root va" and "unat va + unat len < 2 ^ 63" and "unat b + unat len < 2 ^ 64"
  defines "k \<equiv> unat (chunk va len)" and "pa \<equiv> \<lambda>i. user_pa m root (va + of_nat i)"
  shows "bytes_copied k (\<lambda>i. b + of_nat i) pa m0 (memmove b (user_pa m root va) (ucast (chunk va len)) m0)"
    and "bytes_copied k pa (\<lambda>i. b + of_nat i) m0 (memmove (user_pa m root va) b (ucast (chunk va len)) m0)"
proof -
  have k: "k \<le> unat len" "k \<le> 4096 - unat va mod 4096" unfolding k_def by (simp_all add: unat_chunk)
  have r: "unat (user_pa m root va) + k < 2 ^ 64" "unat b + k < 2 ^ 64"
    using user_pa_room [OF ok] k assms(3) by linarith+
  have v: "unat va + unat len < 2 ^ 64" using assms(2) by simp
  have pa: "pa i = user_pa m root va + of_nat i" if "i < k" for i
    unfolding pa_def by (rule chunk_contiguous(2)) (use that k v in linarith)+
  have u: "unat (ucast (chunk va len) :: u32) = k" unfolding k_def by (rule unat_chunk_u32)
  have "bytes_copied k (\<lambda>i. b + of_nat i) (\<lambda>i. user_pa m root va + of_nat i) m0 (memmove b (user_pa m root va) (ucast (chunk va len)) m0)"
    using memmove_moved [of b "ucast (chunk va len)" "user_pa m root va" m0] r unfolding u moved_bytes_copied by blast
  then show "bytes_copied k (\<lambda>i. b + of_nat i) pa m0 (memmove b (user_pa m root va) (ucast (chunk va len)) m0)"
    by (subst bytes_copied_cong [OF refl pa])
  have "bytes_copied k (\<lambda>i. user_pa m root va + of_nat i) (\<lambda>i. b + of_nat i) m0 (memmove (user_pa m root va) b (ucast (chunk va len)) m0)"
    using memmove_moved [of "user_pa m root va" "ucast (chunk va len)" b m0] r unfolding u moved_bytes_copied by blast
  then show "bytes_copied k pa (\<lambda>i. b + of_nat i) m0 (memmove (user_pa m root va) b (ucast (chunk va len)) m0)"
    by (subst bytes_copied_cong [OF pa refl])
qed

lemma chunk_rest:
  assumes "0 < len"
  shows "of_nat (unat (chunk va len)) = chunk va len" and "unat (len - chunk va len) = unat len - unat (chunk va len)"
    and "unat (chunk va len) \<le> unat len" and "0 < unat (chunk va len)"
proof -
  show "of_nat (unat (chunk va len)) = chunk va len" by simp
  show le: "unat (chunk va len) \<le> unat len" by (simp add: unat_chunk)
  then show "unat (len - chunk va len) = unat len - unat (chunk va len)" by (simp add: unat_sub word_le_nat_alt)
  then show "0 < unat (chunk va len)" using chunk_decreases [OF assms, of va] le by linarith
qed

lemma plus_inj: "i < 2 ^ 64 \<Longrightarrow> j < 2 ^ 64 \<Longrightarrow> (b :: addr) + of_nat i = b + of_nat j \<Longrightarrow> i = j"
  using unat_of_nat_small [of i] unat_of_nat_small [of j] by (metis add_left_cancel)

theorem copyin_copies:
  assumes "vm_inv c s root Own" and "unat srcva + unat len < 2 ^ 63" and "unat dst + unat len < 2 ^ 64"
    and "\<And>i. i < unat len \<Longrightarrow> user_ok (vm_mem s) root (srcva + of_nat i)"
    and "\<And>i j. i < unat len \<Longrightarrow> j < unat len \<Longrightarrow> dst + of_nat i \<noteq> user_pa (vm_mem s) root (srcva + of_nat j)"
    and "\<And>i t. i < unat len \<Longrightarrow> t \<in> tabs (vm_mem s) root \<Longrightarrow> \<not> in_pg t (dst + of_nat i)"
  shows "\<exists>m'. copyin root dst srcva len s = Inr (0, s \<lparr> vm_mem := m' \<rparr>) \<and>
    bytes_copied (unat len) (\<lambda>i. dst + of_nat i) (\<lambda>i. user_pa (vm_mem s) root (srcva + of_nat i)) (vm_mem s) m'"
  using assms
proof (induction "unat len" arbitrary: s dst srcva len rule: less_induct)
  case less
  note inv = less.prems(1)
  show ?case
  proof (cases "len > 0")
    case False
    then have "unat len = 0" by (simp add: word_greater_zero_iff)
    then show ?thesis using False by (intro exI [of _ "vm_mem s"]) (simp add: copyin.simps bytes_copied_def)
  next
    case True
    let ?n = "chunk srcva len" and ?pa = "\<lambda>i. user_pa (vm_mem s) root (srcva + of_nat i)"
    note cr = chunk_rest [OF True, of srcva]
    have ok: "user_ok (vm_mem s) root srcva" using less.prems(4) [of 0] cr by simp
    let ?m = "memmove dst (user_pa (vm_mem s) root srcva) (ucast ?n) (vm_mem s)"
    have c1: "bytes_copied (unat ?n) (\<lambda>i. dst + of_nat i) ?pa (vm_mem s) ?m"
      by (rule chunk_moved(1) [OF ok less.prems(2,3)])
    have same: "?m x = vm_mem s x" if "t \<in> tabs (vm_mem s) root" "in_pg t x" for t x
      using c1 less.prems(6) that cr(3) unfolding bytes_copied_def by (metis le_trans not_le)
    have T: "vm_inv c (s \<lparr> vm_mem := ?m \<rparr>) root Own" "tabs ?m root = tabs (vm_mem s) root"
      "\<And>va. user_ok ?m root va = user_ok (vm_mem s) root va" "\<And>va. user_pa ?m root va = user_pa (vm_mem s) root va"
      by (rule vm_inv_tables [OF inv], erule (1) same)+
    have nz: "PTE2PA (pte_of (vm_mem s) root srcva) \<noteq> 0" using ok by (simp add: user_ok_def)
    have step: "copyin root dst srcva len s =
        copyin root (dst + ?n) (PGROUNDDOWN srcva + PGSIZE) (len - ?n) (s \<lparr> vm_mem := ?m \<rparr>)"
      using True nz walkaddr_user [OF inv ok] by (simp add: copyin.simps [of root dst] user_pa_def Let_def)
    show ?thesis
    proof (cases "?n < len")
      case False
      then have e: "?n = len" using cr(3) by (simp add: word_le_nat_alt not_less word_unat_eq_iff)
      then show ?thesis using step c1 by (intro exI [of _ ?m]) (simp add: copyin.simps [of root _ _ 0])
    next
      case more: True
      note nx = next_chunk [OF less.prems(2) more]
      let ?l = "unat (len - ?n)"
      have l: "?l = unat len - unat ?n" "?l < unat len" using cr by linarith+
      have sh: "srcva + ?n + of_nat i = srcva + of_nat (unat ?n + i)" "dst + ?n + of_nat i = dst + of_nat (unat ?n + i)" for i
        using cr(1) by (simp_all add: add.assoc)
      have idx: "unat ?n + i < unat len" if "i < ?l" for i using that l cr(3) by linarith
      have a: "unat (srcva + ?n) = unat srcva + unat ?n" "unat (dst + ?n) = unat dst + unat ?n"
        using less.prems(2,3) cr(3) by (auto intro!: unat_add_no_wrap)
      have "\<exists>m'. copyin root (dst + ?n) (srcva + ?n) (len - ?n) (s \<lparr> vm_mem := ?m \<rparr>) = Inr (0, s \<lparr> vm_mem := ?m \<rparr> \<lparr> vm_mem := m' \<rparr>) \<and>
        bytes_copied ?l (\<lambda>i. dst + ?n + of_nat i) (\<lambda>i. user_pa (vm_mem (s \<lparr> vm_mem := ?m \<rparr>)) root (srcva + ?n + of_nat i)) (vm_mem (s \<lparr> vm_mem := ?m \<rparr>)) m'"
      proof (rule less.hyps [OF l(2) T(1)])
        show "unat (srcva + ?n) + ?l < 2 ^ 63" "unat (dst + ?n) + ?l < 2 ^ 64" using less.prems(2,3) a l cr(3) by linarith+
        fix i assume i: "i < ?l"
        show "user_ok (vm_mem (s \<lparr> vm_mem := ?m \<rparr>)) root (srcva + ?n + of_nat i)"
          using less.prems(4) [OF idx [OF i]] T(3) unfolding sh by simp
        show "\<not> in_pg t (dst + ?n + of_nat i)" if "t \<in> tabs (vm_mem (s \<lparr> vm_mem := ?m \<rparr>)) root" for t
          using less.prems(6) [OF idx [OF i]] that T(2) unfolding sh by simp
        show "dst + ?n + of_nat i \<noteq> user_pa (vm_mem (s \<lparr> vm_mem := ?m \<rparr>)) root (srcva + ?n + of_nat j)" if "j < ?l" for j
          using less.prems(5) [OF idx [OF i] idx [OF that]] T(4) unfolding sh by simp
      qed
      then obtain m' where m': "copyin root (dst + ?n) (srcva + ?n) (len - ?n) (s \<lparr> vm_mem := ?m \<rparr>) = Inr (0, s \<lparr> vm_mem := m' \<rparr>)"
        "bytes_copied ?l (\<lambda>i. dst + of_nat (unat ?n + i)) (\<lambda>i. ?pa (unat ?n + i)) ?m m'"
        unfolding sh using T(4) by auto
      have "bytes_copied (unat ?n + ?l) (\<lambda>i. dst + of_nat i) ?pa (vm_mem s) m'"
      proof (rule bytes_copied_append [OF c1 m'(2)])
        fix i j assume ij: "i < unat ?n + ?l" "j < unat ?n + ?l"
        then show "dst + of_nat i \<noteq> ?pa j" using less.prems(5) [of i j] l(1) cr(3) by simp
        assume "dst + of_nat i = dst + of_nat j"
        then show "i = j" using plus_inj [of i j dst] ij l(1) cr(3) less.prems(3) by linarith
      qed
      then show ?thesis using step m'(1) nx(1) l(1) cr(3) by auto
    qed
  qed
qed

theorem copyout_copies:
  assumes "vm_inv c s root Own" and "unat dstva + unat len < 2 ^ 63" and "unat src + unat len < 2 ^ 64"
    and "\<And>i. i < unat len \<Longrightarrow> user_ok (vm_mem s) root (dstva + of_nat i)"
    and "\<And>i j. i < unat len \<Longrightarrow> j < unat len \<Longrightarrow> user_pa (vm_mem s) root (dstva + of_nat i) \<noteq> src + of_nat j"
    and "\<And>i t. i < unat len \<Longrightarrow> t \<in> tabs (vm_mem s) root \<Longrightarrow> \<not> in_pg t (user_pa (vm_mem s) root (dstva + of_nat i))"
    and "\<And>i j. i < unat len \<Longrightarrow> j < unat len \<Longrightarrow>
      user_pa (vm_mem s) root (dstva + of_nat i) = user_pa (vm_mem s) root (dstva + of_nat j) \<Longrightarrow> i = j"
  shows "\<exists>m'. copyout root dstva src len s = Inr (0, s \<lparr> vm_mem := m' \<rparr>) \<and>
    bytes_copied (unat len) (\<lambda>i. user_pa (vm_mem s) root (dstva + of_nat i)) (\<lambda>i. src + of_nat i) (vm_mem s) m'"
  using assms
proof (induction "unat len" arbitrary: s src dstva len rule: less_induct)
  case less
  note inv = less.prems(1)
  show ?case
  proof (cases "len > 0")
    case False
    then have "unat len = 0" by (simp add: word_greater_zero_iff)
    then show ?thesis using False by (intro exI [of _ "vm_mem s"]) (simp add: copyout.simps bytes_copied_def)
  next
    case True
    let ?n = "chunk dstva len" and ?pa = "\<lambda>i. user_pa (vm_mem s) root (dstva + of_nat i)"
    note cr = chunk_rest [OF True, of dstva]
    have ok: "user_ok (vm_mem s) root dstva" using less.prems(4) [of 0] cr by simp
    let ?m = "memmove (user_pa (vm_mem s) root dstva) src (ucast ?n) (vm_mem s)"
    have c1: "bytes_copied (unat ?n) ?pa (\<lambda>i. src + of_nat i) (vm_mem s) ?m"
      by (rule chunk_moved(2) [OF ok less.prems(2,3)])
    have same: "?m x = vm_mem s x" if "t \<in> tabs (vm_mem s) root" "in_pg t x" for t x
      using c1 less.prems(6) that cr(3) unfolding bytes_copied_def by (metis le_trans not_le)
    have T: "vm_inv c (s \<lparr> vm_mem := ?m \<rparr>) root Own" "tabs ?m root = tabs (vm_mem s) root"
      "\<And>va. user_ok ?m root va = user_ok (vm_mem s) root va" "\<And>va. user_pa ?m root va = user_pa (vm_mem s) root va"
      by (rule vm_inv_tables [OF inv], erule (1) same)+
    have nz: "PTE2PA (pte_of (vm_mem s) root dstva) \<noteq> 0" using ok by (simp add: user_ok_def)
    have step: "copyout root dstva src len s =
        copyout root (PGROUNDDOWN dstva + PGSIZE) (src + ?n) (len - ?n) (s \<lparr> vm_mem := ?m \<rparr>)"
      using True nz walkaddr_user [OF inv ok] by (simp add: copyout.simps [of root dstva] user_pa_def Let_def)
    show ?thesis
    proof (cases "?n < len")
      case False
      then have e: "?n = len" using cr(3) by (simp add: word_le_nat_alt not_less word_unat_eq_iff)
      then show ?thesis using step c1 by (intro exI [of _ ?m]) (simp add: copyout.simps [of root _ _ 0])
    next
      case more: True
      note nx = next_chunk [OF less.prems(2) more]
      let ?l = "unat (len - ?n)"
      have l: "?l = unat len - unat ?n" "?l < unat len" using cr by linarith+
      have sh: "dstva + ?n + of_nat i = dstva + of_nat (unat ?n + i)" "src + ?n + of_nat i = src + of_nat (unat ?n + i)" for i
        using cr(1) by (simp_all add: add.assoc)
      have idx: "unat ?n + i < unat len" if "i < ?l" for i using that l cr(3) by linarith
      have a: "unat (dstva + ?n) = unat dstva + unat ?n" "unat (src + ?n) = unat src + unat ?n"
        using less.prems(2,3) cr(3) by (auto intro!: unat_add_no_wrap)
      have "\<exists>m'. copyout root (dstva + ?n) (src + ?n) (len - ?n) (s \<lparr> vm_mem := ?m \<rparr>) = Inr (0, s \<lparr> vm_mem := ?m \<rparr> \<lparr> vm_mem := m' \<rparr>) \<and>
        bytes_copied ?l (\<lambda>i. user_pa (vm_mem (s \<lparr> vm_mem := ?m \<rparr>)) root (dstva + ?n + of_nat i)) (\<lambda>i. src + ?n + of_nat i) (vm_mem (s \<lparr> vm_mem := ?m \<rparr>)) m'"
      proof (rule less.hyps [OF l(2) T(1)])
        show "unat (dstva + ?n) + ?l < 2 ^ 63" "unat (src + ?n) + ?l < 2 ^ 64" using less.prems(2,3) a l cr(3) by linarith+
        fix i assume i: "i < ?l"
        show "user_ok (vm_mem (s \<lparr> vm_mem := ?m \<rparr>)) root (dstva + ?n + of_nat i)"
          using less.prems(4) [OF idx [OF i]] T(3) unfolding sh by simp
        show "\<not> in_pg t (user_pa (vm_mem (s \<lparr> vm_mem := ?m \<rparr>)) root (dstva + ?n + of_nat i))" if "t \<in> tabs (vm_mem (s \<lparr> vm_mem := ?m \<rparr>)) root" for t
          using less.prems(6) [OF idx [OF i]] that T(2,4) unfolding sh by simp
        show "user_pa (vm_mem (s \<lparr> vm_mem := ?m \<rparr>)) root (dstva + ?n + of_nat i) \<noteq> src + ?n + of_nat j" if "j < ?l" for j
          using less.prems(5) [OF idx [OF i] idx [OF that]] T(4) unfolding sh by simp
        show "i = j" if "j < ?l" "user_pa (vm_mem (s \<lparr> vm_mem := ?m \<rparr>)) root (dstva + ?n + of_nat i) =
            user_pa (vm_mem (s \<lparr> vm_mem := ?m \<rparr>)) root (dstva + ?n + of_nat j)" for j
          using less.prems(7) [OF idx [OF i] idx [OF that(1)]] that(2) T(4) unfolding sh by simp
      qed
      then obtain m' where m': "copyout root (dstva + ?n) (src + ?n) (len - ?n) (s \<lparr> vm_mem := ?m \<rparr>) = Inr (0, s \<lparr> vm_mem := m' \<rparr>)"
        "bytes_copied ?l (\<lambda>i. ?pa (unat ?n + i)) (\<lambda>i. src + of_nat (unat ?n + i)) ?m m'"
        unfolding sh using T(4) by auto
      have "bytes_copied (unat ?n + ?l) ?pa (\<lambda>i. src + of_nat i) (vm_mem s) m'"
      proof (rule bytes_copied_append [OF c1 m'(2)])
        fix i j assume ij: "i < unat ?n + ?l" "j < unat ?n + ?l"
        then show "?pa i \<noteq> src + of_nat j" using less.prems(5) [of i j] l(1) cr(3) by simp
        assume "?pa i = ?pa j"
        then show "i = j" using less.prems(7) [of i j] ij l(1) cr(3) by simp
      qed
      then show ?thesis using step m'(1) nx(1) l(1) cr(3) by auto
    qed
  qed
qed

end
