(* ===== verification/Vm_Props.thy ===== *)
theory Vm_Props
  imports Vm_Copy Slab_Runs Buddy_Bugs
begin

text \<open>Properties of the page tables, with a small machine for the examples.\<close>

section \<open>An example\<close>

text \<open>An allocator of six pages at address 4096; the first holds its tables, four are handed out.\<close>

lemma ex_pages_run:
  "map_sum id (\<lambda>(a, m, own). (b_pgsize a, b_data a, own)) (run_from_init False 1 4096 6 [Alloc 1, Alloc 1, Alloc 1, Alloc 1]) =
     Inr (4096, 8192, [(12288, 1), (16384, 1), (20480, 1), (24576, 1)])"
  by code_simp

lemma ex_pages_init: "map_sum id fst (lib_buddy_init no_alloc 1 4096 6 4096 zero_heap) = Inr 0"
  by code_simp

lemma ex_pages:
  obtains k where "kinv boot_hart k {(12288, 1), (16384, 1), (20480, 1), (24576, 1)}"
proof -
  obtain a m where r: "run_from_init False 1 4096 6 [Alloc 1, Alloc 1, Alloc 1, Alloc 1] =
      Inr (a, m, [(12288, 1), (16384, 1), (20480, 1), (24576, 1)])" "b_pgsize a = 4096" "b_data a = 8192"
    using ex_pages_run
    by (cases "run_from_init False 1 4096 6 [Alloc 1, Alloc 1, Alloc 1, Alloc 1]") auto
  have "buddy_reach False a m {(12288, 1), (16384, 1), (20480, 1), (24576, 1)}"
    using run_from_init_reach [OF r(1) _ ex_pages_init] by (simp add: init_args_def)
  then have "reach_inv a m {(12288, 1), (16384, 1), (20480, 1), (24576, 1)}" by (rule buddy_reach_inv)
  then have "kinv boot_hart \<lparr>k_hart = boot_hart, k_lock = initlock [], k_buddy = a, k_heap = m\<rparr>
      {(12288, 1), (16384, 1), (20480, 1), (24576, 1)}"
    using r(2,3) by (simp add: kinv_def lock_free_def initlock_def hart_ok_def boot_hart_def PGSIZE_def)
  then show thesis by (rule that)
qed

text \<open>An empty page table is one zeroed page.\<close>

lemma empty_table:
  assumes "page_aligned root" and "root \<noteq> 0"
  shows "wf_pt (\<lambda>_. 0) root" and "tabs (\<lambda>_. 0) root = {root}" and "nxt (\<lambda>_. 0) p i = None"
proof -
  show n: "nxt (\<lambda>_. 0) p i = None" for p i by (simp add: nxt_def ent_def ld64_zero)
  have t: "tabs1 (\<lambda>_. 0) root = {}" "tabs0 (\<lambda>_. 0) root = {}" by (simp_all add: tabs1_def tabs0_def n)
  then show "tabs (\<lambda>_. 0) root = {root}" by (simp add: tabs_def)
  then show "wf_pt (\<lambda>_. 0) root" using assms t n by (simp add: wf_pt_def)
qed

lemma ex_empty:
  obtains s where "vm_inv boot_hart s 12288 {(12288, 1), (16384, 1), (20480, 1), (24576, 1)}" and "vm_mem s = (\<lambda>_. 0)"
proof -
  obtain k where "kinv boot_hart k {(12288, 1), (16384, 1), (20480, 1), (24576, 1)}" using ex_pages .
  then have "vm_inv boot_hart \<lparr>vm_mem = (\<lambda>_. 0), vm_k = k\<rparr> 12288 {(12288, 1), (16384, 1), (20480, 1), (24576, 1)}"
    using empty_table [of 12288] by (simp add: vm_inv_def page_aligned_def)
  then show thesis by (rule that) simp
qed

text \<open>The same with the page at 24576 mapped for the user at virtual address 0.\<close>

lemma ex_user_page:
  obtains s where "vm_inv boot_hart s 12288 {(12288, 1), (16384, 1), (20480, 1), (24576, 1)}"
    and "\<And>va. va < 4096 \<Longrightarrow> user_ok (vm_mem s) 12288 va \<and> user_pa (vm_mem s) 12288 va = 24576 + va"
    and "tabs (vm_mem s) 12288 = {12288, 16384, 20480}"
proof -
  let ?m = "\<lambda>_ :: addr. 0 :: u8"
  obtain s0 where s0: "vm_inv boot_hart s0 12288 {(12288, 1), (16384, 1), (20480, 1), (24576, 1)}" "vm_mem s0 = ?m"
    using ex_empty .
  have al: "page_aligned 12288" "page_aligned 16384" "page_aligned 20480" by (simp_all add: page_aligned_def)
  have nz: "(12288 :: addr) \<noteq> 0" "(16384 :: addr) \<noteq> 0" "(20480 :: addr) \<noteq> 0" by simp_all
  note e = empty_table [OF al(1) nz(1)]
  have f1: "16384 \<notin> tabs ?m 12288" using e(2) by simp
  let ?m1 = "hang 12288 (PX 2 0) 16384 ?m"
  note h1 = hang_root [of ?m 12288 16384 "PX 2 0", OF e(1) al(2) nz(2) f1 PX_bound e(3)]
  let ?m2 = "hang 16384 (PX 1 0) 20480 ?m1"
  have wf1: "wf_pt ?m1 12288" and t1: "tabs ?m1 12288 = {12288, 16384}" and n1: "nxt ?m1 12288 (PX 2 0) = Some 16384"
    and in1: "16384 \<in> tabs1 ?m1 12288" and none: "nxt ?m1 16384 (PX 1 0) = None"
    using h1(1,2,4,5) h1(6) [OF PX_bound] e(2) by (simp_all add: insert_commute)
  have f2: "20480 \<notin> tabs ?m1 12288" using t1 by simp
  note h2 = hang_mid [of ?m1 12288 20480 16384 "PX 1 0", OF wf1 al(3) nz(3) f2 in1 PX_bound none]
  have wf2: "wf_pt ?m2 12288" and t2: "tabs ?m2 12288 = {12288, 16384, 20480}" and n2: "nxt ?m2 16384 (PX 1 0) = Some 20480"
    and r2: "nxt ?m2 12288 (PX 2 0) = Some 16384"
    using h2(1,2,4) h2(5) [OF PX_bound, of 2 0] t1 n1 by (auto simp: insert_commute)
  have lf: "leaf ?m2 12288 0 = Some 20480" using n2 r2 by (simp add: leaf_def)
  let ?s2 = "s0 \<lparr> vm_mem := ?m2 \<rparr>"
  have inv2: "vm_inv boot_hart ?s2 12288 {(12288, 1), (16384, 1), (20480, 1), (24576, 1)}"
    using s0(1) wf2 t2 by (auto simp: vm_inv_def)
  let ?e = "PA2PTE 24576 OR (PTE_V OR PTE_U)"
  let ?s = "?s2 \<lparr> vm_mem := st64 (20480 + 8 * PX 0 0) ?e (vm_mem ?s2) \<rparr>"
  have lf': "leaf (vm_mem ?s2) 12288 0 = Some 20480" using lf by simp
  have max: "(0 :: u64) < MAXVA" by (simp add: MAXVA_def)
  note w = write_entry [OF inv2 lf' max, where w = ?e]
  show thesis
  proof (rule that [OF w(1)])
    show "tabs (vm_mem ?s) 12288 = {12288, 16384, 20480}" using w(3) t2 by simp
    fix va :: u64 assume va: "va < 4096"
    then have v: "unat va < 4096" by (simp add: word_less_nat_alt)
    then have "va < MAXVA" "same_page va 0" by (simp_all add: word_less_nat_alt MAXVA_def same_page_def)
    then have p: "pte_of (vm_mem ?s) 12288 va = ?e" using w(4) by simp
    have pa: "PTE2PA ?e = 24576" by (rule PTE2PA_PA2PTE) (simp_all add: PTE_V_def PTE_U_def)
    have "bit (?e AND PTE_V) 0" "bit (?e AND PTE_U) 4" by (simp_all add: PTE_V_def PTE_U_def bit_simps)
    then have nz: "?e AND PTE_V \<noteq> 0" "?e AND PTE_U \<noteq> 0" by (metis bit_0_eq bot_apply bot_bool_def)+
    have "PGROUNDDOWN va = 0" using v by (simp add: word_unat_eq_iff unat_PGROUNDDOWN)
    then show "user_ok (vm_mem ?s) 12288 va \<and> user_pa (vm_mem ?s) 12288 va = 24576 + va"
      unfolding user_ok_def user_pa_def p pa using nz \<open>va < MAXVA\<close> by simp
  qed
qed

section \<open>Properties\<close>



text \<open>C31: what the kernel copies out to a process it can copy in again.  For a user range that is mapped
  to distinct physical bytes outside the page table, \<open>copyout\<close> followed by \<open>copyin\<close> of the
  same range both return 0 and the second buffer holds the bytes of the first, also when
  the range crosses pages.\<close>

theorem copyout_copyin_roundtrip:
  assumes inv: "vm_inv c s root Own" and va: "unat va + unat len < 2 ^ 63"
    and bufs: "unat src + unat len < 2 ^ 64" "unat dst + unat len < 2 ^ 64"
    and ok: "\<And>i. i < unat len \<Longrightarrow> user_ok (vm_mem s) root (va + of_nat i)"
    and inj: "\<And>i j. i < unat len \<Longrightarrow> j < unat len \<Longrightarrow>
      user_pa (vm_mem s) root (va + of_nat i) = user_pa (vm_mem s) root (va + of_nat j) \<Longrightarrow> i = j"
    and apart: "\<And>i j. i < unat len \<Longrightarrow> j < unat len \<Longrightarrow> user_pa (vm_mem s) root (va + of_nat i) \<noteq> src + of_nat j"
      "\<And>i j. i < unat len \<Longrightarrow> j < unat len \<Longrightarrow> dst + of_nat i \<noteq> user_pa (vm_mem s) root (va + of_nat j)"
    and tables: "\<And>i t. i < unat len \<Longrightarrow> t \<in> tabs (vm_mem s) root \<Longrightarrow>
      \<not> in_pg t (user_pa (vm_mem s) root (va + of_nat i)) \<and> \<not> in_pg t (dst + of_nat i)"
  shows "\<exists>s1 s2. copyout root va src len s = Inr (0, s1) \<and> copyin root dst va len s1 = Inr (0, s2) \<and>
    (\<forall>i < unat len. vm_mem s2 (dst + of_nat i) = vm_mem s (src + of_nat i))"
proof -
  obtain m1 where o: "copyout root va src len s = Inr (0, s \<lparr> vm_mem := m1 \<rparr>)"
    and c1: "bytes_copied (unat len) (\<lambda>i. user_pa (vm_mem s) root (va + of_nat i)) (\<lambda>i. src + of_nat i) (vm_mem s) m1"
    using copyout_copies [OF inv va bufs(1) ok apart(1)] tables inj by blast
  let ?s = "s \<lparr> vm_mem := m1 \<rparr>"
  have same: "m1 x = vm_mem s x" if "t \<in> tabs (vm_mem s) root" "in_pg t x" for t x
    using c1 tables that unfolding bytes_copied_def by metis
  have T: "vm_inv c ?s root Own" "tabs m1 root = tabs (vm_mem s) root"
    "\<And>va. user_ok m1 root va = user_ok (vm_mem s) root va" "\<And>va. user_pa m1 root va = user_pa (vm_mem s) root va"
    by (rule vm_inv_tables [OF inv], erule (1) same)+
  have "\<exists>m'. copyin root dst va len ?s = Inr (0, ?s \<lparr> vm_mem := m' \<rparr>) \<and>
    bytes_copied (unat len) (\<lambda>i. dst + of_nat i) (\<lambda>i. user_pa (vm_mem ?s) root (va + of_nat i)) (vm_mem ?s) m'"
    by (rule copyin_copies [OF T(1) va bufs(2)]) (use ok apart(2) tables T(2-4) in simp_all)
  then obtain m2 where i: "copyin root dst va len ?s = Inr (0, ?s \<lparr> vm_mem := m2 \<rparr>)"
    and c2: "bytes_copied (unat len) (\<lambda>i. dst + of_nat i) (\<lambda>i. user_pa (vm_mem s) root (va + of_nat i)) m1 m2"
    using T(4) by auto
  have "m2 (dst + of_nat i) = vm_mem s (src + of_nat i)" if "i < unat len" for i
    using c1 c2 that by (simp add: bytes_copied_def)
  then show ?thesis using o i by auto
qed

theorem copyout_copyin_roundtrip_witness:
  "\<exists>s s1 s2. vm_inv boot_hart s 12288 {(12288, 1), (16384, 1), (20480, 1), (24576, 1)} \<and>
     copyout 12288 8 0x8000 4 s = Inr (0, s1) \<and> copyin 12288 0x9000 8 4 s1 = Inr (0, s2) \<and>
     (\<forall>i < 4. vm_mem s2 (0x9000 + of_nat i) = vm_mem s (0x8000 + of_nat i))"
proof -
  obtain s where s: "vm_inv boot_hart s 12288 {(12288, 1), (16384, 1), (20480, 1), (24576, 1)}"
    "\<And>va. va < 4096 \<Longrightarrow> user_ok (vm_mem s) 12288 va \<and> user_pa (vm_mem s) 12288 va = 24576 + va"
    "tabs (vm_mem s) 12288 = {12288, 16384, 20480}" by (rule ex_user_page) (rule that)
  have four: "i = 0 \<or> i = 1 \<or> i = 2 \<or> i = 3" if "i < unat (4 :: u64)" for i using that by auto
  have u: "user_ok (vm_mem s) 12288 (8 + of_nat i)" "user_pa (vm_mem s) 12288 (8 + of_nat i) = 24584 + of_nat i"
    if "i < unat (4 :: u64)" for i
    using four [OF that] s(2) [of 8] s(2) [of 9] s(2) [of 10] s(2) [of 11] by auto
  have n1: "i = j" if "i < unat (4 :: u64)" "j < unat (4 :: u64)" "(24584 :: addr) + of_nat i = 24584 + of_nat j" for i j
    using four [OF that(1)] four [OF that(2)] that(3) by auto
  have n2: "(24584 :: addr) + of_nat i \<noteq> 0x8000 + of_nat j" "(0x9000 :: addr) + of_nat i \<noteq> 24584 + of_nat j"
    if "i < unat (4 :: u64)" "j < unat (4 :: u64)" for i j
    using four [OF that(1)] four [OF that(2)] by auto
  have t: "\<not> in_pg t (24584 + of_nat i) \<and> \<not> in_pg t (0x9000 + of_nat i)"
    if "i < unat (4 :: u64)" "t \<in> tabs (vm_mem s) 12288" for i t
    using four [OF that(1)] that(2) unfolding s(3) in_pg_def by auto
  have "\<exists>s1 s2. copyout 12288 8 0x8000 4 s = Inr (0, s1) \<and> copyin 12288 0x9000 8 4 s1 = Inr (0, s2) \<and>
    (\<forall>i < unat (4 :: u64). vm_mem s2 (0x9000 + of_nat i) = vm_mem s (0x8000 + of_nat i))"
    by (rule copyout_copyin_roundtrip [OF s(1)]) (use u n1 n2 t in simp_all)
  then show ?thesis using s(1) by auto
qed

end
