(* ===== verification/Sleeplock.thy ===== *)
theory Sleeplock
  imports Proc
begin

text \<open>
  kernel/sleeplock.c.  The functions act on the state as the calling process sees it.  A process that
  finds the lock taken sleeps until another process releases it; run on its own it never returns, so
  \<open>acquiresleep\<close> of a taken lock is \<open>Diverges\<close>.  The channel of a lock is given by the caller.
\<close>

record sleeplock =
  sk_locked :: u32
  sk_lk :: spinlock
  sk_name :: string
  sk_pid :: int

definition initsleeplock :: "string \<Rightarrow> sleeplock" where
  "initsleeplock name = \<lparr> sk_locked = 0, sk_lk = initlock ''sleep lock'', sk_name = name, sk_pid = 0 \<rparr>"

text \<open>\<open>myproc()->pid\<close>.\<close>

definition mypid :: "ps \<Rightarrow> (int \<times> ps) res" where
  "mypid s =
    bindE (myproc s) (\<lambda>(me, s). case me of None \<Rightarrow> Inl NullDeref | Some p \<Rightarrow> Inr (p_pid (ps_proc s p), s))"

definition acquire_sk :: "sleeplock \<Rightarrow> ps \<Rightarrow> (sleeplock \<times> ps) res" where
  "acquire_sk lk s =
    bindE (acquire (sk_lk lk) (ps_hart s)) (\<lambda>(l, c). Inr (lk \<lparr> sk_lk := l \<rparr>, set_hart c s))"

definition release_sk :: "sleeplock \<Rightarrow> ps \<Rightarrow> (sleeplock \<times> ps) res" where
  "release_sk lk s =
    bindE (release (sk_lk lk) (ps_hart s)) (\<lambda>(l, c). Inr (lk \<lparr> sk_lk := l \<rparr>, set_hart c s))"

definition acquiresleep :: "sleeplock \<Rightarrow> ps \<Rightarrow> (sleeplock \<times> ps) res" where
  "acquiresleep lk s =
    bindE (acquire_sk lk s) (\<lambda>(lk, s).
    guardE (sk_locked lk = 0) Diverges
    (bindE (mypid s) (\<lambda>(pid, s).
     release_sk (lk \<lparr> sk_locked := 1, sk_pid := pid \<rparr>) s)))"

definition releasesleep :: "chan \<Rightarrow> sleeplock \<Rightarrow> ps \<Rightarrow> (sleeplock \<times> ps) res" where
  "releasesleep ch lk s =
    bindE (acquire_sk lk s) (\<lambda>(lk, s).
    bindE (wakeup ch s) (\<lambda>s.
    release_sk (lk \<lparr> sk_locked := 0, sk_pid := 0 \<rparr>) s))"

definition holdingsleep :: "sleeplock \<Rightarrow> ps \<Rightarrow> (bool \<times> sleeplock \<times> ps) res" where
  "holdingsleep lk s =
    bindE (acquire_sk lk s) (\<lambda>(lk, s).
    bindE (if sk_locked lk \<noteq> 0 then bindE (mypid s) (\<lambda>(pid, s). Inr (sk_pid lk = pid, s)) else Inr (False, s)) (\<lambda>(r, s).
    bindE (release_sk lk s) (\<lambda>(lk, s). Inr (r, lk, s))))"

end
