(* ===== verification/Bio.thy ===== *)
theory Bio
  imports Sleeplock
begin

text \<open>
  kernel/bio.c, the buffer cache.  Buffers are named by their index in \<open>bcache.buf\<close>; \<open>NBUF\<close> names
  \<open>bcache.head\<close>.  The disk is the map from block numbers to blocks that \<open>virtio_disk_rw\<close> reads and
  writes; \<open>io_writes\<close> records the writes in order, for reasoning about crashes.
\<close>

section \<open>Data\<close>

definition BSIZE :: nat where "BSIZE = 1024"
definition MAXOPBLOCKS :: nat where "MAXOPBLOCKS = 10"
definition NBUF :: nat where "NBUF = MAXOPBLOCKS * 3"
definition LOGSIZE :: nat where "LOGSIZE = MAXOPBLOCKS * 3"

type_synonym block = "u8 list"

text \<open>The field \<open>disk\<close> of \<open>struct buf\<close> belongs to the disk driver.\<close>

record buf =
  b_valid :: bool
  b_dev :: u32
  b_blockno :: u32
  b_lock :: sleeplock
  b_refcnt :: u32
  b_prev :: nat
  b_next :: nat
  b_bytes :: block

record io =
  io_ps :: ps
  io_lock :: spinlock
  io_buf :: "nat \<Rightarrow> buf"
  io_disk :: "u32 \<Rightarrow> block"
  io_writes :: "(u32 \<times> block) list"

definition upd_buf :: "nat \<Rightarrow> (buf \<Rightarrow> buf) \<Rightarrow> 'a io_scheme \<Rightarrow> 'a io_scheme" where
  "upd_buf i f s = s \<lparr> io_buf := (io_buf s)(i := f (io_buf s i)) \<rparr>"

definition acquire_bc :: "'a io_scheme \<Rightarrow> 'a io_scheme res" where
  "acquire_bc s =
    bindE (acquire (io_lock s) (ps_hart (io_ps s))) (\<lambda>(lk, c). Inr (s \<lparr> io_lock := lk, io_ps := set_hart c (io_ps s) \<rparr>))"

definition release_bc :: "'a io_scheme \<Rightarrow> 'a io_scheme res" where
  "release_bc s =
    bindE (release (io_lock s) (ps_hart (io_ps s))) (\<lambda>(lk, c). Inr (s \<lparr> io_lock := lk, io_ps := set_hart c (io_ps s) \<rparr>))"

definition lock_buf :: "nat \<Rightarrow> 'a io_scheme \<Rightarrow> 'a io_scheme res" where
  "lock_buf i s =
    bindE (acquiresleep (b_lock (io_buf s i)) (io_ps s)) (\<lambda>(lk, p).
      Inr (upd_buf i (b_lock_update (\<lambda>_. lk)) (s \<lparr> io_ps := p \<rparr>)))"

definition unlock_buf :: "nat \<Rightarrow> 'a io_scheme \<Rightarrow> 'a io_scheme res" where
  "unlock_buf i s =
    bindE (releasesleep (BufChan i) (b_lock (io_buf s i)) (io_ps s)) (\<lambda>(lk, p).
      Inr (upd_buf i (b_lock_update (\<lambda>_. lk)) (s \<lparr> io_ps := p \<rparr>)))"

definition holding_buf :: "nat \<Rightarrow> 'a io_scheme \<Rightarrow> (bool \<times> 'a io_scheme) res" where
  "holding_buf i s =
    bindE (holdingsleep (b_lock (io_buf s i)) (io_ps s)) (\<lambda>(r, lk, p).
      Inr (r, upd_buf i (b_lock_update (\<lambda>_. lk)) (s \<lparr> io_ps := p \<rparr>)))"

text \<open>
  \<open>virtio_disk_rw(b, write)\<close> as its caller sees it: when it returns, the block has been read or written.
\<close>

definition disk_rw :: "nat \<Rightarrow> bool \<Rightarrow> 'a io_scheme \<Rightarrow> 'a io_scheme" where
  "disk_rw i wr s =
    (let b = io_buf s i in
     if wr then s \<lparr> io_disk := (io_disk s)(b_blockno b := b_bytes b), io_writes := io_writes s @ [(b_blockno b, b_bytes b)] \<rparr>
     else upd_buf i (b_bytes_update (\<lambda>_. io_disk s (b_blockno b))) s)"

section \<open>Operations\<close>

text \<open>Putting a buffer at the front of the list, and taking one out.\<close>

definition push_front :: "nat \<Rightarrow> 'a io_scheme \<Rightarrow> 'a io_scheme" where
  "push_front i s =
    (let s = upd_buf i (\<lambda>b. b \<lparr> b_next := b_next (io_buf s NBUF), b_prev := NBUF \<rparr>) s;
         s = upd_buf (b_next (io_buf s NBUF)) (b_prev_update (\<lambda>_. i)) s in
     upd_buf NBUF (b_next_update (\<lambda>_. i)) s)"

definition unlink :: "nat \<Rightarrow> 'a io_scheme \<Rightarrow> 'a io_scheme" where
  "unlink i s =
    (let s = upd_buf (b_next (io_buf s i)) (b_prev_update (\<lambda>_. b_prev (io_buf s i))) s in
     upd_buf (b_prev (io_buf s i)) (b_next_update (\<lambda>_. b_next (io_buf s i))) s)"

definition binit1 :: "nat \<Rightarrow> 'a io_scheme \<Rightarrow> 'a io_scheme" where
  "binit1 i s = push_front i (upd_buf i (b_lock_update (\<lambda>_. initsleeplock ''buffer'')) s)"

definition binit :: "'a io_scheme \<Rightarrow> 'a io_scheme" where
  "binit s =
    (let s = s \<lparr> io_lock := initlock ''bcache'' \<rparr>;
         s = upd_buf NBUF (\<lambda>b. b \<lparr> b_prev := NBUF, b_next := NBUF \<rparr>) s in
     fold binit1 [0..<NBUF] s)"

text \<open>
  A walk along the list from \<open>i\<close> to the first buffer that satisfies \<open>P\<close>.  The list has \<open>NBUF\<close> buffers and
  the head, which bounds the steps of a walk that ends.
\<close>

fun scan :: "nat \<Rightarrow> (nat \<Rightarrow> nat) \<Rightarrow> (nat \<Rightarrow> bool) \<Rightarrow> nat \<Rightarrow> nat option res" where
  "scan 0 nxt P i = Inl Diverges"
| "scan (Suc n) nxt P i = (if i = NBUF then Inr None else if P i then Inr (Some i) else scan n nxt P (nxt i))"

definition bget :: "u32 \<Rightarrow> u32 \<Rightarrow> 'a io_scheme \<Rightarrow> (nat \<times> 'a io_scheme) res" where
  "bget dev blockno s =
    bindE (acquire_bc s) (\<lambda>s.
    bindE (scan (Suc NBUF) (\<lambda>i. b_next (io_buf s i)) (\<lambda>i. b_dev (io_buf s i) = dev \<and> b_blockno (io_buf s i) = blockno)
        (b_next (io_buf s NBUF))) (\<lambda>r.
    (case r of
       Some i \<Rightarrow>
         bindE (release_bc (upd_buf i (\<lambda>b. b \<lparr> b_refcnt := b_refcnt b + 1 \<rparr>) s)) (\<lambda>s.
         bindE (lock_buf i s) (\<lambda>s. Inr (i, s)))
     | None \<Rightarrow>
         bindE (scan (Suc NBUF) (\<lambda>i. b_prev (io_buf s i)) (\<lambda>i. b_refcnt (io_buf s i) = 0) (b_prev (io_buf s NBUF))) (\<lambda>r.
         (case r of
            Some i \<Rightarrow>
              bindE (release_bc (upd_buf i (\<lambda>b. b \<lparr> b_dev := dev, b_blockno := blockno, b_valid := False, b_refcnt := 1 \<rparr>) s)) (\<lambda>s.
              bindE (lock_buf i s) (\<lambda>s. Inr (i, s)))
          | None \<Rightarrow> Inl (Panic ''bget: no buffers''))))))"

definition bread :: "u32 \<Rightarrow> u32 \<Rightarrow> 'a io_scheme \<Rightarrow> (nat \<times> 'a io_scheme) res" where
  "bread dev blockno s =
    bindE (bget dev blockno s) (\<lambda>(i, s).
    if \<not> b_valid (io_buf s i) then Inr (i, upd_buf i (b_valid_update (\<lambda>_. True)) (disk_rw i False s))
    else Inr (i, s))"

definition bwrite :: "nat \<Rightarrow> 'a io_scheme \<Rightarrow> 'a io_scheme res" where
  "bwrite i s =
    bindE (holding_buf i s) (\<lambda>(r, s).
    guardE r (Panic ''bwrite'') (Inr (disk_rw i True s)))"

definition brelse :: "nat \<Rightarrow> 'a io_scheme \<Rightarrow> 'a io_scheme res" where
  "brelse i s =
    bindE (holding_buf i s) (\<lambda>(r, s).
    guardE r (Panic ''brelse'')
    (bindE (unlock_buf i s) (\<lambda>s.
     bindE (acquire_bc s) (\<lambda>s.
     (let s = upd_buf i (\<lambda>b. b \<lparr> b_refcnt := b_refcnt b - 1 \<rparr>) s in
      release_bc (if b_refcnt (io_buf s i) = 0 then push_front i (unlink i s) else s))))))"

definition bpin :: "nat \<Rightarrow> 'a io_scheme \<Rightarrow> 'a io_scheme res" where
  "bpin i s = bindE (acquire_bc s) (\<lambda>s. release_bc (upd_buf i (\<lambda>b. b \<lparr> b_refcnt := b_refcnt b + 1 \<rparr>) s))"

definition bunpin :: "nat \<Rightarrow> 'a io_scheme \<Rightarrow> 'a io_scheme res" where
  "bunpin i s = bindE (acquire_bc s) (\<lambda>s. release_bc (upd_buf i (\<lambda>b. b \<lparr> b_refcnt := b_refcnt b - 1 \<rparr>) s))"

end
