(* ===== verification/Log.thy ===== *)
theory Log
  imports Bio
begin

text \<open>
  kernel/log.c, the write-ahead log, over the buffer cache of theory Bio.  A process that has to wait in
  \<open>begin_op\<close> sleeps until another one commits; run on its own it never returns, so that is \<open>Diverges\<close>.
\<close>

section \<open>Data\<close>

text \<open>Little-endian 32-bit fields of a block, and the assignment of a whole block.\<close>

definition get32 :: "nat \<Rightarrow> block \<Rightarrow> u32" where
  "get32 off d = ucast (d ! off) OR push_bit 8 (ucast (d ! (off + 1))) OR push_bit 16 (ucast (d ! (off + 2))) OR
     push_bit 24 (ucast (d ! (off + 3)))"

definition put32 :: "nat \<Rightarrow> u32 \<Rightarrow> block \<Rightarrow> block" where
  "put32 off w d = d[off := ucast w, off + 1 := ucast (drop_bit 8 w), off + 2 := ucast (drop_bit 16 w), off + 3 := ucast (drop_bit 24 w)]"

record superblock =
  sb_magic :: u32
  sb_size :: u32
  sb_nblocks :: u32
  sb_ninodes :: u32
  sb_nlog :: u32
  sb_logstart :: u32
  sb_inodestart :: u32
  sb_bmapstart :: u32

text \<open>\<open>struct log\<close>, with \<open>struct logheader\<close> as the fields \<open>lg_n\<close> and \<open>lg_block\<close>.\<close>

record logst = io +
  lg_lock :: spinlock
  lg_start :: int
  lg_size :: int
  lg_outstanding :: int
  lg_committing :: bool
  lg_dev :: int
  lg_n :: int
  lg_block :: "int list"

text \<open>Offsets of \<open>n\<close> and \<open>block[i]\<close> in the header block, and its size.\<close>

definition lh_n :: nat where "lh_n = 0"
definition lh_block :: "nat \<Rightarrow> nat" where "lh_block i = 4 + 4 * i"
definition sizeof_logheader :: nat where "sizeof_logheader = 4 + 4 * LOGSIZE"

section \<open>Locks\<close>

definition acquire_log :: "'a logst_scheme \<Rightarrow> 'a logst_scheme res" where
  "acquire_log s =
    bindE (acquire (lg_lock s) (ps_hart (io_ps s))) (\<lambda>(lk, c). Inr (s \<lparr> lg_lock := lk, io_ps := set_hart c (io_ps s) \<rparr>))"

definition release_log :: "'a logst_scheme \<Rightarrow> 'a logst_scheme res" where
  "release_log s =
    bindE (release (lg_lock s) (ps_hart (io_ps s))) (\<lambda>(lk, c). Inr (s \<lparr> lg_lock := lk, io_ps := set_hart c (io_ps s) \<rparr>))"

definition wakeup_log :: "'a logst_scheme \<Rightarrow> 'a logst_scheme res" where
  "wakeup_log s = bindE (wakeup LogChan (io_ps s)) (\<lambda>p. Inr (s \<lparr> io_ps := p \<rparr>))"

section \<open>The log on disk\<close>

definition log_bread :: "int \<Rightarrow> 'a logst_scheme \<Rightarrow> (nat \<times> 'a logst_scheme) res" where
  "log_bread b s = bread (word_of_int (lg_dev s)) (word_of_int b) s"

text \<open>\<open>log.lh.block[i]\<close>, which has \<open>LOGSIZE\<close> elements.\<close>

definition log_block :: "nat \<Rightarrow> 'a logst_scheme \<Rightarrow> int res" where
  "log_block i s = guardE (i < LOGSIZE) OutOfBounds (Inr (lg_block s ! i))"

text \<open>\<open>memmove(dst->data, src->data, BSIZE)\<close>.\<close>

definition copy_block :: "nat \<Rightarrow> nat \<Rightarrow> 'a io_scheme \<Rightarrow> 'a io_scheme" where
  "copy_block dst src s =
    upd_buf dst (\<lambda>b. b \<lparr> b_bytes := take BSIZE (b_bytes (io_buf s src)) @ drop BSIZE (b_bytes b) \<rparr>) s"

definition install1 :: "bool \<Rightarrow> nat \<Rightarrow> 'a logst_scheme \<Rightarrow> 'a logst_scheme res" where
  "install1 recovering tail s =
    bindE (log_bread (lg_start s + int tail + 1) s) (\<lambda>(lbuf, s).
    bindE (log_block tail s) (\<lambda>bn.
    bindE (log_bread bn s) (\<lambda>(dbuf, s).
    bindE (bwrite dbuf (copy_block dbuf lbuf s)) (\<lambda>s.
    bindE (if recovering then Inr s else bunpin dbuf s) (\<lambda>s.
    bindE (brelse lbuf s) (brelse dbuf))))))"

definition install_trans :: "bool \<Rightarrow> 'a logst_scheme \<Rightarrow> 'a logst_scheme res" where
  "install_trans recovering s = foldE (install1 recovering) [0..<nat (lg_n s)] s"

definition read_head1 :: "nat \<Rightarrow> nat \<Rightarrow> 'a logst_scheme \<Rightarrow> 'a logst_scheme res" where
  "read_head1 buf i s =
    guardE (i < LOGSIZE) OutOfBounds
     (Inr (s \<lparr> lg_block := (lg_block s)[i := sint (get32 (lh_block i) (b_bytes (io_buf s buf)))] \<rparr>))"

definition read_head :: "'a logst_scheme \<Rightarrow> 'a logst_scheme res" where
  "read_head s =
    bindE (log_bread (lg_start s) s) (\<lambda>(buf, s).
    (let s = s \<lparr> lg_n := sint (get32 lh_n (b_bytes (io_buf s buf))) \<rparr> in
     bindE (foldE (read_head1 buf) [0..<nat (lg_n s)] s) (brelse buf)))"

definition write_head1 :: "nat \<Rightarrow> nat \<Rightarrow> 'a logst_scheme \<Rightarrow> 'a logst_scheme res" where
  "write_head1 buf i s =
    bindE (log_block i s) (\<lambda>bn.
      Inr (upd_buf buf (\<lambda>b. b \<lparr> b_bytes := put32 (lh_block i) (word_of_int bn) (b_bytes b) \<rparr>) s))"

definition write_head :: "'a logst_scheme \<Rightarrow> 'a logst_scheme res" where
  "write_head s =
    bindE (log_bread (lg_start s) s) (\<lambda>(buf, s).
    (let s = upd_buf buf (\<lambda>b. b \<lparr> b_bytes := put32 lh_n (word_of_int (lg_n s)) (b_bytes b) \<rparr>) s in
     bindE (foldE (write_head1 buf) [0..<nat (lg_n s)] s) (\<lambda>s.
     bindE (bwrite buf s) (brelse buf))))"

definition recover_from_log :: "'a logst_scheme \<Rightarrow> 'a logst_scheme res" where
  "recover_from_log s =
    bindE (read_head s) (\<lambda>s.
    bindE (install_trans True s) (\<lambda>s.
    write_head (s \<lparr> lg_n := 0 \<rparr>)))"

definition initlog :: "int \<Rightarrow> superblock \<Rightarrow> 'a logst_scheme \<Rightarrow> 'a logst_scheme res" where
  "initlog dev sb s =
    guardE (sizeof_logheader < BSIZE) (Panic ''initlog: too big logheader'')
     (recover_from_log (s \<lparr> lg_lock := initlock ''log'', lg_start := sint (sb_logstart sb), lg_size := sint (sb_nlog sb), lg_dev := dev \<rparr>))"

section \<open>Transactions\<close>

definition begin_op :: "'a logst_scheme \<Rightarrow> 'a logst_scheme res" where
  "begin_op s =
    bindE (acquire_log s) (\<lambda>s.
    guardE (\<not> lg_committing s) Diverges
    (guardE (\<not> lg_n s + (lg_outstanding s + 1) * int MAXOPBLOCKS > int LOGSIZE) Diverges
      (release_log (s \<lparr> lg_outstanding := lg_outstanding s + 1 \<rparr>))))"

definition write_log1 :: "nat \<Rightarrow> 'a logst_scheme \<Rightarrow> 'a logst_scheme res" where
  "write_log1 tail s =
    bindE (log_bread (lg_start s + int tail + 1) s) (\<lambda>(tob, s).
    bindE (log_block tail s) (\<lambda>bn.
    bindE (log_bread bn s) (\<lambda>(from, s).
    bindE (bwrite tob (copy_block tob from s)) (\<lambda>s.
    bindE (brelse from s) (brelse tob)))))"

definition write_log :: "'a logst_scheme \<Rightarrow> 'a logst_scheme res" where
  "write_log s = foldE write_log1 [0..<nat (lg_n s)] s"

definition commit :: "'a logst_scheme \<Rightarrow> 'a logst_scheme res" where
  "commit s =
    (if lg_n s > 0 then
       bindE (write_log s) (\<lambda>s.
       bindE (write_head s) (\<lambda>s.
       bindE (install_trans False s) (\<lambda>s.
       write_head (s \<lparr> lg_n := 0 \<rparr>))))
     else Inr s)"

definition end_op :: "'a logst_scheme \<Rightarrow> 'a logst_scheme res" where
  "end_op s =
    bindE (acquire_log s) (\<lambda>s.
    (let s = s \<lparr> lg_outstanding := lg_outstanding s - 1 \<rparr> in
     guardE (\<not> lg_committing s) (Panic ''log.committing'')
     (let do_commit = (lg_outstanding s = 0) in
      bindE (if do_commit then Inr (s \<lparr> lg_committing := True \<rparr>) else wakeup_log s) (\<lambda>s.
      bindE (release_log s) (\<lambda>s.
      if do_commit then
        bindE (commit s) (\<lambda>s.
        bindE (acquire_log s) (\<lambda>s.
        bindE (wakeup_log (s \<lparr> lg_committing := False \<rparr>)) release_log))
      else Inr s)))))"

text \<open>The index of the first logged block with this number, or \<open>n\<close>.\<close>

fun log_index :: "u32 \<Rightarrow> int list \<Rightarrow> nat" where
  "log_index b [] = 0"
| "log_index b (x # xs) = (if word_of_int x = b then 0 else Suc (log_index b xs))"

definition log_write :: "nat \<Rightarrow> 'a logst_scheme \<Rightarrow> 'a logst_scheme res" where
  "log_write buf s =
    bindE (acquire_log s) (\<lambda>s.
    guardE (\<not> (lg_n s \<ge> int LOGSIZE \<or> lg_n s \<ge> lg_size s - 1)) (Panic ''too big a transaction'')
    (guardE (\<not> lg_outstanding s < 1) (Panic ''log_write outside of trans'')
     (let b = b_blockno (io_buf s buf);
          i = log_index b (take (nat (lg_n s)) (lg_block s));
          s = s \<lparr> lg_block := (lg_block s)[i := sint b] \<rparr> in
      bindE (if int i = lg_n s then bindE (bpin buf s) (\<lambda>s. Inr (s \<lparr> lg_n := lg_n s + 1 \<rparr>)) else Inr s)
        release_log)))"

end
