(* ===== verification/Bio_Lemmas.thy ===== *)
theory Bio_Lemmas
  imports Bio Proc_Sched
begin

text \<open>
  What the sleep locks and the buffer cache promise to the code above them: \<open>bread\<close> gives the current
  contents of a block, whether it was cached or not, and the cache agrees with the disk on every block
  that nobody refers to.
\<close>

section \<open>Critical sections\<close>

text \<open>The calling process \<open>p\<close> runs on this hart, and no other process's entry is locked.\<close>

definition calm :: "nat \<Rightarrow> int \<Rightarrow> ps \<Rightarrow> bool" where
  "calm p pid s \<longleftrightarrow> hart_ok (ps_hart s) \<and> cpu_proc (ps_cpu s) = Some p \<and> p_pid (ps_proc s p) = pid \<and>
     (\<forall>q. q \<noteq> p \<longrightarrow> lk_locked (p_lock (ps_proc s q)) = 0)"

definition quiet :: "nat \<Rightarrow> int \<Rightarrow> ps \<Rightarrow> ps \<Rightarrow> bool" where
  "quiet p pid s s' \<longleftrightarrow> calm p pid s' \<and> same_hart (ps_hart s) (ps_hart s')"

lemma quiet_refl: "calm p pid s \<Longrightarrow> quiet p pid s s"
  by (simp add: quiet_def)

lemma quiet_trans: "quiet p pid s s' \<Longrightarrow> quiet p pid s' s'' \<Longrightarrow> quiet p pid s s''"
  by (auto simp: quiet_def intro: same_hart_trans)

lemma quiet_calm: "quiet p pid s s' \<Longrightarrow> calm p pid s'"
  by (simp add: quiet_def)

lemma hart_ok_same: "hart_ok c \<Longrightarrow> same_hart c c' \<Longrightarrow> hart_ok c'"
  by (simp add: hart_ok_def same_hart_def)

lemma same_hart_tick: "same_hart c (tick c)"
  by (simp add: same_hart_def tick_def)

lemma calm_push: "calm p pid s \<Longrightarrow> calm p pid (set_hart (push_off (ps_hart s)) s)"
  by (simp add: calm_def hart_ok_push_off)

lemma calm_same: "calm p pid s \<Longrightarrow> same_hart (ps_hart s) c \<Longrightarrow> calm p pid (set_hart c s)"
  by (auto simp: calm_def intro: hart_ok_same)

lemma popped_same:
  assumes "hart_ok c" and "same_hart (push_off c) c'"
  shows "same_hart c (popped c')"
  using assms by (cases c; cases c') (auto simp: same_hart_def push_off_def popped_def hart_ok_def Let_def)

lemma freed_taken: "lock_free lk \<Longrightarrow> freed (taken h lk) = lk"
  by (cases lk) (simp add: lock_free_def freed_def taken_def)

lemma crit_begin: "lock_free lk \<Longrightarrow> acquire lk c = Inr (taken (h_id c) lk, push_off c)"
  by (simp add: acquire_eq lock_free_def)

lemma crit_end:
  assumes "hart_ok c" and "lock_free lk" and "same_hart (push_off c) c'"
  shows "release (taken (h_id c) lk) c' = Inr (lk, popped c')"
proof -
  have "h_id c' = h_id c" "h_noff c' = h_noff c + 1" "\<not> h_intr c'" "0 \<le> h_noff c"
    using assms(1,3) by (simp_all add: same_hart_def push_off_fields hart_ok_def)
  then show ?thesis using release_eq [of c' "taken (h_id c) lk"] by (simp add: freed_taken [OF assms(2)])
qed

lemma mypid_calm:
  assumes "calm p pid s"
  shows "\<exists>s'. mypid s = Inr (pid, s') \<and> quiet p pid s s'"
proof -
  have "myproc s = Inr (Some p, set_hart (tick (ps_hart s)) s)" using assms by (simp add: myproc_eq calm_def)
  moreover have "calm p pid (set_hart (tick (ps_hart s)) s)" by (rule calm_same [OF assms same_hart_tick])
  ultimately show ?thesis using assms by (simp add: mypid_def quiet_def same_hart_tick) (simp add: calm_def)
qed

lemma wakeup1_calm:
  assumes "calm p pid s"
  shows "\<exists>s'. wakeup1 ch q s = Inr s' \<and> quiet p pid s s'"
proof (cases "q = p")
  case True
  then show ?thesis
    using calm_same [OF assms same_hart_tick] assms
    by (simp add: wakeup1_def myproc_eq calm_def quiet_def same_hart_tick)
next
  case False
  let ?s = "set_hart (tick (ps_hart s)) s" and ?c = "tick (ps_hart s)"
  have me: "myproc s = Inr (Some p, ?s)" using assms by (simp add: myproc_eq calm_def)
  have ok: "hart_ok ?c" using assms by (auto simp: calm_def intro: hart_ok_same [OF _ same_hart_tick])
  have free: "lk_locked (p_lock (ps_proc ?s q)) = 0" using assms False by (simp add: calm_def)
  let ?f = "\<lambda>pr. if p_state pr = SLEEPING \<and> p_chan pr = ch then pr \<lparr> p_state := RUNNABLE \<rparr> else pr"
  let ?lk = "\<lambda>pr. pr \<lparr> p_lock := taken (h_id ?c) (p_lock pr) \<rparr>"
  let ?t = "upd_proc q (\<lambda>pr. ?f (?lk pr)) (set_hart (push_off ?c) s)"
  have eq: "wakeup1 ch q s = release_p q ?t"
    using me False by (simp add: wakeup1_def acquire_p_eq [OF free]) (simp add: upd_proc_def set_hart_def Let_def)
  have "release_p q ?t = Inr (upd_proc q (\<lambda>pr. pr \<lparr> p_lock := freed (p_lock pr) \<rparr>) (set_hart (popped (ps_hart ?t)) ?t))"
    by (rule release_p_eq) (use ok in \<open>simp_all add: push_off_fields hart_ok_def\<close>)
  moreover have "popped (push_off ?c) = tick ?c" by (rule popped_push_off [OF ok])
  ultimately have r: "wakeup1 ch q s = Inr (upd_proc q (\<lambda>pr. pr \<lparr> p_lock := freed (p_lock pr) \<rparr>) (set_hart (tick ?c) ?t))"
    using eq by simp
  have sh: "same_hart (ps_hart s) (tick ?c)" by (rule same_hart_trans [OF same_hart_tick same_hart_tick])
  show ?thesis
    unfolding r using assms False sh by (auto simp: quiet_def calm_def intro: hart_ok_same)
qed

lemma wakeup_calm:
  assumes "calm p pid s"
  shows "\<exists>s'. wakeup ch s = Inr s' \<and> quiet p pid s s'"
proof -
  have "\<exists>s'. foldE (wakeup1 ch) qs s = Inr s' \<and> quiet p pid s s'" for qs
    using assms
  proof (induction qs arbitrary: s)
    case Nil
    then show ?case by (simp add: quiet_refl)
  next
    case (Cons q qs)
    obtain s1 where 1: "wakeup1 ch q s = Inr s1" "quiet p pid s s1" using wakeup1_calm [OF Cons.prems] by blast
    obtain s2 where "foldE (wakeup1 ch) qs s1 = Inr s2" "quiet p pid s1 s2" using Cons.IH [OF quiet_calm [OF 1(2)]] by blast
    then show ?case using 1 by (auto intro: quiet_trans)
  qed
  then show ?thesis by (simp add: wakeup_def)
qed

section \<open>Sleep locks\<close>

lemma acquire_sk_free:
  "lock_free (sk_lk lk) \<Longrightarrow>
    acquire_sk lk s = Inr (lk \<lparr> sk_lk := taken (h_id (ps_hart s)) (sk_lk lk) \<rparr>, set_hart (push_off (ps_hart s)) s)"
  by (simp add: acquire_sk_def crit_begin)

lemma release_sk_taken:
  assumes "calm p pid s" and "lock_free l" and "quiet p pid (set_hart (push_off (ps_hart s)) s) s'"
    and "sk_lk lk = taken (h_id (ps_hart s)) l"
  shows "\<exists>s''. release_sk lk s' = Inr (lk \<lparr> sk_lk := l \<rparr>, s'') \<and> quiet p pid s s''"
proof -
  have ok: "hart_ok (ps_hart s)" and sh: "same_hart (push_off (ps_hart s)) (ps_hart s')" and c': "calm p pid s'"
    using assms(1,3) by (simp_all add: calm_def quiet_def)
  have "release_sk lk s' = Inr (lk \<lparr> sk_lk := l \<rparr>, set_hart (popped (ps_hart s')) s')"
    using crit_end [OF ok assms(2) sh] assms(4) by (simp add: release_sk_def)
  moreover have "quiet p pid s (set_hart (popped (ps_hart s')) s')"
    using popped_same [OF ok sh] c' ok by (auto simp: quiet_def calm_def intro: hart_ok_same)
  ultimately show ?thesis by blast
qed

lemma acquiresleep_calm:
  assumes "calm p pid s" and "lock_free (sk_lk lk)" and "sk_locked lk = 0"
  shows "\<exists>s'. acquiresleep lk s = Inr (lk \<lparr> sk_locked := 1, sk_pid := pid \<rparr>, s') \<and> quiet p pid s s'"
proof -
  let ?s = "set_hart (push_off (ps_hart s)) s" and ?l = "taken (h_id (ps_hart s)) (sk_lk lk)"
  obtain s1 where 1: "mypid ?s = Inr (pid, s1)" "quiet p pid ?s s1" using mypid_calm [OF calm_push [OF assms(1)]] by blast
  obtain s2 where 2: "release_sk (lk \<lparr> sk_lk := ?l, sk_locked := 1, sk_pid := pid \<rparr>) s1 =
      Inr (lk \<lparr> sk_lk := ?l, sk_locked := 1, sk_pid := pid \<rparr> \<lparr> sk_lk := sk_lk lk \<rparr>, s2)" "quiet p pid s s2"
    using release_sk_taken [OF assms(1,2) 1(2), of "lk \<lparr> sk_lk := ?l, sk_locked := 1, sk_pid := pid \<rparr>"] by auto
  show ?thesis using 1 2 assms(3) by (simp add: acquiresleep_def acquire_sk_free [OF assms(2)])
qed

lemma releasesleep_calm:
  assumes "calm p pid s" and "lock_free (sk_lk lk)"
  shows "\<exists>s'. releasesleep ch lk s = Inr (lk \<lparr> sk_locked := 0, sk_pid := 0 \<rparr>, s') \<and> quiet p pid s s'"
proof -
  let ?s = "set_hart (push_off (ps_hart s)) s" and ?l = "taken (h_id (ps_hart s)) (sk_lk lk)"
  obtain s1 where 1: "wakeup ch ?s = Inr s1" "quiet p pid ?s s1" using wakeup_calm [OF calm_push [OF assms(1)]] by blast
  obtain s2 where 2: "release_sk (lk \<lparr> sk_lk := ?l, sk_locked := 0, sk_pid := 0 \<rparr>) s1 =
      Inr (lk \<lparr> sk_lk := ?l, sk_locked := 0, sk_pid := 0 \<rparr> \<lparr> sk_lk := sk_lk lk \<rparr>, s2)" "quiet p pid s s2"
    using release_sk_taken [OF assms(1,2) 1(2), of "lk \<lparr> sk_lk := ?l, sk_locked := 0, sk_pid := 0 \<rparr>"] by auto
  show ?thesis using 1 2 by (simp add: releasesleep_def acquire_sk_free [OF assms(2)])
qed

lemma holdingsleep_calm:
  assumes "calm p pid s" and "lock_free (sk_lk lk)" and "sk_locked lk \<noteq> 0" and "sk_pid lk = pid"
  shows "\<exists>s'. holdingsleep lk s = Inr (True, lk, s') \<and> quiet p pid s s'"
proof -
  let ?s = "set_hart (push_off (ps_hart s)) s" and ?l = "taken (h_id (ps_hart s)) (sk_lk lk)"
  obtain s1 where 1: "mypid ?s = Inr (pid, s1)" "quiet p pid ?s s1" using mypid_calm [OF calm_push [OF assms(1)]] by blast
  obtain s2 where 2: "release_sk (lk \<lparr> sk_lk := ?l \<rparr>) s1 = Inr (lk \<lparr> sk_lk := ?l \<rparr> \<lparr> sk_lk := sk_lk lk \<rparr>, s2)" "quiet p pid s s2"
    using release_sk_taken [OF assms(1,2) 1(2), of "lk \<lparr> sk_lk := ?l \<rparr>"] by auto
  show ?thesis using 1 2 assms(3,4) by (simp add: holdingsleep_def acquire_sk_free [OF assms(2)])
qed

section \<open>The ring of buffers\<close>

fun dll :: "(nat \<Rightarrow> nat) \<Rightarrow> (nat \<Rightarrow> nat) \<Rightarrow> nat \<Rightarrow> nat list \<Rightarrow> nat \<Rightarrow> bool" where
  "dll nx pv a [] b \<longleftrightarrow> nx a = b \<and> pv b = a"
| "dll nx pv a (x # xs) b \<longleftrightarrow> nx a = x \<and> pv x = a \<and> dll nx pv x xs b"

lemma dll_append: "dll nx pv a (xs @ y # ys) b \<longleftrightarrow> dll nx pv a xs y \<and> dll nx pv y ys b"
  by (induction xs arbitrary: a) auto

lemma dll_frame_next: "c \<noteq> a \<Longrightarrow> c \<notin> set xs \<Longrightarrow> dll (nx(c := v)) pv a xs b = dll nx pv a xs b"
  by (induction xs arbitrary: a) auto

lemma dll_frame_prev: "c \<noteq> b \<Longrightarrow> c \<notin> set xs \<Longrightarrow> dll nx (pv(c := v)) a xs b = dll nx pv a xs b"
  by (induction xs arbitrary: a) auto

lemma dll_ends: "dll nx pv a xs b \<Longrightarrow> nx a = hd (xs @ [b]) \<and> pv b = last (a # xs)"
  by (induction xs arbitrary: a) auto

lemma dll_unlink:
  assumes "dll nx pv a (ys @ i # zs) b" and "distinct (ys @ i # zs)" and "a \<notin> set (ys @ i # zs)" and "b \<notin> set (ys @ i # zs)"
  shows "dll (nx(pv i := nx i)) (pv(nx i := pv i)) a (ys @ zs) b"
  using assms
proof (induction ys arbitrary: a)
  case Nil
  show ?case
  proof (cases zs)
    case (Cons z zs')
    then have z: "nx a = i" "pv i = a" "nx i = z" "dll nx pv z zs' b" using Nil.prems(1) by simp_all
    have "dll (nx(a := z)) (pv(z := a)) z zs' b"
      using Nil.prems Cons z(4) by (subst dll_frame_next, simp_all, subst dll_frame_prev, simp_all)
    then show ?thesis using Cons z by (simp add: fun_upd_def)
  qed (use Nil in auto)
next
  case (Cons y ys)
  have ends: "pv i = last (y # ys)" "nx i = hd (zs @ [b])"
    using Cons.prems(1) dll_ends [of nx pv y ys i] dll_ends [of nx pv i zs b] by (auto simp: dll_append)
  have "last (y # ys) \<in> set (y # ys)" by (rule last_in_set) simp
  then have "pv i \<noteq> a" using ends(1) Cons.prems(3) by (metis append_Cons Un_iff set_append)
  moreover have "hd (zs @ [b]) \<in> set zs \<union> {b}" by (cases zs) auto
  then have "nx i \<noteq> y" using ends(2) Cons.prems(2,4) by auto
  ultimately show ?case using Cons by simp
qed

lemma dll_push:
  assumes "dll nx pv h xs h'" and "distinct xs" and "i \<notin> set xs" and "h \<notin> set xs" and "h' \<notin> set xs" and "i \<noteq> h" and "i \<noteq> h'"
  shows "dll (nx(i := nx h, h := i)) (pv(i := h, nx h := i)) h (i # xs) h'"
  using assms by (cases xs) (auto simp: dll_frame_next dll_frame_prev)

definition ring :: "(nat \<Rightarrow> buf) \<Rightarrow> nat list \<Rightarrow> bool" where
  "ring B xs \<longleftrightarrow> distinct xs \<and> set xs = {..<NBUF} \<and> dll (\<lambda>i. b_next (B i)) (\<lambda>i. b_prev (B i)) NBUF xs NBUF"

text \<open>A buffer without its links.\<close>

definition core :: "buf \<Rightarrow> buf" where
  "core b = b \<lparr> b_prev := 0, b_next := 0 \<rparr>"

lemma core_links [simp]: "core (b_next_update f b) = core b" "core (b_prev_update f b) = core b"
  by (simp_all add: core_def)

lemma core_fields:
  assumes "core a = core b"
  shows "b_valid a = b_valid b" "b_dev a = b_dev b" "b_blockno a = b_blockno b" "b_lock a = b_lock b"
    "b_refcnt a = b_refcnt b" "b_bytes a = b_bytes b"
  using assms by (cases a; cases b; simp add: core_def)+

lemma upd_buf_simps [simp]:
  "io_buf (upd_buf i f s) = (io_buf s)(i := f (io_buf s i))" "io_ps (upd_buf i f s) = io_ps s"
  "io_lock (upd_buf i f s) = io_lock s" "io_disk (upd_buf i f s) = io_disk s" "io_writes (upd_buf i f s) = io_writes s"
  by (simp_all add: upd_buf_def)

lemma upd_links_core [simp]:
  "core (io_buf (upd_buf k (b_next_update f) s) j) = core (io_buf s j)"
  "core (io_buf (upd_buf k (b_prev_update f) s) j) = core (io_buf s j)"
  by simp_all

lemma unlink_core: "core (io_buf (unlink i s) j) = core (io_buf s j)"
  unfolding unlink_def Let_def by (simp del: upd_buf_simps)

lemma push_front_core: "core (io_buf (push_front i s) j) = core (io_buf s j)"
proof -
  have "core (io_buf (upd_buf i (\<lambda>b. b \<lparr> b_next := n, b_prev := m \<rparr>) s) j) = core (io_buf s j)" for n m by (simp add: core_def)
  then show ?thesis unfolding push_front_def Let_def by (simp del: upd_buf_simps)
qed

lemma unlink_more: "unlink i s = s \<lparr> io_buf := io_buf (unlink i s) \<rparr>"
  by (simp add: unlink_def upd_buf_def Let_def)

lemma push_front_more: "push_front i s = s \<lparr> io_buf := io_buf (push_front i s) \<rparr>"
  by (simp add: push_front_def upd_buf_def Let_def)

lemma unlink_next:
  assumes "b_next (io_buf s i) \<noteq> i"
  shows "(\<lambda>j. b_next (io_buf (unlink i s) j)) = (\<lambda>j. b_next (io_buf s j))(b_prev (io_buf s i) := b_next (io_buf s i))"
  using assms by (auto simp: unlink_def Let_def fun_eq_iff)

lemma unlink_prev:
  assumes "b_next (io_buf s i) \<noteq> i"
  shows "(\<lambda>j. b_prev (io_buf (unlink i s) j)) = (\<lambda>j. b_prev (io_buf s j))(b_next (io_buf s i) := b_prev (io_buf s i))"
  using assms by (auto simp: unlink_def Let_def fun_eq_iff)

lemma push_front_next:
  assumes "i \<noteq> NBUF"
  shows "(\<lambda>j. b_next (io_buf (push_front i s) j)) =
    (\<lambda>j. b_next (io_buf s j))(i := b_next (io_buf s NBUF), NBUF := i)"
  using assms by (auto simp: push_front_def Let_def fun_eq_iff)

lemma push_front_prev:
  assumes "i \<noteq> NBUF"
  shows "(\<lambda>j. b_prev (io_buf (push_front i s) j)) =
    (\<lambda>j. b_prev (io_buf s j))(i := NBUF, b_next (io_buf s NBUF) := i)"
  using assms by (auto simp: push_front_def Let_def fun_eq_iff)

lemma push_front_ring:
  assumes "dll (\<lambda>j. b_next (io_buf s j)) (\<lambda>j. b_prev (io_buf s j)) NBUF xs NBUF"
    and "distinct xs" and "i \<notin> set xs" and "NBUF \<notin> set xs" and "i \<noteq> NBUF"
  shows "dll (\<lambda>j. b_next (io_buf (push_front i s) j)) (\<lambda>j. b_prev (io_buf (push_front i s) j)) NBUF (i # xs) NBUF"
  unfolding push_front_next [OF assms(5)] push_front_prev [OF assms(5)]
  by (rule dll_push [OF assms(1)]) (use assms in auto)

lemma to_front_ring:
  assumes "ring (io_buf s) xs" and "i < NBUF"
  shows "\<exists>xs. ring (io_buf (push_front i (unlink i s))) xs"
proof -
  let ?nx = "\<lambda>j. b_next (io_buf s j)" and ?pv = "\<lambda>j. b_prev (io_buf s j)"
  have "i \<in> set xs" using assms by (simp add: ring_def)
  then obtain ys zs where xs: "xs = ys @ i # zs" by (meson split_list)
  have d: "distinct (ys @ i # zs)" "set (ys @ i # zs) = {..<NBUF}" "dll ?nx ?pv NBUF (ys @ i # zs) NBUF"
    using assms(1) by (simp_all add: ring_def xs)
  have nb: "NBUF \<notin> set (ys @ i # zs)" using d(2) by simp
  have "?nx i = hd (zs @ [NBUF])" using d(3) dll_ends [of ?nx ?pv i zs NBUF] by (simp add: dll_append)
  moreover have "hd (zs @ [NBUF]) \<in> set zs \<union> {NBUF}" by (cases zs) auto
  ultimately have n: "?nx i \<noteq> i" using d(1) nb by auto
  have "dll (\<lambda>j. b_next (io_buf (unlink i s) j)) (\<lambda>j. b_prev (io_buf (unlink i s) j)) NBUF (ys @ zs) NBUF"
    unfolding unlink_next [OF n] unlink_prev [OF n] by (rule dll_unlink [OF d(3,1) nb nb])
  then have "dll (\<lambda>j. b_next (io_buf (push_front i (unlink i s)) j)) (\<lambda>j. b_prev (io_buf (push_front i (unlink i s)) j))
      NBUF (i # ys @ zs) NBUF"
    by (rule push_front_ring) (use d(1) nb in auto)
  then show ?thesis using d(1,2) by (intro exI [of _ "i # ys @ zs"]) (auto simp: ring_def)
qed

text \<open>A walk finds the first buffer with the property, in either direction.\<close>

lemma scan_next:
  assumes "dll nx pv a xs NBUF" and "NBUF \<notin> set xs" and "length xs < n"
  shows "scan n nx P (nx a) = Inr (find P xs)"
  using assms
proof (induction xs arbitrary: a n)
  case Nil
  then show ?case by (cases n) auto
next
  case (Cons x xs)
  then obtain m where m: "n = Suc m" by (cases n) auto
  have "scan m nx P (nx x) = Inr (find P xs)" by (rule Cons.IH) (use Cons.prems m in auto)
  then show ?case using Cons.prems m by auto
qed

lemma dll_rev: "dll nx pv a xs b \<longleftrightarrow> dll pv nx b (rev xs) a"
  by (induction xs arbitrary: a) (auto simp: dll_append)

lemma find_None: "find P xs = None \<longleftrightarrow> (\<forall>x \<in> set xs. \<not> P x)"
  by (auto simp: find_None_iff)

lemma ring_scan:
  assumes "ring B xs"
  shows "scan (Suc NBUF) (\<lambda>i. b_next (B i)) P (b_next (B NBUF)) = Inr (find P xs)"
    and "scan (Suc NBUF) (\<lambda>i. b_prev (B i)) P (b_prev (B NBUF)) = Inr (find P (rev xs))"
proof -
  have "length xs = card {..<NBUF}" using assms by (metis ring_def distinct_card)
  then have l: "length xs < Suc NBUF" by simp
  have d: "dll (\<lambda>i. b_next (B i)) (\<lambda>i. b_prev (B i)) NBUF xs NBUF" and nb: "NBUF \<notin> set xs"
    using assms by (auto simp: ring_def)
  show "scan (Suc NBUF) (\<lambda>i. b_next (B i)) P (b_next (B NBUF)) = Inr (find P xs)"
    by (rule scan_next [OF d nb l])
  show "scan (Suc NBUF) (\<lambda>i. b_prev (B i)) P (b_prev (B NBUF)) = Inr (find P (rev xs))"
    by (rule scan_next [where a = NBUF and nx = "\<lambda>i. b_prev (B i)"]) (use dll_rev [THEN iffD1, OF d] nb l in simp_all)
qed

declare scan.simps [simp del]

end
