(* ===== verification/Bio_Cache.thy ===== *)
theory Bio_Cache
  imports Bio_Lemmas
begin

text \<open>
  The buffer cache as a map.  \<open>V\<close> gives the contents of every block as the kernel sees it, \<open>P\<close> how many
  references each block has, and \<open>H\<close> the blocks whose buffers the calling process has locked.
\<close>

section \<open>The invariant\<close>

definition buf_ok :: "int \<Rightarrow> u32 \<Rightarrow> (u32 \<Rightarrow> block) \<Rightarrow> (u32 \<Rightarrow> nat) \<Rightarrow> u32 set \<Rightarrow> buf \<Rightarrow> bool" where
  "buf_ok pid d V P H b \<longleftrightarrow> lock_free (sk_lk (b_lock b)) \<and>
     (if b_dev b = d then b_valid b \<and> b_bytes b = V (b_blockno b) \<and> unat (b_refcnt b) = P (b_blockno b) \<and>
        (if b_blockno b \<in> H then sk_locked (b_lock b) = 1 \<and> sk_pid (b_lock b) = pid else sk_locked (b_lock b) = 0)
      else b_refcnt b = 0 \<and> sk_locked (b_lock b) = 0)"

definition cached :: "(nat \<Rightarrow> buf) \<Rightarrow> u32 \<Rightarrow> u32 \<Rightarrow> nat \<Rightarrow> bool" where
  "cached B d b i \<longleftrightarrow> i < NBUF \<and> b_dev (B i) = d \<and> b_blockno (B i) = b"

definition bufs_ok :: "int \<Rightarrow> u32 \<Rightarrow> (u32 \<Rightarrow> block) \<Rightarrow> (u32 \<Rightarrow> block) \<Rightarrow> (u32 \<Rightarrow> nat) \<Rightarrow> u32 set \<Rightarrow> (nat \<Rightarrow> buf) \<Rightarrow> bool" where
  "bufs_ok pid d D V P H B \<longleftrightarrow> (\<forall>i < NBUF. buf_ok pid d V P H (B i)) \<and>
     (\<forall>b i j. cached B d b i \<and> cached B d b j \<longrightarrow> i = j) \<and>
     (\<forall>b. P b = 0 \<longrightarrow> V b = D b \<and> b \<notin> H) \<and> (\<forall>b. 0 < P b \<longrightarrow> (\<exists>i. cached B d b i))"

definition bc :: "nat \<Rightarrow> int \<Rightarrow> u32 \<Rightarrow> (u32 \<Rightarrow> block) \<Rightarrow> (u32 \<Rightarrow> nat) \<Rightarrow> u32 set \<Rightarrow> 'a io_scheme \<Rightarrow> bool" where
  "bc p pid d V P H s \<longleftrightarrow> calm p pid (io_ps s) \<and> lock_free (io_lock s) \<and> (\<exists>xs. ring (io_buf s) xs) \<and>
     bufs_ok pid d (io_disk s) V P H (io_buf s)"

text \<open>The state changed in the process table and the buffers only.\<close>

definition io_to :: "nat \<Rightarrow> int \<Rightarrow> 'a io_scheme \<Rightarrow> 'a io_scheme \<Rightarrow> bool" where
  "io_to p pid s s' \<longleftrightarrow> (\<exists>q B. s' = s \<lparr> io_ps := q, io_buf := B \<rparr> \<and> quiet p pid (io_ps s) q)"

lemma io_toI: "quiet p pid (io_ps s) q \<Longrightarrow> io_to p pid s (s \<lparr> io_ps := q, io_buf := B \<rparr>)"
  unfolding io_to_def by (intro exI conjI) (rule refl)

lemma io_to_trans: "io_to p pid s s' \<Longrightarrow> io_to p pid s' s'' \<Longrightarrow> io_to p pid s s''"
  unfolding io_to_def by (elim exE conjE) (force intro: quiet_trans)

lemma io_to_fields:
  assumes "io_to p pid s s'"
  shows "io_lock s' = io_lock s" "io_disk s' = io_disk s" "io_writes s' = io_writes s" "io.more s' = io.more s"
    "quiet p pid (io_ps s) (io_ps s')"
  using assms by (auto simp: io_to_def)

lemma cached_core:
  assumes "\<And>j. core (B' j) = core (B j)"
  shows "cached B' = cached B"
  by (intro ext) (simp add: cached_def core_fields(2,3) [OF assms])

lemma bufs_ok_core:
  assumes "\<And>j. core (B' j) = core (B j)"
  shows "bufs_ok pid d D V P H B' = bufs_ok pid d D V P H B"
  using core_fields [OF assms] by (simp add: bufs_ok_def buf_ok_def cached_core [OF assms])

lemma ring_links:
  "(\<And>j. b_next (B' j) = b_next (B j)) \<Longrightarrow> (\<And>j. b_prev (B' j) = b_prev (B j)) \<Longrightarrow> ring B' xs = ring B xs"
  by (simp add: ring_def)

lemma cached_unique: "bufs_ok pid d D V P H B \<Longrightarrow> cached B d b i \<Longrightarrow> cached B d b j \<Longrightarrow> i = j"
  by (simp add: bufs_ok_def)

lemma cached_ok:
  assumes "bufs_ok pid d D V P H B" and "cached B d b i"
  shows "b_valid (B i)" "b_bytes (B i) = V b" "unat (b_refcnt (B i)) = P b" "lock_free (sk_lk (b_lock (B i)))"
    "b \<in> H \<Longrightarrow> sk_locked (b_lock (B i)) = 1 \<and> sk_pid (b_lock (B i)) = pid" "b \<notin> H \<Longrightarrow> sk_locked (b_lock (B i)) = 0"
  using assms by (auto simp: bufs_ok_def cached_def buf_ok_def split: if_splits)

lemma held_pinned: "bufs_ok pid d D V P H B \<Longrightarrow> b \<in> H \<Longrightarrow> 0 < P b"
  by (auto simp: bufs_ok_def)

text \<open>Buffer \<open>i\<close> comes to hold block \<open>b\<close>, which it held before or which was not cached.\<close>

lemma bufs_upd:
  assumes ok: "bufs_ok pid d D V P H B" and i: "i < NBUF"
    and slot: "cached B d b i \<or> (\<nexists>j. cached B d b j) \<and> b_refcnt (B i) = 0"
    and new: "b_dev b' = d" "b_blockno b' = b" "buf_ok pid d (V(b := x)) (P(b := n)) H' b'"
    and H': "H' - {b} = H - {b}" and zero: "n = 0 \<Longrightarrow> x = D b \<and> b \<notin> H'"
  shows "bufs_ok pid d D (V(b := x)) (P(b := n)) H' (B(i := b'))"
proof -
  have other: "b_blockno (B j) \<noteq> b" if "j < NBUF" "j \<noteq> i" "b_dev (B j) = d" for j
    using slot that cached_unique [OF ok, of b i j] by (auto simp: cached_def)
  have Hc: "c \<in> H' \<longleftrightarrow> c \<in> H" if "c \<noteq> b" for c using H' that by blast
  have gone: "P c = 0" if "cached B d c i" "c \<noteq> b" for c
    using slot that cached_ok(3) [OF ok that(1)] by (auto simp: cached_def)
  have "buf_ok pid d (V(b := x)) (P(b := n)) H' ((B(i := b')) j)" if "j < NBUF" for j
  proof (cases "j = i")
    case False
    have "buf_ok pid d V P H (B j)" using ok that by (simp add: bufs_ok_def)
    then show ?thesis using other [OF that False] Hc False by (auto simp: buf_ok_def)
  qed (use new in simp)
  moreover have "j = k" if "cached (B(i := b')) d c j" "cached (B(i := b')) d c k" for c j k
  proof -
    consider "j = i" "k = i" | "j = i" "k \<noteq> i" | "j \<noteq> i" "k = i" | "j \<noteq> i" "k \<noteq> i" by blast
    then show ?thesis
    proof cases
      case 4
      then show ?thesis using that cached_unique [OF ok, of c j k] by (simp add: cached_def)
    qed (use that new other in \<open>auto simp: cached_def\<close>)
  qed
  moreover have "(V(b := x)) c = D c \<and> c \<notin> H'" if "(P(b := n)) c = 0" for c
    using that zero ok Hc [of c] by (cases "c = b") (auto simp: bufs_ok_def)
  moreover have "\<exists>j. cached (B(i := b')) d c j" if "0 < (P(b := n)) c" for c
  proof (cases "c = b")
    case True
    then show ?thesis using i new by (intro exI [of _ i]) (simp add: cached_def)
  next
    case False
    then have "0 < P c" using that by simp
    then obtain j where j: "cached B d c j" using ok unfolding bufs_ok_def by blast
    have "j \<noteq> i" using gone [of c] j False that by auto
    then show ?thesis using j by (intro exI [of _ j]) (simp add: cached_def)
  qed
  ultimately show ?thesis unfolding bufs_ok_def by blast
qed

section \<open>Locks of the cache\<close>

lemma bc_section:
  assumes "calm p pid (io_ps s)" and "lock_free (io_lock s)"
  obtains Q L where "acquire_bc s = Inr (s \<lparr> io_lock := L, io_ps := Q \<rparr>)"
    and "\<And>B. \<exists>ps'. release_bc (s \<lparr> io_lock := L, io_ps := Q, io_buf := B \<rparr>) = Inr (s \<lparr> io_ps := ps', io_buf := B \<rparr>) \<and>
      quiet p pid (io_ps s) ps'"
proof
  let ?c = "ps_hart (io_ps s)"
  let ?L = "taken (h_id ?c) (io_lock s)" and ?Q = "set_hart (push_off ?c) (io_ps s)"
  have ok: "hart_ok ?c" using assms(1) by (simp add: calm_def)
  show "acquire_bc s = Inr (s \<lparr> io_lock := ?L, io_ps := ?Q \<rparr>)" by (simp add: acquire_bc_def crit_begin [OF assms(2)])
  fix B
  have "release_bc (s \<lparr> io_lock := ?L, io_ps := ?Q, io_buf := B \<rparr>) = Inr (s \<lparr> io_ps := set_hart (popped (push_off ?c)) ?Q, io_buf := B \<rparr>)"
    using crit_end [OF ok assms(2) same_hart_refl] by (simp add: release_bc_def)
  moreover have "quiet p pid (io_ps s) (set_hart (popped (push_off ?c)) ?Q)"
    using popped_same [OF ok same_hart_refl] assms(1) by (auto simp: quiet_def calm_def intro: hart_ok_same)
  ultimately show "\<exists>ps'. release_bc (s \<lparr> io_lock := ?L, io_ps := ?Q, io_buf := B \<rparr>) = Inr (s \<lparr> io_ps := ps', io_buf := B \<rparr>) \<and>
      quiet p pid (io_ps s) ps'" by blast
qed

definition locked_by :: "int \<Rightarrow> buf \<Rightarrow> buf" where
  "locked_by pid b = b \<lparr> b_lock := (b_lock b) \<lparr> sk_locked := 1, sk_pid := pid \<rparr> \<rparr>"

definition unlocked :: "buf \<Rightarrow> buf" where
  "unlocked b = b \<lparr> b_lock := (b_lock b) \<lparr> sk_locked := 0, sk_pid := 0 \<rparr> \<rparr>"

lemma unlocked_refcnt [simp]: "b_refcnt (unlocked b) = b_refcnt b"
  by (simp add: unlocked_def)

lemma lock_buf_free:
  assumes "calm p pid (io_ps s)" and "lock_free (sk_lk (b_lock (io_buf s i)))" and "sk_locked (b_lock (io_buf s i)) = 0"
  shows "\<exists>ps'. lock_buf i s = Inr (s \<lparr> io_ps := ps', io_buf := (io_buf s)(i := locked_by pid (io_buf s i)) \<rparr>) \<and>
    quiet p pid (io_ps s) ps'"
proof -
  obtain ps' where "acquiresleep (b_lock (io_buf s i)) (io_ps s) = Inr ((b_lock (io_buf s i)) \<lparr> sk_locked := 1, sk_pid := pid \<rparr>, ps')"
      "quiet p pid (io_ps s) ps'"
    using acquiresleep_calm [OF assms] by blast
  then show ?thesis by (intro exI [of _ ps']) (simp add: lock_buf_def upd_buf_def locked_by_def)
qed

lemma unlock_buf_held:
  assumes "calm p pid (io_ps s)" and "lock_free (sk_lk (b_lock (io_buf s i)))"
  shows "\<exists>ps'. unlock_buf i s = Inr (s \<lparr> io_ps := ps', io_buf := (io_buf s)(i := unlocked (io_buf s i)) \<rparr>) \<and>
    quiet p pid (io_ps s) ps'"
proof -
  obtain ps' where "releasesleep (BufChan i) (b_lock (io_buf s i)) (io_ps s) = Inr ((b_lock (io_buf s i)) \<lparr> sk_locked := 0, sk_pid := 0 \<rparr>, ps')"
      "quiet p pid (io_ps s) ps'"
    using releasesleep_calm [OF assms] by blast
  then show ?thesis by (intro exI [of _ ps']) (simp add: unlock_buf_def upd_buf_def unlocked_def)
qed

lemma holding_buf_held:
  assumes "calm p pid (io_ps s)" and "lock_free (sk_lk (b_lock (io_buf s i)))" and "sk_locked (b_lock (io_buf s i)) = 1"
    and "sk_pid (b_lock (io_buf s i)) = pid"
  shows "\<exists>ps'. holding_buf i s = Inr (True, s \<lparr> io_ps := ps' \<rparr>) \<and> quiet p pid (io_ps s) ps'"
proof -
  obtain ps' where "holdingsleep (b_lock (io_buf s i)) (io_ps s) = Inr (True, b_lock (io_buf s i), ps')" "quiet p pid (io_ps s) ps'"
    using holdingsleep_calm [OF assms(1,2) _ assms(4)] assms(3) by fastforce
  then show ?thesis by (intro exI [of _ ps']) (simp add: holding_buf_def upd_buf_def)
qed

section \<open>Reading a block\<close>

lemma find_in: "find Q xs = Some i \<Longrightarrow> i \<in> set xs \<and> Q i"
  by (induction xs) (auto split: if_splits)

lemma find_unique:
  assumes "i \<in> set xs" and "Q i" and "\<And>j. j \<in> set xs \<Longrightarrow> Q j \<Longrightarrow> j = i"
  shows "find Q xs = Some i"
proof (cases "find Q xs")
  case None
  then show ?thesis using assms(1,2) by (auto simp: find_None)
next
  case (Some j)
  then have "j \<in> set xs" "Q j" by (auto dest: find_in)
  then show ?thesis using Some assms(3) [of j] by simp
qed

lemma bc_parts:
  assumes "bc p pid d V P H s"
  shows "calm p pid (io_ps s)" "lock_free (io_lock s)" "bufs_ok pid d (io_disk s) V P H (io_buf s)"
  using assms by (simp_all add: bc_def)

lemma bc_intro:
  assumes "bc p pid d V P H s" and "calm p pid q" and "bufs_ok pid d (io_disk s) V' P' H' B"
    and "\<And>j. b_next (B j) = b_next (io_buf s j)" and "\<And>j. b_prev (B j) = b_prev (io_buf s j)"
  shows "bc p pid d V' P' H' (s \<lparr> io_ps := q, io_buf := B \<rparr>)"
proof -
  obtain xs where "ring (io_buf s) xs" using assms(1) by (auto simp: bc_def)
  then have "ring B xs" by (simp add: ring_def assms(4,5))
  then show ?thesis using assms(1-3) by (auto simp: bc_def)
qed

lemma bget_hit:
  assumes bc: "bc p pid d V P H s" and c: "cached (io_buf s) d b i" and h: "b \<notin> H"
  shows "\<exists>q. bget d b s = Inr (i, s \<lparr> io_ps := q, io_buf := (io_buf s)(i := locked_by pid ((io_buf s i) \<lparr> b_refcnt := b_refcnt (io_buf s i) + 1 \<rparr>)) \<rparr>) \<and>
    quiet p pid (io_ps s) q"
proof -
  note ok = bc_parts [OF bc] and cok = cached_ok [OF bc_parts(3) [OF bc] c]
  obtain Q L where acq: "acquire_bc s = Inr (s \<lparr> io_lock := L, io_ps := Q \<rparr>)"
    and rel: "\<And>B. \<exists>ps'. release_bc (s \<lparr> io_lock := L, io_ps := Q, io_buf := B \<rparr>) = Inr (s \<lparr> io_ps := ps', io_buf := B \<rparr>) \<and>
      quiet p pid (io_ps s) ps'"
    by (rule bc_section [OF ok(1,2)]) (rule that)
  obtain xs where xs: "ring (io_buf s) xs" using bc by (auto simp: bc_def)
  have find: "find (\<lambda>j. b_dev (io_buf s j) = d \<and> b_blockno (io_buf s j) = b) xs = Some i"
  proof (rule find_unique)
    show "i \<in> set xs" "b_dev (io_buf s i) = d \<and> b_blockno (io_buf s i) = b" using c xs by (simp_all add: cached_def ring_def)
    show "j = i" if "j \<in> set xs" "b_dev (io_buf s j) = d \<and> b_blockno (io_buf s j) = b" for j
      using cached_unique [OF ok(3) c, of j] that xs by (simp add: cached_def ring_def)
  qed
  let ?B = "(io_buf s)(i := (io_buf s i) \<lparr> b_refcnt := b_refcnt (io_buf s i) + 1 \<rparr>)"
  obtain q1 where q1: "release_bc (s \<lparr> io_lock := L, io_ps := Q, io_buf := ?B \<rparr>) = Inr (s \<lparr> io_ps := q1, io_buf := ?B \<rparr>)"
      "quiet p pid (io_ps s) q1"
    using rel [of ?B] by blast
  let ?s = "s \<lparr> io_ps := q1, io_buf := ?B \<rparr>"
  have pre: "calm p pid (io_ps ?s)" "lock_free (sk_lk (b_lock (io_buf ?s i)))" "sk_locked (b_lock (io_buf ?s i)) = 0"
    using quiet_calm [OF q1(2)] cok(4) cok(6) [OF h] by simp_all
  obtain q2 where q2: "lock_buf i ?s = Inr (?s \<lparr> io_ps := q2, io_buf := (io_buf ?s)(i := locked_by pid (io_buf ?s i)) \<rparr>)"
      "quiet p pid (io_ps ?s) q2"
    using lock_buf_free [OF pre] by blast
  have "quiet p pid (io_ps s) q2" using quiet_trans [OF q1(2)] q2(2) by simp
  then show ?thesis using acq q1(1) q2(1) by (intro exI [of _ q2]) (simp add: bget_def ring_scan [OF xs] find upd_buf_def)
qed

lemma bread_hit:
  assumes bc: "bc p pid d V P H s" and c: "cached (io_buf s) d b i" and h: "b \<notin> H" and P: "P b + 1 < 2 ^ 32"
  shows "\<exists>s'. bread d b s = Inr (i, s') \<and> io_to p pid s s' \<and> bc p pid d V (P(b := P b + 1)) (insert b H) s' \<and>
    cached (io_buf s') = cached (io_buf s)"
proof -
  note ok = bc_parts [OF bc] and cok = cached_ok [OF bc_parts(3) [OF bc] c]
  let ?b = "locked_by pid ((io_buf s i) \<lparr> b_refcnt := b_refcnt (io_buf s i) + 1 \<rparr>)" and ?B = "io_buf s"
  obtain q where q: "bget d b s = Inr (i, s \<lparr> io_ps := q, io_buf := ?B(i := ?b) \<rparr>)" "quiet p pid (io_ps s) q"
    using bget_hit [OF bc c h] by blast
  have n: "unat (b_refcnt (?B i) + 1) = P b + 1" using cok(3) P by (simp add: unat_add_no_wrap32)
  have i: "i < NBUF" "b_dev (?B i) = d" "b_blockno (?B i) = b" using c by (simp_all add: cached_def)
  have "buf_ok pid d (V(b := V b)) (P(b := P b + 1)) (insert b H) ?b"
    using i cok n by (simp add: buf_ok_def locked_by_def)
  then have "bufs_ok pid d (io_disk s) (V(b := V b)) (P(b := P b + 1)) (insert b H) (?B(i := ?b))"
    by (intro bufs_upd [OF ok(3) i(1) disjI1 [OF c]]) (simp_all add: locked_by_def i)
  then have "bufs_ok pid d (io_disk s) V (P(b := P b + 1)) (insert b H) (?B(i := ?b))" by (simp only: fun_upd_triv)
  then have new: "bc p pid d V (P(b := P b + 1)) (insert b H) (s \<lparr> io_ps := q, io_buf := ?B(i := ?b) \<rparr>)"
    by (rule bc_intro [OF bc quiet_calm [OF q(2)]]) (simp_all add: locked_by_def)
  have "cached (?B(i := ?b)) = cached ?B" by (intro ext) (auto simp: cached_def locked_by_def)
  then have same: "cached (io_buf (s \<lparr> io_ps := q, io_buf := ?B(i := ?b) \<rparr>)) = cached ?B" by simp
  have rd: "bread d b s = Inr (i, s \<lparr> io_ps := q, io_buf := ?B(i := ?b) \<rparr>)"
    using cok(1) by (simp add: bread_def q(1)) (simp add: locked_by_def)
  have to: "io_to p pid s (s \<lparr> io_ps := q, io_buf := ?B(i := ?b) \<rparr>)" by (rule io_toI [OF q(2)])
  show ?thesis by (intro exI conjI) (rule rd, rule to, rule new, rule same)
qed

text \<open>A block that is not cached takes the place of one that nobody refers to.\<close>

lemma free_slot:
  assumes ok: "bufs_ok pid d D V P H B" and few: "card {b. 0 < P b} < NBUF"
  shows "\<exists>i < NBUF. b_refcnt (B i) = 0"
proof (rule ccontr)
  assume none: "\<not> ?thesis"
  have pos: "b_dev (B i) = d \<and> 0 < P (b_blockno (B i))" if "i < NBUF" for i
  proof -
    have "buf_ok pid d V P H (B i)" "b_refcnt (B i) \<noteq> 0" using ok none that by (auto simp: bufs_ok_def)
    moreover from this(2) have "unat (b_refcnt (B i)) \<noteq> 0" by (simp add: unat_eq_0)
    ultimately show ?thesis by (auto simp: buf_ok_def split: if_splits)
  qed
  have fin: "finite {b. 0 < P b}" by simp
  have "inj_on (\<lambda>i. b_blockno (B i)) {..<NBUF}"
  proof (rule inj_onI)
    fix i j
    assume "i \<in> {..<NBUF}" "j \<in> {..<NBUF}" "b_blockno (B i) = b_blockno (B j)"
    then show "i = j" using pos [of i] pos [of j] cached_unique [OF ok, of "b_blockno (B i)" i j] by (simp add: cached_def)
  qed
  then have "NBUF = card ((\<lambda>i. b_blockno (B i)) ` {..<NBUF})" by (simp add: card_image)
  also have "\<dots> \<le> card {b. 0 < P b}" using pos by (intro card_mono fin) auto
  finally show False using few by simp
qed

lemma bget_miss:
  assumes bc: "bc p pid d V P H s" and c: "\<nexists>i. cached (io_buf s) d b i" and few: "card {b. 0 < P b} < NBUF"
  shows "\<exists>i q. i < NBUF \<and> b_refcnt (io_buf s i) = 0 \<and>
    bget d b s = Inr (i, s \<lparr> io_ps := q, io_buf := (io_buf s)(i := locked_by pid ((io_buf s i) \<lparr> b_dev := d, b_blockno := b, b_valid := False, b_refcnt := 1 \<rparr>)) \<rparr>) \<and>
    quiet p pid (io_ps s) q"
proof -
  note ok = bc_parts [OF bc]
  obtain Q L where acq: "acquire_bc s = Inr (s \<lparr> io_lock := L, io_ps := Q \<rparr>)"
    and rel: "\<And>B. \<exists>ps'. release_bc (s \<lparr> io_lock := L, io_ps := Q, io_buf := B \<rparr>) = Inr (s \<lparr> io_ps := ps', io_buf := B \<rparr>) \<and>
      quiet p pid (io_ps s) ps'"
    by (rule bc_section [OF ok(1,2)]) (rule that)
  obtain xs where xs: "ring (io_buf s) xs" using bc by (auto simp: bc_def)
  have f1: "find (\<lambda>j. b_dev (io_buf s j) = d \<and> b_blockno (io_buf s j) = b) xs = None"
    using c xs by (auto simp: find_None cached_def ring_def)
  have "find (\<lambda>j. b_refcnt (io_buf s j) = 0) (rev xs) \<noteq> None"
    using free_slot [OF ok(3) few] xs by (auto simp: find_None ring_def)
  then obtain i where f2: "find (\<lambda>j. b_refcnt (io_buf s j) = 0) (rev xs) = Some i" by blast
  then have i: "i < NBUF" "b_refcnt (io_buf s i) = 0" using xs find_in [OF f2] by (auto simp: ring_def)
  let ?B = "(io_buf s)(i := (io_buf s i) \<lparr> b_dev := d, b_blockno := b, b_valid := False, b_refcnt := 1 \<rparr>)"
  obtain q1 where q1: "release_bc (s \<lparr> io_lock := L, io_ps := Q, io_buf := ?B \<rparr>) = Inr (s \<lparr> io_ps := q1, io_buf := ?B \<rparr>)"
      "quiet p pid (io_ps s) q1"
    using rel [of ?B] by blast
  let ?s = "s \<lparr> io_ps := q1, io_buf := ?B \<rparr>"
  have "buf_ok pid d V P H (io_buf s i)" using ok(3) i by (simp add: bufs_ok_def)
  then have unl: "lock_free (sk_lk (b_lock (io_buf s i)))" "sk_locked (b_lock (io_buf s i)) = 0"
    using i ok(3) by (auto simp: buf_ok_def bufs_ok_def split: if_splits)
  then have pre: "calm p pid (io_ps ?s)" "lock_free (sk_lk (b_lock (io_buf ?s i)))" "sk_locked (b_lock (io_buf ?s i)) = 0"
    using quiet_calm [OF q1(2)] by simp_all
  obtain q2 where q2: "lock_buf i ?s = Inr (?s \<lparr> io_ps := q2, io_buf := (io_buf ?s)(i := locked_by pid (io_buf ?s i)) \<rparr>)"
      "quiet p pid (io_ps ?s) q2"
    using lock_buf_free [OF pre] by blast
  have "quiet p pid (io_ps s) q2" using quiet_trans [OF q1(2)] q2(2) by simp
  then show ?thesis using i acq q1(1) q2(1)
    by (intro exI [of _ i] exI [of _ q2]) (simp add: bget_def ring_scan [OF xs] f1 f2 upd_buf_def)
qed

lemma bread_miss:
  assumes bc: "bc p pid d V P H s" and c: "\<nexists>i. cached (io_buf s) d b i" and few: "card {b. 0 < P b} < NBUF"
  shows "\<exists>i s'. bread d b s = Inr (i, s') \<and> io_to p pid s s' \<and> bc p pid d V (P(b := P b + 1)) (insert b H) s' \<and>
    cached (io_buf s') d b i \<and> (\<forall>c j. 0 < P c \<and> cached (io_buf s) d c j \<longrightarrow> cached (io_buf s') d c j)"
proof -
  note ok = bc_parts [OF bc]
  let ?B = "io_buf s"
  obtain i q where i: "i < NBUF" "b_refcnt (?B i) = 0"
    and q: "bget d b s = Inr (i, s \<lparr> io_ps := q, io_buf := ?B(i := locked_by pid ((?B i) \<lparr> b_dev := d, b_blockno := b, b_valid := False, b_refcnt := 1 \<rparr>)) \<rparr>)"
      "quiet p pid (io_ps s) q"
    using bget_miss [OF bc c few] by blast
  let ?b = "(locked_by pid ((?B i) \<lparr> b_dev := d, b_blockno := b, b_valid := False, b_refcnt := 1 \<rparr>)) \<lparr> b_bytes := io_disk s b, b_valid := True \<rparr>"
  let ?s = "s \<lparr> io_ps := q, io_buf := ?B(i := ?b) \<rparr>"
  have "\<not> 0 < P b" using c ok(3) unfolding bufs_ok_def by blast
  then have Pb: "P b = 0" "V b = io_disk s b" using ok(3) by (simp_all add: bufs_ok_def)
  have "buf_ok pid d V P H (?B i)" using ok(3) i by (simp add: bufs_ok_def)
  then have "lock_free (sk_lk (b_lock (?B i)))" by (simp add: buf_ok_def)
  then have "buf_ok pid d (V(b := V b)) (P(b := P b + 1)) (insert b H) ?b"
    using Pb by (simp add: buf_ok_def locked_by_def)
  then have "bufs_ok pid d (io_disk s) (V(b := V b)) (P(b := P b + 1)) (insert b H) (?B(i := ?b))"
    by (intro bufs_upd [OF ok(3) i(1) disjI2]) (simp_all add: locked_by_def i c)
  then have "bufs_ok pid d (io_disk s) V (P(b := P b + 1)) (insert b H) (?B(i := ?b))" by (simp only: fun_upd_triv)
  then have new: "bc p pid d V (P(b := P b + 1)) (insert b H) ?s"
    by (rule bc_intro [OF bc quiet_calm [OF q(2)]]) (simp_all add: locked_by_def)
  have rd: "bread d b s = Inr (i, ?s)" by (simp add: bread_def q(1)) (simp add: locked_by_def disk_rw_def upd_buf_def Let_def)
  have to: "io_to p pid s ?s" by (rule io_toI [OF q(2)])
  have here: "cached (io_buf ?s) d b i" using i by (simp add: cached_def locked_by_def)
  have "cached (io_buf ?s) d c j" if "0 < P c" "cached ?B d c j" for c j
    using that i cached_ok(3) [OF ok(3) that(2)] by (auto simp: cached_def)
  then have others: "\<forall>c j. 0 < P c \<and> cached ?B d c j \<longrightarrow> cached (io_buf ?s) d c j" by blast
  show ?thesis by (intro exI conjI) (rule rd, rule to, rule new, rule here, rule others)
qed

text \<open>\<open>bread\<close> returns a locked buffer with the contents of the block.\<close>

lemma bread_ok:
  assumes bc: "bc p pid d V P H s" and h: "b \<notin> H" and room: "0 < P b \<or> card {b. 0 < P b} < NBUF" and P: "P b + 1 < 2 ^ 32"
  obtains i s' where "bread d b s = Inr (i, s')" and "io_to p pid s s'" and "bc p pid d V (P(b := P b + 1)) (insert b H) s'"
    and "cached (io_buf s') d b i" and "b_bytes (io_buf s' i) = V b"
    and "\<And>c j. 0 < P c \<Longrightarrow> cached (io_buf s) d c j \<Longrightarrow> cached (io_buf s') d c j"
proof -
  have data: "b_bytes (io_buf s' i) = V b" if "bc p pid d V (P(b := P b + 1)) (insert b H) s'" "cached (io_buf s') d b i" for i s'
    using cached_ok(2) [OF bc_parts(3) [OF that(1)] that(2)] .
  show thesis
  proof (cases "\<exists>i. cached (io_buf s) d b i")
    case True
    then obtain i where i: "cached (io_buf s) d b i" by blast
    obtain s' where s': "bread d b s = Inr (i, s')" "io_to p pid s s'" "bc p pid d V (P(b := P b + 1)) (insert b H) s'"
        "cached (io_buf s') = cached (io_buf s)"
      using bread_hit [OF bc i h P] by blast
    have i': "cached (io_buf s') d b i" using i s'(4) by simp
    show thesis by (rule that [OF s'(1-3) i' data [OF s'(3) i']]) (simp add: s'(4))
  next
    case False
    have "P b = 0" using False bc_parts(3) [OF bc] by (auto simp: bufs_ok_def)
    then have "card {b. 0 < P b} < NBUF" using room by simp
    then obtain i s' where s': "bread d b s = Inr (i, s')" "io_to p pid s s'" "bc p pid d V (P(b := P b + 1)) (insert b H) s'"
        "cached (io_buf s') d b i" "\<forall>c j. 0 < P c \<and> cached (io_buf s) d c j \<longrightarrow> cached (io_buf s') d c j"
      using bread_miss [OF bc False] by blast
    show thesis by (rule that [OF s'(1-4) data [OF s'(3,4)]]) (use s'(5) in blast)
  qed
qed

section \<open>The other operations\<close>

text \<open>Changing the data of a locked buffer.\<close>

lemma bc_data:
  assumes bc: "bc p pid d V P H s" and c: "cached (io_buf s) d b i" and h: "b \<in> H"
  shows "bc p pid d (V(b := x)) P H (upd_buf i (\<lambda>b. b \<lparr> b_bytes := x \<rparr>) s)"
proof -
  note ok = bc_parts [OF bc] and cok = cached_ok [OF bc_parts(3) [OF bc] c]
  have i: "i < NBUF" "b_dev (io_buf s i) = d" "b_blockno (io_buf s i) = b" using c by (simp_all add: cached_def)
  let ?B = "(io_buf s)(i := (io_buf s i) \<lparr> b_bytes := x \<rparr>)"
  have "0 < P b" by (rule held_pinned [OF ok(3) h])
  then have "bufs_ok pid d (io_disk s) (V(b := x)) (P(b := P b)) H ?B"
    by (intro bufs_upd [OF ok(3) i(1) disjI1 [OF c]]) (use i cok(1,3,4) cok(5) [OF h] h in \<open>simp_all add: buf_ok_def\<close>)
  then have "bc p pid d (V(b := x)) P H (s \<lparr> io_ps := io_ps s, io_buf := ?B \<rparr>)"
    by (intro bc_intro [OF bc ok(1)]) simp_all
  then show ?thesis by (simp add: upd_buf_def)
qed

lemma bwrite_ok:
  assumes bc: "bc p pid d V P H s" and c: "cached (io_buf s) d b i" and h: "b \<in> H"
  shows "\<exists>q. bwrite i s = Inr (s \<lparr> io_ps := q, io_disk := (io_disk s)(b := V b), io_writes := io_writes s @ [(b, V b)] \<rparr>) \<and>
    quiet p pid (io_ps s) q \<and>
    bc p pid d V P H (s \<lparr> io_ps := q, io_disk := (io_disk s)(b := V b), io_writes := io_writes s @ [(b, V b)] \<rparr>)"
proof -
  note ok = bc_parts [OF bc] and cok = cached_ok [OF bc_parts(3) [OF bc] c]
  obtain q where q: "holding_buf i s = Inr (True, s \<lparr> io_ps := q \<rparr>)" "quiet p pid (io_ps s) q"
    using holding_buf_held [OF ok(1) cok(4)] cok(5) [OF h] by blast
  have i: "b_blockno (io_buf s i) = b" using c by (simp add: cached_def)
  have "bufs_ok pid d ((io_disk s)(b := V b)) V P H (io_buf s)" using ok(3) by (simp add: bufs_ok_def)
  then have "bc p pid d V P H (s \<lparr> io_ps := q, io_disk := (io_disk s)(b := V b), io_writes := io_writes s @ [(b, V b)] \<rparr>)"
    using bc quiet_calm [OF q(2)] by (simp add: bc_def)
  then show ?thesis using q cok(2) i by (intro exI [of _ q]) (simp add: bwrite_def disk_rw_def Let_def)
qed

lemma unat_minus1:
  fixes w :: u32
  assumes "0 < unat w"
  shows "unat (w - 1) = unat w - 1"
  using assms by (intro unat_minus_one) auto

lemma drop_ref:
  assumes ok: "bufs_ok pid d D V P H B" and c: "cached B d b i" and pos: "0 < P b" and dirty: "2 \<le> P b \<or> V b = D b"
    and b': "b_dev b' = d" "b_blockno b' = b" "b_valid b'" "b_bytes b' = b_bytes (B i)" "b_refcnt b' = b_refcnt (B i) - 1"
      "lock_free (sk_lk (b_lock b'))"
    and lk: "if b \<in> H' then sk_locked (b_lock b') = 1 \<and> sk_pid (b_lock b') = pid else sk_locked (b_lock b') = 0"
    and H': "H' - {b} = H - {b}" "b \<in> H' \<Longrightarrow> 2 \<le> P b"
  shows "bufs_ok pid d D V (P(b := P b - 1)) H' (B(i := b'))"
proof -
  note cok = cached_ok [OF ok c]
  have i: "i < NBUF" using c by (simp add: cached_def)
  have "unat (b_refcnt b') = P b - 1" using unat_minus1 [of "b_refcnt (B i)"] cok(3) pos b'(5) by simp
  then have "buf_ok pid d (V(b := V b)) (P(b := P b - 1)) H' b'" using b' lk cok(2) by (simp add: buf_ok_def)
  then have "bufs_ok pid d D (V(b := V b)) (P(b := P b - 1)) H' (B(i := b'))"
    by (rule bufs_upd [OF ok i disjI1 [OF c] b'(1,2) _ H'(1)]) (use dirty pos H'(2) in auto)
  then show ?thesis by (simp only: fun_upd_triv)
qed

lemma to_front_ok:
  assumes "\<exists>xs. ring (io_buf s) xs" and "i < NBUF"
  shows "\<exists>xs. ring (io_buf (push_front i (unlink i s))) xs"
    and "push_front i (unlink i s) = s \<lparr> io_buf := io_buf (push_front i (unlink i s)) \<rparr>"
    and "bufs_ok pid d D V P H (io_buf (push_front i (unlink i s))) = bufs_ok pid d D V P H (io_buf s)"
    and "cached (io_buf (push_front i (unlink i s))) = cached (io_buf s)"
proof -
  show "\<exists>xs. ring (io_buf (push_front i (unlink i s))) xs" using assms to_front_ring by blast
  show "push_front i (unlink i s) = s \<lparr> io_buf := io_buf (push_front i (unlink i s)) \<rparr>"
    by (subst push_front_more, subst unlink_more) simp
  have "core (io_buf (push_front i (unlink i s)) j) = core (io_buf s j)" for j by (simp add: push_front_core unlink_core)
  then show "bufs_ok pid d D V P H (io_buf (push_front i (unlink i s))) = bufs_ok pid d D V P H (io_buf s)"
    and "cached (io_buf (push_front i (unlink i s))) = cached (io_buf s)"
    by (rule bufs_ok_core, rule cached_core)
qed

lemma maybe_front:
  assumes "\<exists>xs. ring (io_buf s) xs" and "i < NBUF"
    and t: "t = (if z then push_front i (unlink i s) else s)"
  shows "\<exists>xs. ring (io_buf t) xs" "bufs_ok pid d D V P H (io_buf t) = bufs_ok pid d D V P H (io_buf s)"
    "cached (io_buf t) = cached (io_buf s)" "t = s \<lparr> io_buf := io_buf t \<rparr>"
  unfolding t using assms(1) to_front_ok [OF assms(1,2)] by (cases z; simp)+

lemma brelse_ok:
  assumes bc: "bc p pid d V P H s" and c: "cached (io_buf s) d b i" and h: "b \<in> H" and dirty: "2 \<le> P b \<or> V b = io_disk s b"
  shows "\<exists>s'. brelse i s = Inr s' \<and> io_to p pid s s' \<and> bc p pid d V (P(b := P b - 1)) (H - {b}) s' \<and> cached (io_buf s') = cached (io_buf s)"
proof -
  note ok = bc_parts [OF bc] and cok = cached_ok [OF bc_parts(3) [OF bc] c]
  have i: "i < NBUF" "b_dev (io_buf s i) = d" "b_blockno (io_buf s i) = b" using c by (simp_all add: cached_def)
  obtain q1 where q1: "holding_buf i s = Inr (True, s \<lparr> io_ps := q1 \<rparr>)" "quiet p pid (io_ps s) q1"
    using holding_buf_held [OF ok(1) cok(4)] cok(5) [OF h] by blast
  let ?s1 = "s \<lparr> io_ps := q1 \<rparr>" and ?B1 = "(io_buf s)(i := unlocked (io_buf s i))"
  obtain q2 where q2: "unlock_buf i ?s1 = Inr (?s1 \<lparr> io_ps := q2, io_buf := ?B1 \<rparr>)" "quiet p pid q1 q2"
    using unlock_buf_held [of p pid ?s1 i] quiet_calm [OF q1(2)] cok(4) by auto
  let ?s2 = "s \<lparr> io_ps := q2, io_buf := ?B1 \<rparr>"
  have calm2: "calm p pid (io_ps ?s2)" "lock_free (io_lock ?s2)" using quiet_calm [OF q2(2)] ok(2) by simp_all
  obtain Q L where acq: "acquire_bc ?s2 = Inr (?s2 \<lparr> io_lock := L, io_ps := Q \<rparr>)"
    and rel: "\<And>B. \<exists>ps'. release_bc (?s2 \<lparr> io_lock := L, io_ps := Q, io_buf := B \<rparr>) = Inr (?s2 \<lparr> io_ps := ps', io_buf := B \<rparr>) \<and>
      quiet p pid (io_ps ?s2) ps'"
    by (rule bc_section [OF calm2]) (rule that)
  let ?b = "(unlocked (io_buf s i)) \<lparr> b_refcnt := b_refcnt (io_buf s i) - 1 \<rparr>"
  let ?B2 = "(io_buf s)(i := ?b)"
  let ?S = "?s2 \<lparr> io_lock := L, io_ps := Q, io_buf := ?B2 \<rparr>"
  let ?T = "if b_refcnt ?b = 0 then push_front i (unlink i ?S) else ?S"
  have "bufs_ok pid d (io_disk s) V (P(b := P b - 1)) (H - {b}) ?B2"
    by (rule drop_ref [OF ok(3) c held_pinned [OF ok(3) h] dirty]) (use i cok in \<open>simp_all add: unlocked_def\<close>)
  moreover obtain xs where "ring (io_buf s) xs" using bc by (auto simp: bc_def)
  then have "ring ?B2 xs" by (subst ring_links [where B = "io_buf s"]) (simp_all add: unlocked_def)
  moreover have "cached ?B2 = cached (io_buf s)" by (intro ext) (auto simp: cached_def unlocked_def)
  ultimately have S: "\<exists>xs. ring (io_buf ?S) xs" "bufs_ok pid d (io_disk s) V (P(b := P b - 1)) (H - {b}) (io_buf ?S)"
      "cached (io_buf ?S) = cached (io_buf s)"
    by auto
  have T: "\<exists>xs. ring (io_buf ?T) xs" "bufs_ok pid d (io_disk s) V (P(b := P b - 1)) (H - {b}) (io_buf ?T)"
      "cached (io_buf ?T) = cached (io_buf s)" "?T = ?S \<lparr> io_buf := io_buf ?T \<rparr>"
    using S(2,3) maybe_front [OF S(1) i(1), of ?T "b_refcnt ?b = 0", OF refl] by (simp_all only:)
  obtain q3 where q3: "release_bc (?s2 \<lparr> io_lock := L, io_ps := Q, io_buf := io_buf ?T \<rparr>) = Inr (?s2 \<lparr> io_ps := q3, io_buf := io_buf ?T \<rparr>)"
      "quiet p pid (io_ps ?s2) q3"
    using rel [of "io_buf ?T"] by blast
  let ?s' = "s \<lparr> io_ps := q3, io_buf := io_buf ?T \<rparr>"
  have "upd_buf i (\<lambda>b. b \<lparr> b_refcnt := b_refcnt b - 1 \<rparr>) (?s2 \<lparr> io_lock := L, io_ps := Q \<rparr>) = ?S"
    by (simp add: upd_buf_def unlocked_def)
  then have "brelse i s = release_bc ?T" using q1(1) q2(1) acq by (simp add: brelse_def Let_def)
  also have "?T = ?s2 \<lparr> io_lock := L, io_ps := Q, io_buf := io_buf ?T \<rparr>" by (subst T(4)) simp
  finally have rel': "brelse i s = Inr ?s'" using q3(1) by simp
  have q: "quiet p pid (io_ps s) q3" using quiet_trans [OF quiet_trans [OF q1(2) q2(2)]] q3(2) by simp
  have new: "bc p pid d V (P(b := P b - 1)) (H - {b}) ?s'" using T(1,2) quiet_calm [OF q] ok(2) by (simp add: bc_def)
  have same: "cached (io_buf ?s') = cached (io_buf s)" using T(3) by simp
  show ?thesis by (intro exI conjI) (rule rel', rule io_toI [OF q], rule new, rule same)
qed

lemma bpin_ok:
  assumes bc: "bc p pid d V P H s" and c: "cached (io_buf s) d b i" and pos: "0 < P b" and P: "P b + 1 < 2 ^ 32"
  shows "\<exists>s'. bpin i s = Inr s' \<and> io_to p pid s s' \<and> bc p pid d V (P(b := P b + 1)) H s' \<and> cached (io_buf s') = cached (io_buf s)"
proof -
  note ok = bc_parts [OF bc] and cok = cached_ok [OF bc_parts(3) [OF bc] c]
  have i: "i < NBUF" "b_dev (io_buf s i) = d" "b_blockno (io_buf s i) = b" using c by (simp_all add: cached_def)
  obtain Q L where acq: "acquire_bc s = Inr (s \<lparr> io_lock := L, io_ps := Q \<rparr>)"
    and rel: "\<And>B. \<exists>ps'. release_bc (s \<lparr> io_lock := L, io_ps := Q, io_buf := B \<rparr>) = Inr (s \<lparr> io_ps := ps', io_buf := B \<rparr>) \<and>
      quiet p pid (io_ps s) ps'"
    by (rule bc_section [OF ok(1,2)]) (rule that)
  let ?b = "(io_buf s i) \<lparr> b_refcnt := b_refcnt (io_buf s i) + 1 \<rparr>"
  let ?B = "(io_buf s)(i := ?b)"
  obtain q where q: "release_bc (s \<lparr> io_lock := L, io_ps := Q, io_buf := ?B \<rparr>) = Inr (s \<lparr> io_ps := q, io_buf := ?B \<rparr>)"
      "quiet p pid (io_ps s) q"
    using rel [of ?B] by blast
  have n: "unat (b_refcnt (io_buf s i) + 1) = P b + 1" using cok(3) P by (simp add: unat_add_no_wrap32)
  have "buf_ok pid d (V(b := V b)) (P(b := P b + 1)) H ?b" using i cok n by (simp add: buf_ok_def)
  then have "bufs_ok pid d (io_disk s) (V(b := V b)) (P(b := P b + 1)) H ?B"
    by (intro bufs_upd [OF ok(3) i(1) disjI1 [OF c]]) (simp_all add: i)
  then have "bufs_ok pid d (io_disk s) V (P(b := P b + 1)) H ?B" by (simp only: fun_upd_triv)
  then have new: "bc p pid d V (P(b := P b + 1)) H (s \<lparr> io_ps := q, io_buf := ?B \<rparr>)"
    by (rule bc_intro [OF bc quiet_calm [OF q(2)]]) simp_all
  have pin: "bpin i s = Inr (s \<lparr> io_ps := q, io_buf := ?B \<rparr>)" using acq q(1) by (simp add: bpin_def upd_buf_def)
  have same: "cached (io_buf (s \<lparr> io_ps := q, io_buf := ?B \<rparr>)) = cached (io_buf s)" by (intro ext) (auto simp: cached_def)
  show ?thesis by (intro exI conjI) (rule pin, rule io_toI [OF q(2)], rule new, rule same)
qed

lemma bunpin_ok:
  assumes bc: "bc p pid d V P H s" and c: "cached (io_buf s) d b i" and two: "2 \<le> P b"
  shows "\<exists>s'. bunpin i s = Inr s' \<and> io_to p pid s s' \<and> bc p pid d V (P(b := P b - 1)) H s' \<and> cached (io_buf s') = cached (io_buf s)"
proof -
  note ok = bc_parts [OF bc] and cok = cached_ok [OF bc_parts(3) [OF bc] c]
  have i: "i < NBUF" "b_dev (io_buf s i) = d" "b_blockno (io_buf s i) = b" using c by (simp_all add: cached_def)
  obtain Q L where acq: "acquire_bc s = Inr (s \<lparr> io_lock := L, io_ps := Q \<rparr>)"
    and rel: "\<And>B. \<exists>ps'. release_bc (s \<lparr> io_lock := L, io_ps := Q, io_buf := B \<rparr>) = Inr (s \<lparr> io_ps := ps', io_buf := B \<rparr>) \<and>
      quiet p pid (io_ps s) ps'"
    by (rule bc_section [OF ok(1,2)]) (rule that)
  let ?b = "(io_buf s i) \<lparr> b_refcnt := b_refcnt (io_buf s i) - 1 \<rparr>"
  let ?B = "(io_buf s)(i := ?b)"
  obtain q where q: "release_bc (s \<lparr> io_lock := L, io_ps := Q, io_buf := ?B \<rparr>) = Inr (s \<lparr> io_ps := q, io_buf := ?B \<rparr>)"
      "quiet p pid (io_ps s) q"
    using rel [of ?B] by blast
  have "0 < P b" "2 \<le> P b \<or> V b = io_disk s b" using two by simp_all
  then have "bufs_ok pid d (io_disk s) V (P(b := P b - 1)) H ?B"
    by (rule drop_ref [OF ok(3) c]) (use i cok two in simp_all)
  then have new: "bc p pid d V (P(b := P b - 1)) H (s \<lparr> io_ps := q, io_buf := ?B \<rparr>)"
    by (rule bc_intro [OF bc quiet_calm [OF q(2)]]) simp_all
  have pin: "bunpin i s = Inr (s \<lparr> io_ps := q, io_buf := ?B \<rparr>)" using acq q(1) by (simp add: bunpin_def upd_buf_def)
  have same: "cached (io_buf (s \<lparr> io_ps := q, io_buf := ?B \<rparr>)) = cached (io_buf s)" by (intro ext) (auto simp: cached_def)
  show ?thesis by (intro exI conjI) (rule pin, rule io_toI [OF q(2)], rule new, rule same)
qed

end
