(* ===== verification/Log_Disk.thy ===== *)
theory Log_Disk
  imports Log Bio_Cache
begin

text \<open>
  The log as it lies on disk: which blocks a header names, what a disk becomes when its log is replayed,
  and how a sequence of writes, cut off at any point, changes that.
\<close>

section \<open>Fields of a block\<close>

lemma length_put32 [simp]: "length (put32 off w d) = length d"
  by (simp add: put32_def)

lemma word_of_bytes:
  fixes w :: u32
  shows "ucast (ucast w :: u8) OR push_bit 8 (ucast (ucast (drop_bit 8 w) :: u8)) OR push_bit 16 (ucast (ucast (drop_bit 16 w) :: u8)) OR
    push_bit 24 (ucast (ucast (drop_bit 24 w) :: u8)) = w"
proof (rule bit_word_eqI)
  fix n
  assume "n < LENGTH(32)"
  then have n: "n < 32" by simp
  consider "n < 8" | "8 \<le> n" "n < 16" | "16 \<le> n" "n < 24" | "24 \<le> n" by linarith
  then show "bit (ucast (ucast w :: u8) OR push_bit 8 (ucast (ucast (drop_bit 8 w) :: u8)) OR
      push_bit 16 (ucast (ucast (drop_bit 16 w) :: u8)) OR push_bit 24 (ucast (ucast (drop_bit 24 w) :: u8)) :: u32) n = bit w n"
    using n by cases (auto simp: bit_simps)
qed

lemma get32_put32 [simp]:
  assumes "off + 3 < length d"
  shows "get32 off (put32 off w d) = w"
  using assms word_of_bytes [of w] by (simp add: get32_def put32_def)

lemma get32_put32_other:
  assumes "off' + 3 < off \<or> off + 3 < off'"
  shows "get32 off' (put32 off w d) = get32 off' d"
  using assms by (auto simp: get32_def put32_def)

text \<open>The number of logged blocks and their numbers, as a header gives them.\<close>

definition hdr_n :: "block \<Rightarrow> int" where "hdr_n h = sint (get32 lh_n h)"
definition hdr_b :: "block \<Rightarrow> nat \<Rightarrow> u32" where "hdr_b h i = get32 (lh_block i) h"

text \<open>The header block after \<open>write_head\<close>.\<close>

definition head_blocks :: "int list \<Rightarrow> nat \<Rightarrow> block \<Rightarrow> block" where
  "head_blocks bl n h = fold (\<lambda>i. put32 (lh_block i) (word_of_int (bl ! i))) [0..<n] h"

definition head_data :: "int list \<Rightarrow> int \<Rightarrow> block \<Rightarrow> block" where
  "head_data bl n h = head_blocks bl (nat n) (put32 lh_n (word_of_int n) h)"

lemma head_blocks_Suc: "head_blocks bl (Suc n) h = put32 (lh_block n) (word_of_int (bl ! n)) (head_blocks bl n h)"
  by (simp add: head_blocks_def)

lemma length_head_blocks [simp]: "length (head_blocks bl n h) = length h"
  by (induction n) (simp_all add: head_blocks_Suc, simp add: head_blocks_def)

lemma length_head_data [simp]: "length (head_data bl n h) = length h"
  by (simp add: head_data_def)

lemma head_blocks_n: "get32 lh_n (head_blocks bl n h) = get32 lh_n h"
  by (induction n) (simp_all add: head_blocks_Suc get32_put32_other lh_n_def lh_block_def, simp add: head_blocks_def)

lemma head_blocks_b:
  assumes "i < n" and "4 + 4 * n \<le> length h"
  shows "get32 (lh_block i) (head_blocks bl n h) = word_of_int (bl ! i)"
  using assms
proof (induction n)
  case (Suc n)
  show ?case
  proof (cases "i = n")
    case True
    then show ?thesis using Suc.prems by (simp add: head_blocks_Suc lh_block_def)
  next
    case False
    then have "get32 (lh_block i) (head_blocks bl (Suc n) h) = get32 (lh_block i) (head_blocks bl n h)"
      using Suc.prems by (simp add: head_blocks_Suc get32_put32_other lh_block_def)
    then show ?thesis using Suc False by simp
  qed
qed simp

lemma LOGSIZE_eq [simp]: "LOGSIZE = 30" and NBUF_eq: "NBUF = 30" and BSIZE_eq: "BSIZE = 1024"
  by (simp_all add: LOGSIZE_def NBUF_def BSIZE_def MAXOPBLOCKS_def)

lemma sint_small: "0 \<le> n \<Longrightarrow> n < 2 ^ 31 \<Longrightarrow> sint (word_of_int n :: u32) = n"
  by (simp add: sint_sbintrunc' signed_take_bit_int_eq_self)

lemma hdr_head_data:
  assumes "length h = BSIZE" and "0 \<le> n" and "n \<le> int LOGSIZE"
  shows "hdr_n (head_data bl n h) = n" and "i < nat n \<Longrightarrow> hdr_b (head_data bl n h) i = word_of_int (bl ! i)"
proof -
  show "hdr_n (head_data bl n h) = n"
    unfolding hdr_n_def head_data_def head_blocks_n using assms by (simp add: BSIZE_eq lh_n_def sint_small)
  assume "i < nat n"
  then show "hdr_b (head_data bl n h) i = word_of_int (bl ! i)"
    using assms by (simp add: hdr_b_def head_data_def head_blocks_b BSIZE_eq)
qed

section \<open>Sequences of writes\<close>

definition apply_writes :: "(u32 \<times> block) list \<Rightarrow> (u32 \<Rightarrow> block) \<Rightarrow> (u32 \<Rightarrow> block)" where
  "apply_writes ws D = fold (\<lambda>(b, x) D. D(b := x)) ws D"

lemma apply_writes_simps [simp]:
  "apply_writes [] D = D" "apply_writes ((b, x) # ws) D = apply_writes ws (D(b := x))"
  "apply_writes (vs @ ws) D = apply_writes ws (apply_writes vs D)"
  by (simp_all add: apply_writes_def)

lemma apply_writes_other: "b \<notin> fst ` set ws \<Longrightarrow> apply_writes ws D b = D b"
  by (induction ws arbitrary: D) auto

lemma apply_writes_key:
  assumes "distinct (map fst ws)" and "(b, x) \<in> set ws"
  shows "apply_writes ws D b = x"
  using assms
proof (induction ws arbitrary: D)
  case (Cons w ws)
  show ?case
  proof (cases "w = (b, x)")
    case True
    then have "b \<notin> fst ` set ws" using Cons.prems(1) by (auto simp: image_iff)
    then show ?thesis using True by (simp add: apply_writes_other)
  next
    case False
    then show ?thesis using Cons by (cases w) auto
  qed
qed simp

lemma apply_writes_len: "\<forall>(b, x) \<in> set ws. length x = n \<Longrightarrow> \<forall>b. length (D b) = n \<Longrightarrow> length (apply_writes ws D b) = n"
  by (induction ws arbitrary: D) auto

text \<open>Writes to the blocks \<open>k 0, k 1, \<dots>\<close>.\<close>

definition writes_to :: "(nat \<Rightarrow> u32) \<Rightarrow> (nat \<Rightarrow> block) \<Rightarrow> nat \<Rightarrow> (u32 \<times> block) list" where
  "writes_to k x n = map (\<lambda>i. (k i, x i)) [0..<n]"

lemma writes_to_Suc: "writes_to k x (Suc n) = writes_to k x n @ [(k n, x n)]"
  by (simp add: writes_to_def)

lemma length_writes_to [simp]: "length (writes_to k x n) = n"
  by (simp add: writes_to_def)

lemma take_writes_to: "m \<le> n \<Longrightarrow> take m (writes_to k x n) = writes_to k x m"
  by (simp add: writes_to_def take_map)

lemma writes_to_other: "\<forall>i < n. k i \<noteq> b \<Longrightarrow> apply_writes (writes_to k x n) D b = D b"
  by (rule apply_writes_other) (auto simp: writes_to_def)

lemma writes_to_key:
  assumes "inj_on k {..<n}" and "i < n"
  shows "apply_writes (writes_to k x n) D (k i) = x i"
proof (rule apply_writes_key)
  show "distinct (map fst (writes_to k x n))"
    using assms(1) by (simp add: writes_to_def distinct_map comp_def atLeast0LessThan)
  show "(k i, x i) \<in> set (writes_to k x n)" using assms(2) by (auto simp: writes_to_def)
qed

lemma writes_to_len: "\<forall>i < n. length (x i) = m \<Longrightarrow> \<forall>b. length (D b) = m \<Longrightarrow> length (apply_writes (writes_to k x n) D b) = m"
  by (rule apply_writes_len) (auto simp: writes_to_def)

section \<open>Replaying a log\<close>

text \<open>Block \<open>k\<close> of the log; block 0 is the header.\<close>

definition lbn :: "int \<Rightarrow> nat \<Rightarrow> u32" where
  "lbn st k = word_of_int (st + int k)"

definition log_area :: "int \<Rightarrow> u32 set" where
  "log_area st = lbn st ` {..LOGSIZE}"

text \<open>A header a committed or an empty log can have.\<close>

definition log_valid :: "int \<Rightarrow> (u32 \<Rightarrow> block) \<Rightarrow> bool" where
  "log_valid st D \<longleftrightarrow> 0 \<le> hdr_n (D (lbn st 0)) \<and> hdr_n (D (lbn st 0)) \<le> int LOGSIZE \<and>
     inj_on (hdr_b (D (lbn st 0))) {..<nat (hdr_n (D (lbn st 0)))} \<and>
     (\<forall>i < nat (hdr_n (D (lbn st 0))). hdr_b (D (lbn st 0)) i \<notin> log_area st)"

definition replay :: "int \<Rightarrow> (u32 \<Rightarrow> block) \<Rightarrow> (u32 \<Rightarrow> block)" where
  "replay st D = apply_writes (writes_to (hdr_b (D (lbn st 0))) (\<lambda>i. D (lbn st (i + 1))) (nat (hdr_n (D (lbn st 0))))) D"

definition good_start :: "int \<Rightarrow> bool" where
  "good_start st \<longleftrightarrow> 0 \<le> st \<and> st + 31 < 2 ^ 31"

lemma lbn_eq:
  assumes "good_start st" and "i \<le> LOGSIZE" and "j \<le> LOGSIZE"
  shows "lbn st i = lbn st j \<longleftrightarrow> i = j"
proof -
  have "sint (lbn st k) = st + int k" if "k \<le> LOGSIZE" for k
    unfolding lbn_def by (rule sint_small) (use assms(1) that in \<open>auto simp: good_start_def\<close>)
  then show ?thesis using assms(2,3) by (metis add_left_cancel of_nat_eq_iff)
qed

lemma lbn_in: "k \<le> LOGSIZE \<Longrightarrow> lbn st k \<in> log_area st"
  by (simp add: log_area_def)

lemma replay_empty: "hdr_n (D (lbn st 0)) = 0 \<Longrightarrow> log_valid st D \<and> replay st D = D"
  by (simp add: log_valid_def replay_def writes_to_def)

text \<open>What replaying gives, block by block.\<close>

lemma replay_logged:
  assumes "log_valid st D" and "i < nat (hdr_n (D (lbn st 0)))"
  shows "replay st D (hdr_b (D (lbn st 0)) i) = D (lbn st (i + 1))"
  unfolding replay_def using assms by (subst writes_to_key) (auto simp: log_valid_def)

lemma replay_other:
  assumes "\<forall>i < nat (hdr_n (D (lbn st 0))). hdr_b (D (lbn st 0)) i \<noteq> b"
  shows "replay st D b = D b"
  unfolding replay_def using assms by (rule writes_to_other)

text \<open>Two disks with the same log that differ only in blocks the log names replay to the same.\<close>

lemma replay_cong:
  assumes v: "log_valid st D" and area: "\<And>b. b \<in> log_area st \<Longrightarrow> D' b = D b"
    and rest: "\<And>b. \<forall>i < nat (hdr_n (D (lbn st 0))). hdr_b (D (lbn st 0)) i \<noteq> b \<Longrightarrow> D' b = D b"
  shows "log_valid st D'" and "replay st D' b = replay st D b"
proof -
  have h: "D' (lbn st 0) = D (lbn st 0)" by (rule area) (simp add: lbn_in)
  show v': "log_valid st D'" using v by (simp add: log_valid_def h)
  show "replay st D' b = replay st D b"
  proof (cases "\<exists>i < nat (hdr_n (D (lbn st 0))). hdr_b (D (lbn st 0)) i = b")
    case True
    then obtain i where i: "i < nat (hdr_n (D (lbn st 0)))" and b: "hdr_b (D (lbn st 0)) i = b" by blast
    have "i < LOGSIZE" using i v unfolding log_valid_def LOGSIZE_eq by linarith
    then have "D' (lbn st (i + 1)) = D (lbn st (i + 1))" by (intro area lbn_in) simp
    then show ?thesis using replay_logged [OF v i] replay_logged [OF v', of i] i b by (simp add: h)
  next
    case False
    then show ?thesis using rest [of b] replay_other [of D st b] replay_other [of D' st b] by (simp add: h)
  qed
qed

section \<open>Crashes\<close>

text \<open>A crash during recovery: the disk still replays to the same contents.\<close>

lemma recover_prefix:
  assumes v: "log_valid st D" and h0: "hdr_n h0 = 0"
  defines "ws \<equiv> writes_to (hdr_b (D (lbn st 0))) (\<lambda>i. D (lbn st (i + 1))) (nat (hdr_n (D (lbn st 0)))) @ [(lbn st 0, h0)]"
  shows "log_valid st (apply_writes (take k ws) D) \<and>
    (\<forall>b. b \<notin> log_area st \<longrightarrow> replay st (apply_writes (take k ws) D) b = replay st D b)"
proof (cases "k \<le> nat (hdr_n (D (lbn st 0)))")
  case True
  let ?D = "apply_writes (writes_to (hdr_b (D (lbn st 0))) (\<lambda>i. D (lbn st (i + 1))) k) D"
  have "take k ws = writes_to (hdr_b (D (lbn st 0))) (\<lambda>i. D (lbn st (i + 1))) k" using True by (simp add: ws_def take_writes_to)
  moreover have "?D b = D b" if "b \<in> log_area st" for b
    by (rule writes_to_other) (use that True v in \<open>auto simp: log_valid_def\<close>)
  moreover have "?D b = D b" if "\<forall>i < nat (hdr_n (D (lbn st 0))). hdr_b (D (lbn st 0)) i \<noteq> b" for b
    by (rule writes_to_other) (use that True in auto)
  ultimately show ?thesis using replay_cong [OF v, of ?D] by auto
next
  case False
  then have "take k ws = ws" by (simp add: ws_def)
  then have D: "apply_writes (take k ws) D = (replay st D)(lbn st 0 := h0)" by (simp add: ws_def replay_def)
  have "b \<noteq> lbn st 0" if "b \<notin> log_area st" for b using that lbn_in [of 0 st] by auto
  then show ?thesis using replay_empty [of "(replay st D)(lbn st 0 := h0)" st] h0 unfolding D by auto
qed

text \<open>
  The writes of \<open>commit\<close>: the log blocks, the header, the home blocks, the empty header.  A crash after any
  of them leaves a disk that replays to the old or to the new contents.
\<close>

definition commit_writes :: "int \<Rightarrow> (nat \<Rightarrow> u32) \<Rightarrow> (u32 \<Rightarrow> block) \<Rightarrow> nat \<Rightarrow> block \<Rightarrow> block \<Rightarrow> (u32 \<times> block) list" where
  "commit_writes st bs V n h1 h0 =
    writes_to (\<lambda>i. lbn st (i + 1)) (\<lambda>i. V (bs i)) n @ [(lbn st 0, h1)] @ writes_to bs (\<lambda>i. V (bs i)) n @ [(lbn st 0, h0)]"

lemma commit_prefix:
  assumes st: "good_start st" and n: "n \<le> LOGSIZE" and inj: "inj_on bs {..<n}" and out: "\<forall>i < n. bs i \<notin> log_area st"
    and old: "hdr_n (D (lbn st 0)) = 0" and h1: "hdr_n h1 = int n" "\<forall>i < n. hdr_b h1 i = bs i" and h0: "hdr_n h0 = 0"
    and clean: "\<forall>b. b \<notin> log_area st \<and> b \<notin> bs ` {..<n} \<longrightarrow> V b = D b"
  shows "log_valid st (apply_writes (take k (commit_writes st bs V n h1 h0)) D) \<and>
    ((\<forall>b. b \<notin> log_area st \<longrightarrow> replay st (apply_writes (take k (commit_writes st bs V n h1 h0)) D) b = D b) \<or>
     (\<forall>b. b \<notin> log_area st \<longrightarrow> replay st (apply_writes (take k (commit_writes st bs V n h1 h0)) D) b = V b))"
proof -
  let ?l = "\<lambda>i. lbn st (i + 1)" and ?x = "\<lambda>i. V (bs i)" and ?W = "commit_writes st bs V n h1 h0"
  have l0: "?l i \<noteq> lbn st 0" if "i < n" for i using lbn_eq [OF st, of "i + 1" 0] that n by simp
  have bn: "b \<noteq> ?l i" "b \<noteq> lbn st 0" if "b \<notin> log_area st" "i < n" for b i
    using that n lbn_in [of "i + 1" st] lbn_in [of 0 st] by auto
  have b0: "b \<noteq> lbn st 0" if "b \<notin> log_area st" for b using that lbn_in [of 0 st] by auto
  have linj: "inj_on ?l {..<n}" using n by (intro inj_onI) (simp add: lbn_eq [OF st])
  let ?D1 = "(apply_writes (writes_to ?l ?x n) D)(lbn st 0 := h1)"
  have hd1: "?D1 (lbn st 0) = h1" by simp
  have logged: "?D1 (?l i) = V (bs i)" if "i < n" for i using writes_to_key [OF linj that] l0 [OF that] by simp
  have home: "?D1 b = D b" if "b \<notin> log_area st" for b
  proof -
    have "apply_writes (writes_to ?l ?x n) D b = D b" by (rule writes_to_other) (use bn(1) [OF that] in auto)
    then show ?thesis using b0 [OF that] by simp
  qed
  have v1: "log_valid st ?D1"
    unfolding log_valid_def hd1 using h1 n inj out by (auto simp: inj_on_def)
  have r1: "replay st ?D1 b = V b" if b: "b \<notin> log_area st" for b
  proof (cases "b \<in> bs ` {..<n}")
    case True
    then obtain i where i: "i < n" "b = bs i" by auto
    then show ?thesis using replay_logged [OF v1, of i] h1 logged [OF i(1)] unfolding hd1 by simp
  next
    case False
    then have "\<forall>i < n. hdr_b h1 i \<noteq> b" using h1(2) by auto
    then have "replay st ?D1 b = ?D1 b" by (intro replay_other) (use h1(1) hd1 in simp)
    then show ?thesis using home [OF b] clean b False by simp
  qed
  consider "k \<le> n" | "n < k" "k \<le> 2 * n + 1" | "2 * n + 1 < k" by linarith
  then show ?thesis
  proof cases
    case 1
    let ?D = "apply_writes (writes_to ?l ?x k) D"
    have W: "take k ?W = writes_to ?l ?x k" using 1 by (simp add: commit_writes_def take_writes_to)
    have "?D (lbn st 0) = D (lbn st 0)" by (rule writes_to_other) (use l0 1 in auto)
    then have "log_valid st ?D \<and> replay st ?D = ?D" using old by (intro replay_empty) simp
    moreover have "?D b = D b" if "b \<notin> log_area st" for b
    proof (rule writes_to_other, intro allI impI)
      fix i assume "i < k"
      then show "?l i \<noteq> b" using bn(1) [OF that, of i] 1 by simp
    qed
    ultimately show ?thesis unfolding W by auto
  next
    case 2
    let ?m = "k - n - 1"
    let ?D = "apply_writes (writes_to bs ?x ?m) ?D1"
    have W: "take k ?W = writes_to ?l ?x n @ [(lbn st 0, h1)] @ writes_to bs ?x ?m"
    proof -
      obtain m where k: "k = n + Suc m" "m \<le> n" by (rule that [of "k - n - 1"]) (use 2 in linarith)+
      then show ?thesis by (simp add: commit_writes_def take_writes_to)
    qed
    have m: "?m \<le> n" using 2 by simp
    have a: "?D b = ?D1 b" if "b \<in> log_area st" for b by (rule writes_to_other) (use that m out in auto)
    have r: "?D b = ?D1 b" if "\<forall>i < nat (hdr_n (?D1 (lbn st 0))). hdr_b (?D1 (lbn st 0)) i \<noteq> b" for b
      by (rule writes_to_other) (use that m h1 hd1 in auto)
    have "log_valid st ?D" "replay st ?D b = replay st ?D1 b" for b by (rule replay_cong [OF v1 a r]; assumption)+
    then show ?thesis unfolding W using r1 by simp
  next
    case 3
    let ?D = "(apply_writes (writes_to bs ?x n) ?D1)(lbn st 0 := h0)"
    have W: "take k ?W = ?W" using 3 by (simp add: commit_writes_def)
    have D: "apply_writes ?W D = ?D" by (simp add: commit_writes_def)
    have "log_valid st ?D \<and> replay st ?D = ?D" by (rule replay_empty) (simp add: h0)
    moreover have "?D b = V b" if b: "b \<notin> log_area st" for b
    proof (cases "b \<in> bs ` {..<n}")
      case True
      then obtain i where "i < n" "b = bs i" by auto
      then show ?thesis using writes_to_key [OF inj, of i] b0 [OF b] by simp
    next
      case False
      then have "apply_writes (writes_to bs ?x n) ?D1 b = ?D1 b" by (intro writes_to_other) auto
      then show ?thesis using home [OF b] clean b False b0 [OF b] by simp
    qed
    ultimately show ?thesis unfolding W D by simp
  qed
qed

end
