(* ===== verification/Log_Ops.thy ===== *)
theory Log_Ops
  imports Log_Disk
begin

text \<open>
  What the functions of log.c do to the disk, as sequences of writes, and to the cache.
\<close>

section \<open>Runs\<close>

definition io_run :: "nat \<Rightarrow> int \<Rightarrow> (u32 \<times> block) list \<Rightarrow> 'a io_scheme \<Rightarrow> 'a io_scheme \<Rightarrow> bool" where
  "io_run p pid ws s s' \<longleftrightarrow> (\<exists>q B. s' = s \<lparr> io_ps := q, io_buf := B, io_disk := apply_writes ws (io_disk s), io_writes := io_writes s @ ws \<rparr> \<and>
     quiet p pid (io_ps s) q)"

lemma io_run_to: "io_to p pid s s' \<Longrightarrow> io_run p pid [] s s'"
  by (auto simp: io_to_def io_run_def)

lemma io_run_trans: "io_run p pid vs s s' \<Longrightarrow> io_run p pid ws s' s'' \<Longrightarrow> io_run p pid (vs @ ws) s s''"
  unfolding io_run_def by (elim exE conjE) (force intro: quiet_trans)

lemma io_run_fields:
  assumes "io_run p pid ws s s'"
  shows "io_disk s' = apply_writes ws (io_disk s)" "io_writes s' = io_writes s @ ws" "io_lock s' = io_lock s"
    "quiet p pid (io_ps s) (io_ps s')"
  using assms by (auto simp: io_run_def)

lemma io_run_log:
  assumes "io_run p pid ws s s'"
  shows "lg_lock s' = lg_lock s" "lg_start s' = lg_start s" "lg_size s' = lg_size s" "lg_outstanding s' = lg_outstanding s"
    "lg_committing s' = lg_committing s" "lg_dev s' = lg_dev s" "lg_n s' = lg_n s" "lg_block s' = lg_block s"
    "logst.more s' = logst.more s"
  using assms by (auto simp: io_run_def)

lemma io_run_upd: "calm p pid (io_ps s) \<Longrightarrow> io_run p pid [] s (upd_buf i f s)"
  unfolding io_run_def upd_buf_def by (intro exI [of _ "io_ps s"] exI [of _ "(io_buf s)(i := f (io_buf s i))"]) (simp add: quiet_refl)

lemma bwrite_run:
  assumes "bc p pid d V P H s" and "cached (io_buf s) d b i" and "b \<in> H"
  shows "\<exists>s'. bwrite i s = Inr s' \<and> io_run p pid [(b, V b)] s s' \<and> bc p pid d V P H s' \<and> io_buf s' = io_buf s"
proof -
  obtain q where q: "bwrite i s = Inr (s \<lparr> io_ps := q, io_disk := (io_disk s)(b := V b), io_writes := io_writes s @ [(b, V b)] \<rparr>)"
      "quiet p pid (io_ps s) q"
      "bc p pid d V P H (s \<lparr> io_ps := q, io_disk := (io_disk s)(b := V b), io_writes := io_writes s @ [(b, V b)] \<rparr>)"
    using bwrite_ok [OF assms] by blast
  let ?s = "s \<lparr> io_ps := q, io_disk := (io_disk s)(b := V b), io_writes := io_writes s @ [(b, V b)] \<rparr>"
  have "io_run p pid [(b, V b)] s ?s"
    unfolding io_run_def by (intro exI [of _ q] exI [of _ "io_buf s"]) (simp add: q(2))
  then show ?thesis using q by (intro exI [of _ ?s]) simp
qed

lemma copy_block_ok:
  assumes bc: "bc p pid d V P H s" and i: "cached (io_buf s) d b i" "b \<in> H" and j: "cached (io_buf s) d c j"
    and V: "\<forall>b. length (V b) = BSIZE"
  shows "bc p pid d (V(b := V c)) P H (copy_block i j s)" and "cached (io_buf (copy_block i j s)) = cached (io_buf s)"
    and "io_run p pid [] s (copy_block i j s)"
proof -
  have "b_bytes (io_buf s i) = V b" "b_bytes (io_buf s j) = V c"
    using cached_ok(2) [OF bc_parts(3) [OF bc]] i(1) j by blast+
  then have "copy_block i j s = upd_buf i (\<lambda>b. b \<lparr> b_bytes := V c \<rparr>) s" using V by (simp add: copy_block_def upd_buf_def)
  then show "bc p pid d (V(b := V c)) P H (copy_block i j s)" using bc_data [OF bc i] by simp
  show "cached (io_buf (copy_block i j s)) = cached (io_buf s)" by (intro ext) (auto simp: copy_block_def cached_def)
  show "io_run p pid [] s (copy_block i j s)" unfolding copy_block_def by (rule io_run_upd [OF bc_parts(1) [OF bc]])
qed

section \<open>One iteration\<close>

lemma pinned_card:
  fixes P :: "u32 \<Rightarrow> nat"
  shows "card {x. 0 < (P(b := n)) x} \<le> Suc (card {x. 0 < P x})"
proof -
  have "{x. 0 < (P(b := n)) x} \<subseteq> insert b {x. 0 < P x}" by auto
  then have "card {x. 0 < (P(b := n)) x} \<le> card (insert b {x. 0 < P x})" by (intro card_mono) simp_all
  then show ?thesis using card_insert_le_m1 [of "Suc (card {x. 0 < P x})" "{x. 0 < P x}" b] by simp
qed

text \<open>Both loops read block \<open>l\<close> of the log and home block \<open>b\<close>.\<close>

lemma two_breads:
  assumes bc: "bc p pid d V P {} s" and d: "word_of_int (lg_dev s) = d" and t: "t < LOGSIZE"
    and l: "l = lbn (lg_start s) (t + 1)" and b: "b = word_of_int (lg_block s ! t)" and ne: "l \<noteq> b"
    and Pl: "P l = 0" and room: "card {x. 0 < P x} + (if 0 < P b then 1 else 2) \<le> NBUF" and small: "P b + 1 < 2 ^ 32"
  obtains i j s1 s2 where "log_bread (lg_start s + int t + 1) s = Inr (i, s1)" and "log_block t s1 = Inr (lg_block s ! t)"
    and "log_bread (lg_block s ! t) s1 = Inr (j, s2)" and "io_run p pid [] s s2"
    and "bc p pid d V (P(l := 1, b := P b + 1)) {b, l} s2" and "cached (io_buf s2) d l i" and "cached (io_buf s2) d b j"
proof -
  have c1: "card {x. 0 < P x} < NBUF" using room by (auto split: if_splits)
  have s1P: "P l + 1 < 2 ^ 32" using Pl by simp
  obtain i s1 where 1: "bread d l s = Inr (i, s1)" "io_to p pid s s1" "bc p pid d V (P(l := P l + 1)) (insert l {}) s1"
      "cached (io_buf s1) d l i"
    by (rule bread_ok [OF bc _ disjI2 [OF c1] s1P]) simp_all
  let ?P1 = "P(l := P l + 1)"
  have r2: "0 < ?P1 b \<or> card {x. 0 < ?P1 x} < NBUF"
  proof (cases "0 < P b")
    case False
    then have "card {x. 0 < P x} + 2 \<le> NBUF" using room by simp
    then show ?thesis using pinned_card [of P l "P l + 1"] by linarith
  qed (use ne in simp)
  have s2P: "?P1 b + 1 < 2 ^ 32" using small ne by simp
  have nb: "b \<notin> insert l {}" using ne by simp
  obtain j s2 where 2: "bread d b s1 = Inr (j, s2)" "io_to p pid s1 s2" "bc p pid d V (?P1(b := ?P1 b + 1)) (insert b (insert l {})) s2"
      "cached (io_buf s2) d b j" "\<And>c j. 0 < ?P1 c \<Longrightarrow> cached (io_buf s1) d c j \<Longrightarrow> cached (io_buf s2) d c j"
    by (rule bread_ok [OF 1(3) nb r2 s2P]) (rule that)
  have f: "lg_dev s1 = lg_dev s" "lg_block s1 = lg_block s" using io_run_log [OF io_run_to [OF 1(2)]] by simp_all
  show thesis
  proof (rule that)
    show "log_bread (lg_start s + int t + 1) s = Inr (i, s1)"
      using 1(1) unfolding log_bread_def l lbn_def d by (simp only: of_nat_add of_nat_1 add.assoc)
    show "log_block t s1 = Inr (lg_block s ! t)" using t f by (simp add: log_block_def)
    show "log_bread (lg_block s ! t) s1 = Inr (j, s2)" using 2(1) d f by (simp add: log_bread_def b)
    show "io_run p pid [] s s2" using io_run_trans [OF io_run_to [OF 1(2)] io_run_to [OF 2(2)]] by simp
    show "bc p pid d V (P(l := 1, b := P b + 1)) {b, l} s2" using 2(3) Pl ne by simp
    show "cached (io_buf s2) d l i" using 2(5) [OF _ 1(4)] by simp
    show "cached (io_buf s2) d b j" by (rule 2(4))
  qed
qed

lemma write_log1_ok:
  assumes bc: "bc p pid d V P {} s" and V: "\<forall>b. length (V b) = BSIZE" and d: "word_of_int (lg_dev s) = d" and t: "t < LOGSIZE"
    and l: "l = lbn (lg_start s) (t + 1)" and b: "b = word_of_int (lg_block s ! t)" and ne: "l \<noteq> b"
    and Pl: "P l = 0" and Pb: "P b = 1" and room: "card {x. 0 < P x} < NBUF"
  shows "\<exists>s'. write_log1 t s = Inr s' \<and> io_run p pid [(l, V b)] s s' \<and> bc p pid d (V(l := V b)) P {} s'"
proof -
  have room': "card {x. 0 < P x} + (if 0 < P b then 1 else 2) \<le> NBUF" "P b + 1 < 2 ^ 32" using room Pb by simp_all
  obtain i j s1 s2 where r: "log_bread (lg_start s + int t + 1) s = Inr (i, s1)" "log_block t s1 = Inr (lg_block s ! t)"
      "log_bread (lg_block s ! t) s1 = Inr (j, s2)" and run2: "io_run p pid [] s s2"
    and bc2: "bc p pid d V (P(l := 1, b := P b + 1)) {b, l} s2" and i: "cached (io_buf s2) d l i" and j: "cached (io_buf s2) d b j"
    by (rule two_breads [OF bc d t l b ne Pl room'])
  have lH: "l \<in> {b, l}" by simp
  note s3 = copy_block_ok [OF bc2 i lH j V]
  have i3: "cached (io_buf (copy_block i j s2)) d l i" and j3: "cached (io_buf (copy_block i j s2)) d b j" using i j s3(2) by simp_all
  obtain s4 where s4: "bwrite i (copy_block i j s2) = Inr s4" "io_run p pid [(l, V b)] (copy_block i j s2) s4"
      "bc p pid d (V(l := V b)) (P(l := 1, b := P b + 1)) {b, l} s4" "io_buf s4 = io_buf (copy_block i j s2)"
    using bwrite_run [OF s3(1) i3 lH] by auto
  have j4: "cached (io_buf s4) d b j" and i4: "cached (io_buf s4) d l i" using i3 j3 s4(4) by simp_all
  obtain s5 where s5: "brelse j s4 = Inr s5" "io_to p pid s4 s5"
      "bc p pid d (V(l := V b)) ((P(l := 1, b := P b + 1))(b := (P(l := 1, b := P b + 1)) b - 1)) ({b, l} - {b}) s5"
      "cached (io_buf s5) = cached (io_buf s4)"
    using brelse_ok [OF s4(3) j4] Pb by auto
  have H5: "l \<in> {b, l} - {b}" using ne by simp
  have i5: "cached (io_buf s5) d l i" using i4 s5(4) by simp
  have disk: "io_disk s5 l = V b" using io_run_fields(1) [OF s4(2)] io_to_fields(2) [OF s5(2)] by simp
  obtain s6 where s6: "brelse i s5 = Inr s6" "io_to p pid s5 s6"
      "bc p pid d (V(l := V b)) (P(l := 1, b := P b + 1, b := (P(l := 1, b := P b + 1)) b - 1, l := (P(l := 1, b := P b + 1, b := (P(l := 1, b := P b + 1)) b - 1)) l - 1)) ({b, l} - {b} - {l}) s6"
    using brelse_ok [OF s5(3) i5 H5] disk by auto
  have P: "P(l := 1, b := P b + 1, b := (P(l := 1, b := P b + 1)) b - 1, l := (P(l := 1, b := P b + 1, b := (P(l := 1, b := P b + 1)) b - 1)) l - 1) = P"
    using ne Pl by auto
  have H: "{b, l} - {b} - {l} = {}" by auto
  have "bc p pid d (V(l := V b)) P {} s6" using s6(3) unfolding P H by simp
  moreover have "io_run p pid [(l, V b)] s s6"
    using io_run_trans [OF run2 io_run_trans [OF s3(3) io_run_trans [OF s4(2) io_run_trans [OF io_run_to [OF s5(2)] io_run_to [OF s6(2)]]]]] by simp
  moreover have "write_log1 t s = Inr s6" using r s4(1) s5(1) s6(1) by (simp add: write_log1_def)
  ultimately show ?thesis by blast
qed

lemma install1_ok:
  assumes bc: "bc p pid d V P {} s" and V: "\<forall>b. length (V b) = BSIZE" and d: "word_of_int (lg_dev s) = d" and t: "t < LOGSIZE"
    and l: "l = lbn (lg_start s) (t + 1)" and b: "b = word_of_int (lg_block s ! t)" and ne: "l \<noteq> b"
    and Pl: "P l = 0" and Pb: "P b = (if rec then 0 else 1)" and room: "card {x. 0 < P x} + (if rec then 2 else 1) \<le> NBUF"
  shows "\<exists>s'. install1 rec t s = Inr s' \<and> io_run p pid [(b, V l)] s s' \<and> bc p pid d (V(b := V l)) (P(b := 0)) {} s'"
proof -
  let ?P2 = "P(l := 1, b := P b + 1)" and ?P3 = "P(l := 1, b := 1)" and ?V = "V(b := V l)"
  have room': "card {x. 0 < P x} + (if 0 < P b then 1 else 2) \<le> NBUF" "P b + 1 < 2 ^ 32" using room Pb by (auto split: if_splits)
  obtain i j s1 s2 where r: "log_bread (lg_start s + int t + 1) s = Inr (i, s1)" "log_block t s1 = Inr (lg_block s ! t)"
      "log_bread (lg_block s ! t) s1 = Inr (j, s2)" and run2: "io_run p pid [] s s2"
    and bc2: "bc p pid d V ?P2 {b, l} s2" and i: "cached (io_buf s2) d l i" and j: "cached (io_buf s2) d b j"
    by (rule two_breads [OF bc d t l b ne Pl room'])
  have bH: "b \<in> {b, l}" by simp
  note s3 = copy_block_ok [OF bc2 j bH i V]
  have i3: "cached (io_buf (copy_block j i s2)) d l i" and j3: "cached (io_buf (copy_block j i s2)) d b j" using i j s3(2) by simp_all
  obtain s4 where s4: "bwrite j (copy_block j i s2) = Inr s4" "io_run p pid [(b, V l)] (copy_block j i s2) s4"
      "bc p pid d ?V ?P2 {b, l} s4" "io_buf s4 = io_buf (copy_block j i s2)"
    using bwrite_run [OF s3(1) j3 bH] by auto
  have j4: "cached (io_buf s4) d b j" and i4: "cached (io_buf s4) d l i" using i3 j3 s4(4) by simp_all
  obtain s5 where s5: "(if rec then Inr s4 else bunpin j s4) = Inr s5" "io_to p pid s4 s5" "bc p pid d ?V ?P3 {b, l} s5"
      "cached (io_buf s5) = cached (io_buf s4)"
  proof (cases rec)
    case True
    have "io_to p pid s4 s4" using io_toI [OF quiet_refl [OF bc_parts(1) [OF s4(3)]], of "io_buf s4"] by simp
    then show thesis using that [of s4] s4(3) Pb True by simp
  next
    case False
    have two: "2 \<le> ?P2 b" "?P2(b := ?P2 b - 1) = ?P3" using Pb False by simp_all
    obtain s5 where "bunpin j s4 = Inr s5" "io_to p pid s4 s5" "bc p pid d ?V (?P2(b := ?P2 b - 1)) {b, l} s5"
        "cached (io_buf s5) = cached (io_buf s4)"
      using bunpin_ok [OF s4(3) j4 two(1)] by (elim exE conjE) (rule that)
    then show thesis using False unfolding two(2) by (intro that [of s5]) simp_all
  qed
  have i5: "cached (io_buf s5) d l i" and j5: "cached (io_buf s5) d b j" using i4 j4 s5(4) by simp_all
  have "V l = io_disk s l" using bc_parts(3) [OF bc] Pl by (simp add: bufs_ok_def)
  then have disk: "io_disk s5 l = ?V l" "io_disk s5 b = V l"
    using io_run_fields(1) [OF s4(2)] io_run_fields(1) [OF s3(3)] io_run_fields(1) [OF run2] io_to_fields(2) [OF s5(2)] ne by simp_all
  have lH: "l \<in> {b, l}" by simp
  obtain s6 where s6: "brelse i s5 = Inr s6" "io_to p pid s5 s6" "bc p pid d ?V (?P3(l := ?P3 l - 1)) ({b, l} - {l}) s6"
      "cached (io_buf s6) = cached (io_buf s5)"
    using brelse_ok [OF s5(3) i5 lH disjI2 [OF disk(1) [symmetric]]] by (elim exE conjE) (rule that)
  have j6: "cached (io_buf s6) d b j" and b6: "b \<in> {b, l} - {l}" using j5 s6(4) ne by simp_all
  have clean: "2 \<le> (?P3(l := ?P3 l - 1)) b \<or> ?V b = io_disk s6 b" using disk(2) io_to_fields(2) [OF s6(2)] by simp
  obtain s7 where s7: "brelse j s6 = Inr s7" "io_to p pid s6 s7"
      "bc p pid d ?V (?P3(l := ?P3 l - 1, b := (?P3(l := ?P3 l - 1)) b - 1)) ({b, l} - {l} - {b}) s7"
      "cached (io_buf s7) = cached (io_buf s6)"
    using brelse_ok [OF s6(3) j6 b6 clean] by (elim exE conjE) (rule that)
  have P: "?P3(l := ?P3 l - 1, b := (?P3(l := ?P3 l - 1)) b - 1) = P(b := 0)" and H: "{b, l} - {l} - {b} = {}"
    using ne Pl by auto
  have "bc p pid d ?V (P(b := 0)) {} s7" using s7(3) unfolding P H by simp
  moreover have "io_run p pid [(b, V l)] s s7"
    using io_run_trans [OF run2 io_run_trans [OF s3(3) io_run_trans [OF s4(2) io_run_trans [OF io_run_to [OF s5(2)]
          io_run_trans [OF io_run_to [OF s6(2)] io_run_to [OF s7(2)]]]]]] by simp
  moreover have "install1 rec t s = Inr s7" using r s4(1) s5(1) s6(1) s7(1) by (simp add: install1_def)
  ultimately show ?thesis by blast
qed

end
