(* ===== verification/Log_Run.thy ===== *)
theory Log_Run
  imports Log_Ops
begin

text \<open>
  The loops of log.c, the header, and the writes of a whole commit and of a whole recovery.
\<close>

section \<open>The log in memory\<close>

text \<open>The log starts at block \<open>st\<close> of device \<open>d\<close>, and its first \<open>n\<close> entries name the blocks \<open>bs\<close>.\<close>

definition log_at :: "u32 \<Rightarrow> int \<Rightarrow> (nat \<Rightarrow> u32) \<Rightarrow> nat \<Rightarrow> 'a logst_scheme \<Rightarrow> bool" where
  "log_at d st bs n s \<longleftrightarrow> word_of_int (lg_dev s) = d \<and> lg_start s = st \<and> good_start st \<and> n \<le> LOGSIZE \<and>
     length (lg_block s) = LOGSIZE \<and> inj_on bs {..<n} \<and> (\<forall>i < n. word_of_int (lg_block s ! i) = bs i \<and> bs i \<notin> log_area st)"

lemma log_at_run: "io_run p pid ws s s' \<Longrightarrow> log_at d st bs n s \<Longrightarrow> log_at d st bs n s'"
  by (simp add: log_at_def io_run_log)

lemma bc_log_fields [simp]:
  "bc p pid d V P H (s \<lparr> lg_n := x \<rparr>) = bc p pid d V P H s" "bc p pid d V P H (s \<lparr> lg_block := y \<rparr>) = bc p pid d V P H s"
  "bc p pid d V P H (s \<lparr> lg_outstanding := x \<rparr>) = bc p pid d V P H s" "bc p pid d V P H (s \<lparr> lg_committing := z \<rparr>) = bc p pid d V P H s"
  by (simp_all add: bc_def)

lemma log_at_n [simp]: "log_at d st bs n (s \<lparr> lg_n := x \<rparr>) = log_at d st bs n s"
  by (simp add: log_at_def)

section \<open>Loops\<close>

lemma upt_Suc_append0: "[0..<Suc m] = [0..<m] @ [m]"
  by simp

lemma write_log_loop:
  assumes at: "log_at d st bs n s" and bc: "bc p pid d V P {} s" and V: "\<forall>b. length (V b) = BSIZE"
    and Pb: "\<forall>i < n. P (bs i) = 1" and Pl: "\<forall>b \<in> log_area st. P b = 0" and room: "card {x. 0 < P x} < NBUF" and m: "m \<le> n"
  shows "\<exists>s'. foldE write_log1 [0..<m] s = Inr s' \<and> io_run p pid (writes_to (\<lambda>i. lbn st (i + 1)) (\<lambda>i. V (bs i)) m) s s' \<and>
    bc p pid d (apply_writes (writes_to (\<lambda>i. lbn st (i + 1)) (\<lambda>i. V (bs i)) m) V) P {} s'"
  using m
proof (induction m)
  case 0
  have "io_run p pid [] s s" using io_run_upd [OF bc_parts(1) [OF bc], of 0 "\<lambda>b. b"] by (simp add: upd_buf_def)
  then show ?case using bc by (simp add: writes_to_def)
next
  case (Suc m)
  let ?ws = "writes_to (\<lambda>i. lbn st (i + 1)) (\<lambda>i. V (bs i))"
  obtain s1 where s1: "foldE write_log1 [0..<m] s = Inr s1" "io_run p pid (?ws m) s s1" "bc p pid d (apply_writes (?ws m) V) P {} s1"
    using Suc by auto
  have m: "m < n" using Suc.prems by simp
  have at1: "log_at d st bs n s1" by (rule log_at_run [OF s1(2) at])
  have L: "m + 1 \<le> LOGSIZE" using m at by (simp add: log_at_def)
  have Vl: "\<forall>b. length (apply_writes (?ws m) V b) = BSIZE" using writes_to_len [of m "\<lambda>i. V (bs i)" BSIZE V] V by simp
  have out: "bs m \<notin> log_area st" using at m by (simp add: log_at_def)
  have ne: "lbn st (i + 1) \<noteq> bs m" if "i \<le> m" for i using out lbn_in [of "i + 1" st] that L by auto
  have Vb: "apply_writes (?ws m) V (bs m) = V (bs m)" by (rule writes_to_other) (use ne in auto)
  have "\<exists>s'. write_log1 m s1 = Inr s' \<and> io_run p pid [(lbn st (m + 1), apply_writes (?ws m) V (bs m))] s1 s' \<and>
      bc p pid d ((apply_writes (?ws m) V)(lbn st (m + 1) := apply_writes (?ws m) V (bs m))) P {} s'"
    by (rule write_log1_ok [OF s1(3) Vl]) (use at1 m L ne [of m] Pl Pb room lbn_in [of "m + 1" st] in \<open>simp_all add: log_at_def\<close>)
  then obtain s2 where s2: "write_log1 m s1 = Inr s2" "io_run p pid [(lbn st (m + 1), V (bs m))] s1 s2"
      "bc p pid d ((apply_writes (?ws m) V)(lbn st (m + 1) := V (bs m))) P {} s2"
    unfolding Vb by blast
  have "foldE write_log1 [0..<Suc m] s = Inr s2" unfolding upt_Suc_append0 foldE_append using s1(1) s2(1) by simp
  moreover have "io_run p pid (?ws (Suc m)) s s2" using io_run_trans [OF s1(2) s2(2)] by (simp only: writes_to_Suc)
  moreover have "bc p pid d (apply_writes (?ws (Suc m)) V) P {} s2" using s2(3) by (simp add: writes_to_Suc)
  ultimately show ?case by blast
qed

lemma install_loop:
  assumes at: "log_at d st bs n s" and bc: "bc p pid d V P {} s" and V: "\<forall>b. length (V b) = BSIZE"
    and Pb: "\<forall>i < n. P (bs i) = (if rec then 0 else 1)" and Pl: "\<forall>b \<in> log_area st. P b = 0"
    and room: "card {x. 0 < P x} + (if rec then 2 else 1) \<le> NBUF" and m: "m \<le> n"
  shows "\<exists>s'. foldE (install1 rec) [0..<m] s = Inr s' \<and> io_run p pid (writes_to bs (\<lambda>i. V (lbn st (i + 1))) m) s s' \<and>
    bc p pid d (apply_writes (writes_to bs (\<lambda>i. V (lbn st (i + 1))) m) V) (\<lambda>b. if b \<in> bs ` {..<m} then 0 else P b) {} s'"
  using m
proof (induction m)
  case 0
  have "io_run p pid [] s s" using io_run_upd [OF bc_parts(1) [OF bc], of 0 "\<lambda>b. b"] by (simp add: upd_buf_def)
  then show ?case using bc by (simp add: writes_to_def)
next
  case (Suc m)
  let ?ws = "writes_to bs (\<lambda>i. V (lbn st (i + 1)))" and ?P = "\<lambda>m b. if b \<in> bs ` {..<m} then 0 else P b"
  let ?l = "lbn st (m + 1)"
  obtain s1 where s1: "foldE (install1 rec) [0..<m] s = Inr s1" "io_run p pid (?ws m) s s1"
      "bc p pid d (apply_writes (?ws m) V) (?P m) {} s1"
    using Suc by auto
  have m: "m < n" using Suc.prems by simp
  have at1: "log_at d st bs n s1" by (rule log_at_run [OF s1(2) at])
  have L: "m + 1 \<le> LOGSIZE" using m at by (simp add: log_at_def)
  have Vl: "\<forall>b. length (apply_writes (?ws m) V b) = BSIZE" using writes_to_len [of m "\<lambda>i. V (lbn st (i + 1))" BSIZE V] V by simp
  have out: "bs i \<notin> log_area st" if "i \<le> m" for i using at m that by (simp add: log_at_def)
  have ne: "?l \<noteq> bs i" if "i \<le> m" for i using out [OF that] lbn_in [OF L, of st] by auto
  have Vb: "apply_writes (?ws m) V ?l = V ?l" by (rule writes_to_other) (use ne in \<open>auto simp: eq_commute\<close>)
  have inj: "inj_on bs {..<n}" using at by (simp add: log_at_def)
  have "bs m \<notin> bs ` {..<m}"
  proof
    assume "bs m \<in> bs ` {..<m}"
    then obtain x where "x < m" "bs m = bs x" by auto
    then show False using inj_onD [OF inj, of m x] m by simp
  qed
  then have Pm: "?P m (bs m) = (if rec then 0 else 1)" using Pb m by simp
  have Pm_l: "?P m ?l = 0" using Pl lbn_in [OF L, of st] by simp
  have "card {x. 0 < ?P m x} \<le> card {x. 0 < P x}" by (intro card_mono) auto
  then have roomm: "card {x. 0 < ?P m x} + (if rec then 2 else 1) \<le> NBUF" using room by simp
  have "\<exists>s'. install1 rec m s1 = Inr s' \<and> io_run p pid [(bs m, apply_writes (?ws m) V ?l)] s1 s' \<and>
      bc p pid d ((apply_writes (?ws m) V)(bs m := apply_writes (?ws m) V ?l)) ((?P m)(bs m := 0)) {} s'"
    by (rule install1_ok [OF s1(3) Vl _ _ _ _ _ Pm_l Pm roomm]) (use at1 m L ne [of m] in \<open>simp_all add: log_at_def\<close>)
  then obtain s2 where s2: "install1 rec m s1 = Inr s2" "io_run p pid [(bs m, V ?l)] s1 s2"
      "bc p pid d ((apply_writes (?ws m) V)(bs m := V ?l)) ((?P m)(bs m := 0)) {} s2"
    unfolding Vb by blast
  have P: "(?P m)(bs m := 0) = ?P (Suc m)" by (auto simp: lessThan_Suc)
  have "foldE (install1 rec) [0..<Suc m] s = Inr s2" unfolding upt_Suc_append0 foldE_append using s1(1) s2(1) by simp
  moreover have "io_run p pid (?ws (Suc m)) s s2" using io_run_trans [OF s1(2) s2(2)] by (simp only: writes_to_Suc)
  moreover have "bc p pid d (apply_writes (?ws (Suc m)) V) (?P (Suc m)) {} s2" using s2(3) unfolding P by (simp add: writes_to_Suc)
  ultimately show ?case by blast
qed

end
