(* ===== verification/Log_Commit.thy ===== *)
theory Log_Commit
  imports Log_Run
begin

text \<open>
  The header of the log and the writes of a whole commit and of a whole recovery.
\<close>

section \<open>The header\<close>

lemma write_head_loop:
  assumes "m \<le> LOGSIZE"
  shows "foldE (write_head1 i) [0..<m] s =
    Inr (upd_buf i (\<lambda>b. b \<lparr> b_bytes := head_blocks (lg_block s) m (b_bytes b) \<rparr>) s)"
  using assms
proof (induction m)
  case 0
  show ?case by (simp add: upd_buf_def head_blocks_def)
next
  case (Suc m)
  then have IH: "foldE (write_head1 i) [0..<m] s = Inr (upd_buf i (\<lambda>b. b \<lparr> b_bytes := head_blocks (lg_block s) m (b_bytes b) \<rparr>) s)"
    by simp
  show ?case
    unfolding upt_Suc_append0 foldE_append IH
    using Suc.prems by (simp add: write_head1_def log_block_def upd_buf_def head_blocks_Suc)
qed

lemma io_to_log:
  assumes "io_to p pid s s'"
  shows "io_to p pid (s \<lparr> lg_n := n, lg_block := bl \<rparr>) (s' \<lparr> lg_n := n, lg_block := bl \<rparr>)"
proof -
  obtain q B where "s' = s \<lparr> io_ps := q, io_buf := B \<rparr>" "quiet p pid (io_ps s) q"
    using assms unfolding io_to_def by (elim exE conjE) (rule that)
  then show ?thesis
    unfolding io_to_def by (intro exI [of _ q] exI [of _ B]) simp
qed

lemma io_run_n:
  assumes "io_run p pid ws s s'"
  shows "io_run p pid ws (s \<lparr> lg_n := n \<rparr>) (s' \<lparr> lg_n := n \<rparr>)"
proof -
  obtain q B where "s' = s \<lparr> io_ps := q, io_buf := B, io_disk := apply_writes ws (io_disk s), io_writes := io_writes s @ ws \<rparr>"
      "quiet p pid (io_ps s) q"
    using assms unfolding io_run_def by (elim exE conjE) (rule that)
  then show ?thesis
    unfolding io_run_def by (intro exI [of _ q] exI [of _ B]) simp
qed

text \<open>Writing the header is one disk write.\<close>

lemma write_head_ok:
  assumes bc: "bc p pid d V P {} s" and d: "word_of_int (lg_dev s) = d" and st: "lg_start s = st"
    and Pl: "P (lbn st 0) = 0" and room: "card {x. 0 < P x} < NBUF" and n: "lg_n s \<le> int LOGSIZE"
  defines "h \<equiv> head_data (lg_block s) (lg_n s) (V (lbn st 0))"
  shows "\<exists>s'. write_head s = Inr s' \<and> io_run p pid [(lbn st 0, h)] s s' \<and> bc p pid d (V(lbn st 0 := h)) P {} s'"
proof -
  let ?l = "lbn st 0"
  have small: "P ?l + 1 < 2 ^ 32" using Pl by simp
  obtain i s1 where 1: "bread d ?l s = Inr (i, s1)" "io_to p pid s s1" "bc p pid d V (P(?l := P ?l + 1)) (insert ?l {}) s1"
      "cached (io_buf s1) d ?l i" "b_bytes (io_buf s1 i) = V ?l"
    by (rule bread_ok [OF bc _ disjI2 [OF room] small]) simp_all
  have f: "lg_n s1 = lg_n s" "lg_block s1 = lg_block s" using io_run_log [OF io_run_to [OF 1(2)]] by simp_all
  let ?s2 = "upd_buf i (\<lambda>b. b \<lparr> b_bytes := h \<rparr>) s1"
  have s2: "bc p pid d (V(?l := h)) (P(?l := P ?l + 1)) (insert ?l {}) ?s2" by (rule bc_data [OF 1(3,4)]) simp
  have c2: "cached (io_buf ?s2) d ?l i" using 1(4) by (simp add: cached_def upd_buf_def)
  obtain s3 where 3: "bwrite i ?s2 = Inr s3" "io_run p pid [(?l, h)] ?s2 s3"
      "bc p pid d (V(?l := h)) (P(?l := P ?l + 1)) (insert ?l {}) s3" "io_buf s3 = io_buf ?s2"
    using bwrite_run [OF s2 c2] by (auto elim!: exE conjE)
  have c3: "cached (io_buf s3) d ?l i" using c2 3(4) by simp
  have disk: "(V(?l := h)) ?l = io_disk s3 ?l" using io_run_fields(1) [OF 3(2)] by simp
  obtain s4 where 4: "brelse i s3 = Inr s4" "io_to p pid s3 s4"
      "bc p pid d (V(?l := h)) ((P(?l := P ?l + 1))(?l := (P(?l := P ?l + 1)) ?l - 1)) (insert ?l {} - {?l}) s4"
    using brelse_ok [OF 3(3) c3 insertI1 disjI2 [OF disk]] by (elim exE conjE) (rule that)
  have P: "(P(?l := P ?l + 1))(?l := (P(?l := P ?l + 1)) ?l - 1) = P" and H: "insert ?l {} - {?l} = {}" by auto
  have "write_head s = Inr s4"
  proof -
    have b: "log_bread (lg_start s) s = Inr (i, s1)" using 1(1) unfolding log_bread_def d st lbn_def by simp
    have m: "nat (lg_n s) \<le> LOGSIZE" using n by simp
    have u: "upd_buf i (\<lambda>b. b \<lparr> b_bytes := head_blocks (lg_block s) (nat (lg_n s)) (b_bytes b) \<rparr>)
        (upd_buf i (\<lambda>b. b \<lparr> b_bytes := put32 lh_n (word_of_int (lg_n s)) (b_bytes b) \<rparr>) s1) = ?s2"
      using 1(5) by (simp add: upd_buf_def h_def head_data_def)
    show ?thesis
      using b u 3(1) 4(1) write_head_loop [OF m, of i "upd_buf i (\<lambda>b. b \<lparr> b_bytes := put32 lh_n (word_of_int (lg_n s)) (b_bytes b) \<rparr>) s1"]
      by (simp add: write_head_def f Let_def upd_buf_def)
  qed
  moreover have "io_run p pid [(?l, h)] s s4"
    using io_run_trans [OF io_run_to [OF 1(2)] io_run_trans [OF io_run_upd [OF bc_parts(1) [OF 1(3)], of i "\<lambda>b. b \<lparr> b_bytes := h \<rparr>"]
          io_run_trans [OF 3(2) io_run_to [OF 4(2)]]]] by simp
  moreover have "bc p pid d (V(?l := h)) P {} s4" using 4(3) unfolding P H .
  ultimately show ?thesis by blast
qed

lemma read_head_loop:
  assumes "m \<le> LOGSIZE" and "length (lg_block s) = LOGSIZE"
  shows "\<exists>bl. foldE (read_head1 i) [0..<m] s = Inr (s \<lparr> lg_block := bl \<rparr>) \<and> length bl = LOGSIZE \<and>
    (\<forall>j < m. word_of_int (bl ! j) = hdr_b (b_bytes (io_buf s i)) j)"
  using assms(1)
proof (induction m)
  case 0
  show ?case by (intro exI [of _ "lg_block s"]) (simp add: assms(2))
next
  case (Suc m)
  then obtain bl where bl: "foldE (read_head1 i) [0..<m] s = Inr (s \<lparr> lg_block := bl \<rparr>)" "length bl = LOGSIZE"
      "\<forall>j < m. word_of_int (bl ! j) = hdr_b (b_bytes (io_buf s i)) j"
    by auto
  let ?bl = "bl[m := sint (get32 (lh_block m) (b_bytes (io_buf s i)))]"
  have "foldE (read_head1 i) [0..<Suc m] s = Inr (s \<lparr> lg_block := ?bl \<rparr>)"
    unfolding upt_Suc_append0 foldE_append using bl(1) Suc.prems by (simp add: read_head1_def)
  moreover have "\<forall>j < Suc m. word_of_int (?bl ! j) = hdr_b (b_bytes (io_buf s i)) j"
    using bl Suc.prems by (auto simp: nth_list_update hdr_b_def less_Suc_eq)
  ultimately show ?case using bl(2) by (intro exI [of _ ?bl]) simp
qed

lemma read_head_ok:
  assumes bc: "bc p pid d V P {} s" and d: "word_of_int (lg_dev s) = d" and st: "lg_start s = st"
    and Pl: "P (lbn st 0) = 0" and room: "card {x. 0 < P x} < NBUF"
    and n: "0 \<le> hdr_n (V (lbn st 0))" "hdr_n (V (lbn st 0)) \<le> int LOGSIZE" and len: "length (lg_block s) = LOGSIZE"
  shows "\<exists>bl s'. read_head s = Inr s' \<and> io_run p pid [] (s \<lparr> lg_n := hdr_n (V (lbn st 0)), lg_block := bl \<rparr>) s' \<and>
    bc p pid d V P {} s' \<and> length bl = LOGSIZE \<and> (\<forall>j < nat (hdr_n (V (lbn st 0))). word_of_int (bl ! j) = hdr_b (V (lbn st 0)) j)"
proof -
  let ?l = "lbn st 0"
  have small: "P ?l + 1 < 2 ^ 32" using Pl by simp
  obtain i s1 where 1: "bread d ?l s = Inr (i, s1)" "io_to p pid s s1" "bc p pid d V (P(?l := P ?l + 1)) (insert ?l {}) s1"
      "cached (io_buf s1) d ?l i" "b_bytes (io_buf s1 i) = V ?l"
    by (rule bread_ok [OF bc _ disjI2 [OF room] small]) simp_all
  let ?n = "hdr_n (V ?l)"
  have f: "lg_block s1 = lg_block s" using io_run_log [OF io_run_to [OF 1(2)]] by simp_all
  obtain bl where bl: "foldE (read_head1 i) [0..<nat ?n] (s1 \<lparr> lg_n := ?n \<rparr>) = Inr (s1 \<lparr> lg_n := ?n, lg_block := bl \<rparr>)"
      "length bl = LOGSIZE" "\<forall>j < nat ?n. word_of_int (bl ! j) = hdr_b (V ?l) j"
  proof -
    have "nat ?n \<le> LOGSIZE" "length (lg_block (s1 \<lparr> lg_n := ?n \<rparr>)) = LOGSIZE" using n len f by simp_all
    from read_head_loop [OF this, of i] show thesis by (elim exE conjE) (rule that, simp_all add: 1(5))
  qed
  let ?s2 = "s1 \<lparr> lg_n := ?n, lg_block := bl \<rparr>"
  have s2: "bc p pid d V (P(?l := P ?l + 1)) (insert ?l {}) ?s2" using 1(3) by simp
  have c2: "cached (io_buf ?s2) d ?l i" using 1(4) by simp
  have disk: "V ?l = io_disk ?s2 ?l"
    using bc_parts(3) [OF bc] Pl io_to_fields(2) [OF 1(2)] by (simp add: bufs_ok_def)
  obtain s3 where 3: "brelse i ?s2 = Inr s3" "io_to p pid ?s2 s3"
      "bc p pid d V ((P(?l := P ?l + 1))(?l := (P(?l := P ?l + 1)) ?l - 1)) (insert ?l {} - {?l}) s3"
    using brelse_ok [OF s2 c2 insertI1 disjI2 [OF disk]] by (elim exE conjE) (rule that)
  have P: "(P(?l := P ?l + 1))(?l := (P(?l := P ?l + 1)) ?l - 1) = P" and H: "insert ?l {} - {?l} = {}" by auto
  have b: "log_bread (lg_start s) s = Inr (i, s1)" using 1(1) unfolding log_bread_def d st lbn_def by simp
  have "read_head s = Inr s3" using b bl(1) 3(1) 1(5) by (simp add: read_head_def hdr_n_def Let_def)
  moreover have "io_run p pid [] (s \<lparr> lg_n := ?n, lg_block := bl \<rparr>) s3"
    using io_run_trans [OF io_run_to [OF io_to_log [OF 1(2)]] io_run_to [OF 3(2)]] by simp
  moreover have "bc p pid d V P {} s3" using 3(3) unfolding P H .
  ultimately show ?thesis using bl(2,3) by (intro exI conjI) assumption+
qed

lemma writes_to_cong: "(\<And>i. i < n \<Longrightarrow> x i = y i) \<Longrightarrow> writes_to k x n = writes_to k y n"
  by (simp add: writes_to_def)

section \<open>Recovery\<close>

definition recover_writes :: "int \<Rightarrow> (u32 \<Rightarrow> block) \<Rightarrow> block \<Rightarrow> (u32 \<times> block) list" where
  "recover_writes st D h0 =
    writes_to (hdr_b (D (lbn st 0))) (\<lambda>i. D (lbn st (i + 1))) (nat (hdr_n (D (lbn st 0)))) @ [(lbn st 0, h0)]"

text \<open>A cache to which nobody refers agrees with the disk.\<close>

lemma bc_disk: "bc p pid d V (\<lambda>_. 0) H s \<Longrightarrow> V = io_disk s"
  by (auto simp: bc_def bufs_ok_def)

lemma recover_ok:
  assumes bc: "bc p pid d D (\<lambda>_. 0) {} s" and D: "\<forall>b. length (D b) = BSIZE" and d: "word_of_int (lg_dev s) = d"
    and st: "lg_start s = st" "good_start st" and len: "length (lg_block s) = LOGSIZE" and v: "log_valid st D"
  shows "\<exists>h0 s'. recover_from_log s = Inr s' \<and> hdr_n h0 = 0 \<and> length h0 = BSIZE \<and> io_writes s' = io_writes s @ recover_writes st D h0 \<and>
    bc p pid d (apply_writes (recover_writes st D h0) D) (\<lambda>_. 0) {} s' \<and> lg_n s' = 0"
proof -
  let ?l = "lbn st 0" and ?h = "D (lbn st 0)"
  let ?n = "hdr_n ?h" and ?bs = "hdr_b ?h" and ?W = "writes_to (hdr_b ?h) (\<lambda>i. D (lbn st (i + 1)))"
  have n: "0 \<le> ?n" "?n \<le> int LOGSIZE" "inj_on ?bs {..<nat ?n}" "\<forall>i < nat ?n. ?bs i \<notin> log_area st"
    using v by (simp_all add: log_valid_def)
  have room: "card {x :: u32. 0 < (0 :: nat)} < NBUF" by (simp add: NBUF_eq)
  obtain bl s1 where 1: "read_head s = Inr s1" "io_run p pid [] (s \<lparr> lg_n := ?n, lg_block := bl \<rparr>) s1"
      "bc p pid d D (\<lambda>_. 0) {} s1" "length bl = LOGSIZE" "\<forall>j < nat ?n. word_of_int (bl ! j) = ?bs j"
    using read_head_ok [OF bc d st(1) refl room n(1,2) len] by (elim exE conjE) (rule that)
  have f1: "lg_n s1 = ?n" "lg_block s1 = bl" "lg_start s1 = st" "word_of_int (lg_dev s1) = d"
    using io_run_log [OF 1(2)] st d by simp_all
  have at: "log_at d st ?bs (nat ?n) s1" using f1 st n 1(4,5) by (simp add: log_at_def)
  have "\<exists>s2. foldE (install1 True) [0..<nat ?n] s1 = Inr s2 \<and> io_run p pid (?W (nat ?n)) s1 s2 \<and>
      bc p pid d (apply_writes (?W (nat ?n)) D) (\<lambda>b. if b \<in> ?bs ` {..<nat ?n} then 0 else 0) {} s2"
    by (rule install_loop [OF at 1(3) D]) (simp_all add: NBUF_eq)
  then obtain s2 where 2: "foldE (install1 True) [0..<nat ?n] s1 = Inr s2" "io_run p pid (?W (nat ?n)) s1 s2"
      "bc p pid d (apply_writes (?W (nat ?n)) D) (\<lambda>_. 0) {} s2"
    by (auto elim!: exE conjE)
  have f2: "lg_block s2 = bl" "lg_start s2 = st" "word_of_int (lg_dev s2) = d" using io_run_log [OF 2(2)] f1 by simp_all
  let ?s2 = "s2 \<lparr> lg_n := 0 \<rparr>"
  let ?D2 = "apply_writes (?W (nat ?n)) D" and ?h0 = "head_data bl 0 (apply_writes (?W (nat ?n)) D ?l)"
  have bc2: "bc p pid d ?D2 (\<lambda>_. 0) {} ?s2" using 2(3) by simp
  have "\<exists>s3. write_head ?s2 = Inr s3 \<and> io_run p pid [(?l, head_data (lg_block ?s2) (lg_n ?s2) (?D2 ?l))] ?s2 s3 \<and>
      bc p pid d (?D2(?l := head_data (lg_block ?s2) (lg_n ?s2) (?D2 ?l))) (\<lambda>_. 0) {} s3"
    by (rule write_head_ok [OF bc2 _ _ refl room]) (simp_all add: f2)
  then obtain s3 where 3: "write_head ?s2 = Inr s3" "io_run p pid [(?l, ?h0)] ?s2 s3" "bc p pid d (?D2(?l := ?h0)) (\<lambda>_. 0) {} s3"
    using f2 by (auto elim!: exE conjE)
  have l2: "length (?D2 ?l) = BSIZE" using writes_to_len [of "nat ?n" "\<lambda>i. D (lbn st (i + 1))" BSIZE D ?bs] D by simp
  then have "hdr_n ?h0 = 0" by (rule hdr_head_data) simp_all
  moreover have "length ?h0 = BSIZE" using l2 by simp
  moreover have "recover_from_log s = Inr s3"
    using 1(1) 2(1) 3(1) f1 by (simp add: recover_from_log_def install_trans_def)
  moreover have "io_writes s3 = io_writes s @ recover_writes st D ?h0"
    using io_run_fields(2) [OF 1(2)] io_run_fields(2) [OF 2(2)] io_run_fields(2) [OF 3(2)] by (simp add: recover_writes_def)
  moreover have "bc p pid d (apply_writes (recover_writes st D ?h0) D) (\<lambda>_. 0) {} s3" using 3(3) by (simp add: recover_writes_def)
  moreover have "lg_n s3 = 0" using io_run_log [OF 3(2)] by simp
  ultimately show ?thesis by (intro exI conjI) assumption+
qed

section \<open>Commit\<close>

text \<open>Exactly the \<open>n\<close> blocks of the transaction have a reference, the one \<open>log_write\<close> took.\<close>

definition pinned :: "(nat \<Rightarrow> u32) \<Rightarrow> nat \<Rightarrow> u32 \<Rightarrow> nat" where
  "pinned bs n b = (if b \<in> bs ` {..<n} then 1 else 0)"

lemma pinned_room: "n < NBUF \<Longrightarrow> card {x. 0 < pinned bs n x} < NBUF"
proof -
  assume "n < NBUF"
  have "{x. 0 < pinned bs n x} = bs ` {..<n}" by (auto simp: pinned_def)
  then have "card {x. 0 < pinned bs n x} \<le> n" using card_image_le [of "{..<n}" bs] by simp
  then show ?thesis using \<open>n < NBUF\<close> by simp
qed

lemma commit_ok:
  assumes at: "log_at d st bs n s" and bc: "bc p pid d V (pinned bs n) {} s" and V: "\<forall>b. length (V b) = BSIZE"
    and n: "lg_n s = int n" "0 < n" "n < NBUF"
  shows "\<exists>h1 h0 s'. commit s = Inr s' \<and> hdr_n h1 = int n \<and> (\<forall>i < n. hdr_b h1 i = bs i) \<and> hdr_n h0 = 0 \<and>
    length h1 = BSIZE \<and> length h0 = BSIZE \<and> io_run p pid (commit_writes st bs V n h1 h0) (s \<lparr> lg_n := 0 \<rparr>) s' \<and>
    bc p pid d (apply_writes (commit_writes st bs V n h1 h0) V) (\<lambda>_. 0) {} s'"
proof -
  let ?l = "lbn st 0" and ?P = "pinned bs n" and ?lb = "\<lambda>i. lbn st (i + 1)"
  let ?W1 = "writes_to ?lb (\<lambda>i. V (bs i)) n" and ?W2 = "writes_to bs (\<lambda>i. V (bs i)) n"
  have A: "word_of_int (lg_dev s) = d" "lg_start s = st" "good_start st" "n \<le> LOGSIZE" "length (lg_block s) = LOGSIZE"
      "inj_on bs {..<n}" "\<And>i. i < n \<Longrightarrow> word_of_int (lg_block s ! i) = bs i" "\<And>i. i < n \<Longrightarrow> bs i \<notin> log_area st"
    using at by (simp_all add: log_at_def)
  have Pb: "\<forall>i < n. ?P (bs i) = 1" by (simp add: pinned_def)
  have Pl: "\<forall>b \<in> log_area st. ?P b = 0" using A(8) by (auto simp: pinned_def)
  have Pl0: "?P ?l = 0" using Pl lbn_in [of 0 st] by simp
  note room = pinned_room [OF n(3), of bs]
  obtain s1 where 1: "foldE write_log1 [0..<n] s = Inr s1" "io_run p pid ?W1 s s1" "bc p pid d (apply_writes ?W1 V) ?P {} s1"
    using write_log_loop [OF at bc V Pb Pl room order_refl] by (elim exE conjE) (rule that)
  let ?V1 = "apply_writes ?W1 V"
  have f1: "lg_n s1 = int n" "lg_block s1 = lg_block s" "lg_start s1 = st" "word_of_int (lg_dev s1) = d"
    using io_run_log [OF 1(2)] A n by simp_all
  have V1: "\<forall>b. length (?V1 b) = BSIZE" using writes_to_len [of n "\<lambda>i. V (bs i)" BSIZE V] V by simp
  let ?h1 = "head_data (lg_block s) (int n) (?V1 ?l)"
  obtain s2 where 2: "write_head s1 = Inr s2" "io_run p pid [(?l, ?h1)] s1 s2" "bc p pid d (?V1(?l := ?h1)) ?P {} s2"
    using write_head_ok [OF 1(3) f1(4,3) Pl0 room] f1 A(4) by (auto elim!: exE conjE)
  let ?V2 = "?V1(?l := ?h1)"
  have at2: "log_at d st bs n s2" by (rule log_at_run [OF 2(2) log_at_run [OF 1(2) at]])
  have V2: "\<forall>b. length (?V2 b) = BSIZE" using V1 by simp
  have lb: "?V2 (?lb i) = V (bs i)" if "i < n" for i
  proof -
    have "inj_on ?lb {..<n}" using A(4) by (intro inj_onI) (simp add: lbn_eq [OF A(3)])
    then have "?V1 (?lb i) = V (bs i)" by (rule writes_to_key [OF _ that])
    moreover have "?lb i \<noteq> ?l" using lbn_eq [OF A(3), of "i + 1" 0] that A(4) by simp
    ultimately show ?thesis by simp
  qed
  have W2: "writes_to bs (\<lambda>i. ?V2 (?lb i)) n = ?W2" by (rule writes_to_cong [OF lb])
  have Pb2: "\<forall>i < n. ?P (bs i) = (if False then 0 else 1)" and room2: "card {x. 0 < ?P x} + (if False then 2 else 1) \<le> NBUF"
    using Pb room by simp_all
  obtain s3 where 3: "foldE (install1 False) [0..<n] s2 = Inr s3" "io_run p pid ?W2 s2 s3"
      "bc p pid d (apply_writes ?W2 ?V2) (\<lambda>b. if b \<in> bs ` {..<n} then 0 else ?P b) {} s3"
    using install_loop [OF at2 2(3) V2 Pb2 Pl room2 order_refl] unfolding W2 by (elim exE conjE) (rule that)
  have P3: "(\<lambda>b. if b \<in> bs ` {..<n} then 0 else ?P b) = (\<lambda>_. 0)" by (auto simp: pinned_def)
  let ?V3 = "apply_writes ?W2 ?V2" and ?s3 = "s3 \<lparr> lg_n := 0 \<rparr>"
  have f3: "lg_n s2 = int n" "lg_block s3 = lg_block s" "lg_start s3 = st" "word_of_int (lg_dev s3) = d"
    using io_run_log [OF 2(2)] io_run_log [OF 3(2)] f1 by simp_all
  let ?h0 = "head_data (lg_block s) 0 (?V3 ?l)"
  have room3: "card {x :: u32. 0 < (0 :: nat)} < NBUF" by (simp add: NBUF_eq)
  have bc3: "bc p pid d ?V3 (\<lambda>_. 0) {} ?s3" using 3(3) unfolding P3 by simp
  obtain s4 where 4: "write_head ?s3 = Inr s4" "io_run p pid [(?l, ?h0)] ?s3 s4" "bc p pid d (?V3(?l := ?h0)) (\<lambda>_. 0) {} s4"
    using write_head_ok [OF bc3 _ _ refl room3, of st] f3 by (auto elim!: exE conjE)
  have l1: "length (?V1 ?l) = BSIZE" and n1: "0 \<le> int n" "int n \<le> int LOGSIZE" using V1 A(4) by simp_all
  have h1: "hdr_n ?h1 = int n" "\<forall>i < n. hdr_b ?h1 i = bs i"
    using hdr_head_data [OF l1 n1] A(7) by simp_all
  have l3: "length (?V3 ?l) = BSIZE" using writes_to_len [of n "\<lambda>i. V (bs i)" BSIZE ?V2 bs] V V2 by simp
  then have h0: "hdr_n ?h0 = 0" by (rule hdr_head_data) simp_all
  have lh: "length ?h1 = BSIZE" "length ?h0 = BSIZE" using l1 l3 by simp_all
  have "commit s = Inr s4"
    using 1(1) 2(1) 3(1) 4(1) n f3 by (simp add: commit_def write_log_def install_trans_def)
  moreover have "io_run p pid (commit_writes st bs V n ?h1 ?h0) (s \<lparr> lg_n := 0 \<rparr>) s4"
    using io_run_trans [OF io_run_n [OF 1(2)] io_run_trans [OF io_run_n [OF 2(2)] io_run_trans [OF io_run_n [OF 3(2)] 4(2)]]]
    by (simp add: commit_writes_def)
  moreover have "bc p pid d (apply_writes (commit_writes st bs V n ?h1 ?h0) V) (\<lambda>_. 0) {} s4"
    using 4(3) by (simp add: commit_writes_def)
  ultimately show ?thesis using h1 h0 lh by (intro exI conjI) assumption+
qed

text \<open>All the writes of a commit bring the new contents to the disk.\<close>

lemma commit_done:
  assumes "n \<le> LOGSIZE" and "inj_on bs {..<n}" and clean: "\<forall>b. b \<notin> log_area st \<and> b \<notin> bs ` {..<n} \<longrightarrow> V b = D b"
    and b: "b \<notin> log_area st"
  shows "apply_writes (commit_writes st bs V n h1 h0) D b = V b"
proof -
  have b0: "b \<noteq> lbn st 0" and bl: "\<forall>i < n. lbn st (i + 1) \<noteq> b"
    using b assms(1) lbn_in [of 0 st] lbn_in [of "_ + 1" st] by auto
  let ?D1 = "(apply_writes (writes_to (\<lambda>i. lbn st (i + 1)) (\<lambda>i. V (bs i)) n) D)(lbn st 0 := h1)"
  have D1: "?D1 b = D b" using b0 writes_to_other [OF bl] by simp
  have "apply_writes (writes_to bs (\<lambda>i. V (bs i)) n) ?D1 b = V b"
  proof (cases "b \<in> bs ` {..<n}")
    case True
    then obtain i where "i < n" "b = bs i" by auto
    then show ?thesis using writes_to_key [OF assms(2)] by simp
  next
    case False
    then have "apply_writes (writes_to bs (\<lambda>i. V (bs i)) n) ?D1 b = ?D1 b" by (intro writes_to_other) auto
    then show ?thesis using D1 clean b False by simp
  qed
  then show ?thesis using b0 by (simp add: commit_writes_def)
qed

end
