(* ===== verification/Log_Txn.thy ===== *)
theory Log_Txn
  imports Log_Commit
begin

text \<open>
  A transaction as its callers use it: \<open>bread\<close>, a change of the data, \<open>log_write\<close> and \<open>brelse\<close> add one
  block to the transaction, or change a block that is in it already.
\<close>

section \<open>The lock of the log\<close>

lemma log_section:
  fixes s :: "'a logst_scheme"
  assumes "calm p pid (io_ps s)" and "lock_free (lg_lock s)"
  obtains Q L where "acquire_log s = Inr (s \<lparr> lg_lock := L, io_ps := Q \<rparr>)" and "calm p pid Q"
    and "\<And>t :: 'a logst_scheme. lg_lock t = L \<Longrightarrow> quiet p pid Q (io_ps t) \<Longrightarrow>
      \<exists>q. release_log t = Inr (t \<lparr> lg_lock := lg_lock s, io_ps := q \<rparr>) \<and> quiet p pid (io_ps s) q"
proof
  let ?c = "ps_hart (io_ps s)"
  let ?L = "taken (h_id ?c) (lg_lock s)" and ?Q = "set_hart (push_off ?c) (io_ps s)"
  have ok: "hart_ok ?c" using assms(1) by (simp add: calm_def)
  show "acquire_log s = Inr (s \<lparr> lg_lock := ?L, io_ps := ?Q \<rparr>)" by (simp add: acquire_log_def crit_begin [OF assms(2)])
  show "calm p pid ?Q" by (rule calm_push [OF assms(1)])
  fix t :: "'a logst_scheme"
  assume t: "lg_lock t = ?L" "quiet p pid ?Q (io_ps t)"
  let ?d = "ps_hart (io_ps t)"
  have sh: "same_hart (push_off ?c) ?d" using t(2) by (simp add: quiet_def)
  have "release_log t = Inr (t \<lparr> lg_lock := lg_lock s, io_ps := set_hart (popped ?d) (io_ps t) \<rparr>)"
    using crit_end [OF ok assms(2) sh] t(1) by (simp add: release_log_def)
  moreover have "quiet p pid (io_ps s) (set_hart (popped ?d) (io_ps t))"
    using popped_same [OF ok sh] t(2) ok by (auto simp: quiet_def calm_def intro: hart_ok_same)
  ultimately show "\<exists>q. release_log t = Inr (t \<lparr> lg_lock := lg_lock s, io_ps := q \<rparr>) \<and> quiet p pid (io_ps s) q" by blast
qed

section \<open>Finding a block in the log\<close>

lemma log_index_bound: "log_index b xs \<le> length xs"
  by (induction xs) auto

lemma log_index_found: "log_index b xs < length xs \<Longrightarrow> word_of_int (xs ! log_index b xs) = b"
  by (induction xs) auto

lemma log_index_iff: "log_index b xs < length xs \<longleftrightarrow> b \<in> word_of_int ` set xs"
  by (induction xs) auto

section \<open>Adding a block\<close>

text \<open>
  In a transaction: the log names the blocks \<open>bs 0, \<dots>, bs (n - 1)\<close>, each of them is pinned in the cache
  and nothing else is, and \<open>V\<close> is what the transaction sees.
\<close>

definition txn :: "nat \<Rightarrow> int \<Rightarrow> u32 \<Rightarrow> int \<Rightarrow> (u32 \<Rightarrow> block) \<Rightarrow> (nat \<Rightarrow> u32) \<Rightarrow> nat \<Rightarrow> 'a logst_scheme \<Rightarrow> bool" where
  "txn p pid d st V bs n s \<longleftrightarrow> log_at d st bs n s \<and> bc p pid d V (pinned bs n) {} s \<and> lg_n s = int n \<and> n < NBUF \<and>
     lock_free (lg_lock s) \<and> 0 < lg_outstanding s"

text \<open>The entries of the log after \<open>b\<close> has been written.\<close>

definition add_block :: "u32 \<Rightarrow> (nat \<Rightarrow> u32) \<times> nat \<Rightarrow> (nat \<Rightarrow> u32) \<times> nat" where
  "add_block b = (\<lambda>(bs, n). if b \<in> bs ` {..<n} then (bs, n) else (bs(n := b), n + 1))"

lemma log_at_take:
  assumes "log_at d st bs n s"
  shows "word_of_int ` set (take n (lg_block s)) = bs ` {..<n}" and "length (take n (lg_block s)) = n"
proof -
  have l: "n \<le> length (lg_block s)" and w: "\<And>i. i < n \<Longrightarrow> word_of_int (lg_block s ! i) = bs i"
    using assms by (simp_all add: log_at_def)
  have "set (take n (lg_block s)) = (\<lambda>i. lg_block s ! i) ` {..<n}" using l by (simp add: nth_image [symmetric] atLeast0LessThan)
  then show "word_of_int ` set (take n (lg_block s)) = bs ` {..<n}" using w by (auto simp: image_image)
  show "length (take n (lg_block s)) = n" using l by simp
qed

lemma log_at_found:
  assumes at: "log_at d st bs n s" and b: "b \<in> bs ` {..<n}"
  defines "i \<equiv> log_index b (take n (lg_block s))"
  shows "i < n" and "log_at d st bs n (s \<lparr> lg_block := (lg_block s)[i := sint b] \<rparr>)"
proof -
  note tk = log_at_take [OF at]
  show i: "i < n" using log_index_iff [of b "take n (lg_block s)"] b tk by (simp add: i_def)
  have "word_of_int (take n (lg_block s) ! i) = b" unfolding i_def by (rule log_index_found) (use i tk i_def in simp)
  then have "bs i = b" using i at by (simp add: log_at_def)
  then show "log_at d st bs n (s \<lparr> lg_block := (lg_block s)[i := sint b] \<rparr>)"
    using at i by (auto simp: log_at_def nth_list_update)
qed

lemma log_at_new:
  assumes at: "log_at d st bs n s" and b: "b \<notin> bs ` {..<n}" "b \<notin> log_area st" and n: "n < LOGSIZE"
  defines "i \<equiv> log_index b (take n (lg_block s))"
  shows "i = n" and "log_at d st (bs(n := b)) (n + 1) (s \<lparr> lg_block := (lg_block s)[i := sint b] \<rparr>)"
proof -
  note tk = log_at_take [OF at]
  show i: "i = n"
    using log_index_iff [of b "take n (lg_block s)", unfolded tk] log_index_bound [of b "take n (lg_block s)", unfolded tk] b(1)
    unfolding i_def by linarith
  have "inj_on (bs(n := b)) {..<n + 1}" using at b(1) by (auto simp: log_at_def inj_on_def less_Suc_eq)
  then show "log_at d st (bs(n := b)) (n + 1) (s \<lparr> lg_block := (lg_block s)[i := sint b] \<rparr>)"
    using at n b i by (auto simp: log_at_def nth_list_update less_Suc_eq)
qed

lemma pinned_add:
  assumes "add_block b (bs, n) = (bs', n')"
  shows "pinned bs' n' = (pinned bs n)(b := 1)"
proof (cases "b \<in> bs ` {..<n}")
  case True
  then show ?thesis using assms by (auto simp: add_block_def pinned_def fun_eq_iff)
next
  case False
  then have "bs' = bs(n := b)" "n' = Suc n" using assms by (auto simp: add_block_def)
  then have "bs' ` {..<n'} = insert b (bs ` {..<n})" by (simp only: lessThan_Suc image_insert) auto
  then show ?thesis by (auto simp: pinned_def fun_eq_iff)
qed

lemma bc_same:
  assumes "bc p pid d V P H s" and "calm p pid (io_ps t)" and "io_lock t = io_lock s" "io_buf t = io_buf s" "io_disk t = io_disk s"
  shows "bc p pid d V P H t"
  using assms by (simp add: bc_def)

lemma log_write_ok:
  fixes s :: "'a logst_scheme"
  assumes at: "log_at d st bs n s" and bc: "bc p pid d V ((pinned bs n)(b := pinned bs n b + 1)) {b} s"
    and c: "cached (io_buf s) d b i" and n: "lg_n s = int n" "n < LOGSIZE" "int n < lg_size s - 1"
    and lk: "lock_free (lg_lock s)" "0 < lg_outstanding s" and out: "b \<notin> log_area st"
    and add: "add_block b (bs, n) = (bs', n')"
  shows "\<exists>s'. log_write i s = Inr s' \<and> log_at d st bs' n' s' \<and> bc p pid d V ((pinned bs' n')(b := 2)) {b} s' \<and> lg_n s' = int n' \<and>
    lg_lock s' = lg_lock s \<and> lg_outstanding s' = lg_outstanding s \<and> lg_size s' = lg_size s \<and> io_disk s' = io_disk s \<and> io_writes s' = io_writes s \<and>
    cached (io_buf s') d b i"
proof -
  obtain Q L where acq: "acquire_log s = Inr (s \<lparr> lg_lock := L, io_ps := Q \<rparr>)" "calm p pid Q"
    and rel: "\<And>t :: 'a logst_scheme. lg_lock t = L \<Longrightarrow> quiet p pid Q (io_ps t) \<Longrightarrow>
      \<exists>q. release_log t = Inr (t \<lparr> lg_lock := lg_lock s, io_ps := q \<rparr>) \<and> quiet p pid (io_ps s) q"
    by (rule log_section [OF bc_parts(1) [OF bc] lk(1)]) (rule that)
  let ?i = "log_index b (take n (lg_block s))" and ?bl = "\<lambda>j. (lg_block s)[j := sint b]"
  let ?t = "s \<lparr> lg_lock := L, io_ps := Q, lg_block := ?bl ?i \<rparr>"
  have bno: "b_blockno (io_buf s i) = b" using c by (simp add: cached_def)
  have t: "bc p pid d V ((pinned bs n)(b := pinned bs n b + 1)) {b} ?t" by (rule bc_same [OF bc]) (use acq(2) in simp_all)
  have ct: "cached (io_buf ?t) d b i" using c by simp
  have P': "(pinned bs' n')(b := 2) = (pinned bs n)(b := 2)" using pinned_add [OF add] by simp
  have unfold: "log_write i s =
    bindE (if int ?i = int n then bindE (bpin i ?t) (\<lambda>s. Inr (s \<lparr> lg_n := lg_n s + 1 \<rparr>)) else Inr ?t) release_log"
    using acq(1) n lk(2) bno by (simp add: log_write_def Let_def)
  show ?thesis
  proof (cases "b \<in> bs ` {..<n}")
    case True
    then have b': "bs' = bs" "n' = n" using add by (auto simp: add_block_def)
    note found = log_at_found [OF at True]
    obtain q where q: "release_log ?t = Inr (?t \<lparr> lg_lock := lg_lock s, io_ps := q \<rparr>)" "quiet p pid (io_ps s) q"
      using rel [of ?t] quiet_refl [OF acq(2)] by auto
    have "log_write i s = Inr (?t \<lparr> lg_lock := lg_lock s, io_ps := q \<rparr>)" unfolding unfold using found(1) q(1) by simp
    moreover have "pinned bs n b = 1" using True by (simp add: pinned_def)
    then have "(pinned bs n)(b := pinned bs n b + 1) = (pinned bs' n')(b := 2)" unfolding P' by (simp add: numeral_2_eq_2)
    then have "bc p pid d V ((pinned bs' n')(b := 2)) {b} (?t \<lparr> lg_lock := lg_lock s, io_ps := q \<rparr>)"
      using bc_same [OF t, of "?t \<lparr> lg_lock := lg_lock s, io_ps := q \<rparr>"] quiet_calm [OF q(2)] by simp
    moreover have "log_at d st bs' n' (?t \<lparr> lg_lock := lg_lock s, io_ps := q \<rparr>)" using found(2) by (simp add: b' log_at_def)
    ultimately show ?thesis using n b' c by (intro exI [of _ "?t \<lparr> lg_lock := lg_lock s, io_ps := q \<rparr>"]) simp
  next
    case False
    then have b': "bs' = bs(n := b)" "n' = n + 1" using add by (auto simp: add_block_def)
    note new = log_at_new [OF at False out n(2)]
    have P1: "pinned bs n b = 0" using False by (simp add: pinned_def)
    obtain s2 where 2: "bpin i ?t = Inr s2" "io_to p pid ?t s2" "bc p pid d V ((pinned bs n)(b := 2)) {b} s2"
        "cached (io_buf s2) = cached (io_buf ?t)"
    proof -
      let ?P = "(pinned bs n)(b := pinned bs n b + 1)"
      have pos: "0 < ?P b" "?P b + 1 < 2 ^ 32" using P1 by simp_all
      have eq: "?P(b := ?P b + 1) = (pinned bs n)(b := 2)" using P1 by (simp add: numeral_2_eq_2)
      from bpin_ok [OF t ct pos] show thesis unfolding eq by (elim exE conjE) (rule that)
    qed
    note f2 = io_run_log [OF io_run_to [OF 2(2)]] io_to_fields [OF 2(2)]
    let ?s2 = "s2 \<lparr> lg_n := lg_n s2 + 1 \<rparr>"
    obtain q where q: "release_log ?s2 = Inr (?s2 \<lparr> lg_lock := lg_lock s, io_ps := q \<rparr>)" "quiet p pid (io_ps s) q"
      using rel [of ?s2] f2 by auto
    let ?s3 = "?s2 \<lparr> lg_lock := lg_lock s, io_ps := q \<rparr>"
    have "log_write i s = Inr ?s3" unfolding unfold using new(1) 2(1) q(1) by simp
    moreover have "bc p pid d V ((pinned bs' n')(b := 2)) {b} ?s3"
      unfolding P' by (rule bc_same [OF 2(3)]) (use quiet_calm [OF q(2)] in simp_all)
    moreover have "log_at d st bs' n' ?s3" using new(2) f2 by (simp add: b' log_at_def)
    ultimately show ?thesis using f2 n b' 2(4) c by (intro exI [of _ ?s3]) simp
  qed
qed

text \<open>One step of a transaction: read a block, change it, log it, release it.\<close>

lemma txn_write:
  assumes t: "txn p pid d st V bs n s" and n: "n + 1 < NBUF" "int n < lg_size s - 1" and out: "b \<notin> log_area st"
    and add: "add_block b (bs, n) = (bs', n')"
  shows "\<exists>i s1 s2 s'. bread d b s = Inr (i, s1) \<and> b_bytes (io_buf s1 i) = V b \<and>
    log_write i (upd_buf i (\<lambda>x. x \<lparr> b_bytes := y \<rparr>) s1) = Inr s2 \<and> brelse i s2 = Inr s' \<and>
    txn p pid d st (V(b := y)) bs' n' s' \<and> io_disk s' = io_disk s"
proof -
  have A: "log_at d st bs n s" "bc p pid d V (pinned bs n) {} s" "lg_n s = int n" "lock_free (lg_lock s)" "0 < lg_outstanding s"
    using t by (simp_all add: txn_def)
  let ?P = "pinned bs n"
  have small: "?P b + 1 < 2 ^ 32" by (simp add: pinned_def)
  have room: "card {x. 0 < ?P x} < NBUF" by (rule pinned_room) (use n in simp)
  obtain i s1 where 1: "bread d b s = Inr (i, s1)" "io_to p pid s s1" "bc p pid d V (?P(b := ?P b + 1)) (insert b {}) s1"
      "cached (io_buf s1) d b i" "b_bytes (io_buf s1 i) = V b"
    by (rule bread_ok [OF A(2) _ disjI2 [OF room] small]) simp_all
  let ?s1 = "upd_buf i (\<lambda>x. x \<lparr> b_bytes := y \<rparr>) s1"
  note f1 = io_run_log [OF io_run_to [OF 1(2)]] io_to_fields [OF 1(2)]
  have s1: "bc p pid d (V(b := y)) (?P(b := ?P b + 1)) {b} ?s1" by (rule bc_data [OF 1(3,4)]) simp
  have c1: "cached (io_buf ?s1) d b i" using 1(4) by (simp add: cached_def)
  have g1: "lg_n ?s1 = lg_n s" "lg_size ?s1 = lg_size s" "lg_lock ?s1 = lg_lock s" "lg_outstanding ?s1 = lg_outstanding s" "log_at d st bs n ?s1"
    using f1 A(1) by (simp_all add: upd_buf_def log_at_def)
  have L: "n < LOGSIZE" using n(1) by (simp add: NBUF_eq)
  have w: "\<exists>s2. log_write i ?s1 = Inr s2 \<and> log_at d st bs' n' s2 \<and> bc p pid d (V(b := y)) ((pinned bs' n')(b := 2)) {b} s2 \<and>
      lg_n s2 = int n' \<and> lg_lock s2 = lg_lock ?s1 \<and> lg_outstanding s2 = lg_outstanding ?s1 \<and> lg_size s2 = lg_size ?s1 \<and>
      io_disk s2 = io_disk ?s1 \<and> io_writes s2 = io_writes ?s1 \<and> cached (io_buf s2) d b i"
    by (rule log_write_ok [OF g1(5) s1 c1 _ L _ _ _ out add]) (use g1 A n in simp_all)
  then obtain s2 where 2: "log_write i ?s1 = Inr s2" "log_at d st bs' n' s2" "bc p pid d (V(b := y)) ((pinned bs' n')(b := 2)) {b} s2"
      "lg_n s2 = int n'" "lg_lock s2 = lg_lock ?s1" "lg_outstanding s2 = lg_outstanding ?s1" "io_disk s2 = io_disk ?s1" "cached (io_buf s2) d b i"
    by (elim exE conjE) (rule that)
  have two: "2 \<le> ((pinned bs' n')(b := 2)) b" by simp
  obtain s' where 3: "brelse i s2 = Inr s'" "io_to p pid s2 s'"
      "bc p pid d (V(b := y)) ((pinned bs' n')(b := 2, b := ((pinned bs' n')(b := 2)) b - 1)) ({b} - {b}) s'"
    using brelse_ok [OF 2(3,8) singletonI disjI1 [OF two]] by (elim exE conjE) (rule that)
  have P: "(pinned bs' n')(b := 2, b := ((pinned bs' n')(b := 2)) b - 1) = pinned bs' n'"
    using pinned_add [OF add] by (simp add: numeral_2_eq_2)
  note f3 = io_run_log [OF io_run_to [OF 3(2)]] io_to_fields [OF 3(2)]
  have "n' < NBUF" using add n by (auto simp: add_block_def split: if_splits)
  then have "txn p pid d st (V(b := y)) bs' n' s'"
    unfolding txn_def using 3(3) f3 2 g1 A log_at_run [OF io_run_to [OF 3(2)] 2(2)] unfolding P by simp
  moreover have "io_disk s' = io_disk s" using f3 2(7) f1 by simp
  ultimately show ?thesis using 1(1,5) 2(1) 3(1) by (intro exI conjI)
qed

end
