(* ===== verification/Log_Props.thy ===== *)
theory Log_Props
  imports Log_Txn
begin

text \<open>
  Crash safety of the log.  A crash keeps the writes that have reached the disk, in their order, and
  nothing else; after it the kernel starts with an empty buffer cache and runs \<open>initlog\<close>.
\<close>

section \<open>Starting with an empty cache\<close>

text \<open>The state \<open>binit\<close> finds: the disk and zeroed buffers.\<close>

definition rebooted :: "nat \<Rightarrow> int \<Rightarrow> (u32 \<Rightarrow> block) \<Rightarrow> 'a logst_scheme \<Rightarrow> bool" where
  "rebooted p pid D t \<longleftrightarrow> calm p pid (io_ps t) \<and> io_disk t = D \<and> length (lg_block t) = LOGSIZE \<and>
     (\<forall>i. b_dev (io_buf t i) = 0 \<and> b_refcnt (io_buf t i) = 0)"

lemma binit_loop:
  assumes "m \<le> NBUF" and "b_next (io_buf s NBUF) = NBUF" and "b_prev (io_buf s NBUF) = NBUF"
  shows "\<exists>B. fold binit1 [0..<m] s = s \<lparr> io_buf := B \<rparr> \<and>
    dll (\<lambda>j. b_next (B j)) (\<lambda>j. b_prev (B j)) NBUF (rev [0..<m]) NBUF \<and>
    (\<forall>j. b_dev (B j) = b_dev (io_buf s j) \<and> b_refcnt (B j) = b_refcnt (io_buf s j)) \<and>
    (\<forall>j < m. b_lock (B j) = initsleeplock ''buffer'')"
  using assms(1)
proof (induction m)
  case 0
  show ?case using assms(2,3) by (intro exI [of _ "io_buf s"]) simp
next
  case (Suc m)
  then obtain B where B: "fold binit1 [0..<m] s = s \<lparr> io_buf := B \<rparr>"
      "dll (\<lambda>j. b_next (B j)) (\<lambda>j. b_prev (B j)) NBUF (rev [0..<m]) NBUF"
      "\<And>j. b_dev (B j) = b_dev (io_buf s j)" "\<And>j. b_refcnt (B j) = b_refcnt (io_buf s j)"
      "\<forall>j < m. b_lock (B j) = initsleeplock ''buffer''"
    by auto
  let ?t = "upd_buf m (b_lock_update (\<lambda>_. initsleeplock ''buffer'')) (s \<lparr> io_buf := B \<rparr>)"
  let ?B = "io_buf (push_front m ?t)"
  have links: "(\<lambda>j. b_next (io_buf ?t j)) = (\<lambda>j. b_next (B j))" "(\<lambda>j. b_prev (io_buf ?t j)) = (\<lambda>j. b_prev (B j))"
    by (auto simp: fun_eq_iff)
  have "dll (\<lambda>j. b_next (?B j)) (\<lambda>j. b_prev (?B j)) NBUF (m # rev [0..<m]) NBUF"
    by (rule push_front_ring) (unfold links, use B(2) Suc.prems in auto)
  moreover have "core (?B j) = core (io_buf ?t j)" for j by (rule push_front_core)
  note c = core_fields [OF this]
  have "b_dev (?B j) = b_dev (io_buf s j) \<and> b_refcnt (?B j) = b_refcnt (io_buf s j)" for j
    unfolding c(2) c(5) using B(3,4) by simp
  moreover have "b_lock (?B j) = initsleeplock ''buffer''" if "j < Suc m" for j
    unfolding c(4) using B(5) that by (auto simp: less_Suc_eq)
  moreover have "fold binit1 [0..<Suc m] s = s \<lparr> io_buf := ?B \<rparr>"
    using B(1) push_front_more [of m ?t] by (simp add: binit1_def upd_buf_def)
  ultimately show ?case by (intro exI [of _ ?B]) simp
qed

lemma binit_shape: "\<exists>lk B. binit t = t \<lparr> io_lock := lk, io_buf := B \<rparr>"
proof -
  have "\<exists>B. fold binit1 xs s = s \<lparr> io_buf := B \<rparr>" for xs and s :: "'a io_scheme"
  proof (induction xs arbitrary: s)
    case Nil
    show ?case by (intro exI [of _ "io_buf s"]) simp
  next
    case (Cons i xs)
    let ?t = "upd_buf i (b_lock_update (\<lambda>_. initsleeplock ''buffer'')) s"
    obtain B where "fold binit1 xs (binit1 i s) = (binit1 i s) \<lparr> io_buf := B \<rparr>" using Cons.IH by blast
    moreover have "binit1 i s = s \<lparr> io_buf := io_buf (push_front i ?t) \<rparr>"
      using push_front_more [of i ?t] by (simp add: binit1_def upd_buf_def)
    ultimately have "fold binit1 (i # xs) s = s \<lparr> io_buf := B \<rparr>" by simp
    then show ?case by blast
  qed
  note loop = this
  let ?t = "upd_buf NBUF (\<lambda>b. b \<lparr> b_prev := NBUF, b_next := NBUF \<rparr>) (t \<lparr> io_lock := initlock ''bcache'' \<rparr>)"
  obtain B where "fold binit1 [0..<NBUF] ?t = ?t \<lparr> io_buf := B \<rparr>" using loop by blast
  then have "binit t = t \<lparr> io_lock := initlock ''bcache'', io_buf := B \<rparr>" by (simp add: binit_def Let_def upd_buf_def)
  then show ?thesis by blast
qed

lemma binit_bc:
  assumes "rebooted p pid D t" and "d \<noteq> 0"
  shows "bc p pid d D (\<lambda>_. 0) {} (binit t)" and "io_writes (binit t) = io_writes t" and "lg_block (binit t) = lg_block t"
proof -
  let ?t = "upd_buf NBUF (\<lambda>b. b \<lparr> b_prev := NBUF, b_next := NBUF \<rparr>) (t \<lparr> io_lock := initlock ''bcache'' \<rparr>)"
  have nn: "b_next (io_buf ?t NBUF) = NBUF" "b_prev (io_buf ?t NBUF) = NBUF" by simp_all
  obtain B where B: "fold binit1 [0..<NBUF] ?t = ?t \<lparr> io_buf := B \<rparr>"
      "dll (\<lambda>j. b_next (B j)) (\<lambda>j. b_prev (B j)) NBUF (rev [0..<NBUF]) NBUF"
      "\<forall>j. b_dev (B j) = b_dev (io_buf ?t j) \<and> b_refcnt (B j) = b_refcnt (io_buf ?t j)"
      "\<forall>j < NBUF. b_lock (B j) = initsleeplock ''buffer''"
    using binit_loop [OF order_refl nn] by (elim exE conjE) (rule that)
  have t: "binit t = ?t \<lparr> io_buf := B \<rparr>" using B(1) by (simp add: binit_def Let_def)
  have "ring B (rev [0..<NBUF])" using B(2) by (auto simp: ring_def)
  moreover have "b_dev (B j) = 0" "b_refcnt (B j) = 0" for j using B(3) assms(1) by (auto simp: rebooted_def)
  ultimately show "bc p pid d D (\<lambda>_. 0) {} (binit t)"
    using assms B(4) unfolding t bc_def rebooted_def
    by (auto simp: bufs_ok_def buf_ok_def cached_def lock_free_def initlock_def initsleeplock_def)
  show "io_writes (binit t) = io_writes t" "lg_block (binit t) = lg_block t" unfolding t by (simp_all add: upd_buf_def)
qed

text \<open>Recovery at boot replays the log.\<close>

lemma apply_recover_writes: "apply_writes (recover_writes st D h0) D = (replay st D)(lbn st 0 := h0)"
  by (simp add: recover_writes_def replay_def)

lemma initlog_ok:
  fixes d :: u32
  assumes t: "rebooted p pid D t" and d: "d \<noteq> 0" and D: "\<forall>b. length (D b) = BSIZE"
    and st: "sint (sb_logstart sb) = st" "good_start st" and v: "log_valid st D"
  shows "\<exists>h0 t'. initlog (sint d) sb (binit t) = Inr t' \<and> hdr_n h0 = 0 \<and> length h0 = BSIZE \<and> io_writes t' = io_writes t @ recover_writes st D h0 \<and>
    io_disk t' = (replay st D)(lbn st 0 := h0)"
proof -
  let ?s = "binit t \<lparr> lg_lock := initlock ''log'', lg_start := sint (sb_logstart sb), lg_size := sint (sb_nlog sb), lg_dev := sint d \<rparr>"
  note b = binit_bc [OF t d]
  have s: "bc p pid d D (\<lambda>_. 0) {} ?s" using b(1) by (simp add: bc_def)
  have len: "length (lg_block ?s) = LOGSIZE" using b(3) t by (simp add: rebooted_def)
  obtain h0 t' where r: "recover_from_log ?s = Inr t'" "hdr_n h0 = 0" "length h0 = BSIZE" "io_writes t' = io_writes ?s @ recover_writes st D h0"
      "bc p pid d (apply_writes (recover_writes st D h0) D) (\<lambda>_. 0) {} t'"
    using recover_ok [OF s D _ _ st(2) len v] st(1) by (auto elim!: exE conjE)
  have "initlog (sint d) sb (binit t) = Inr t'" using r(1) by (simp add: initlog_def sizeof_logheader_def BSIZE_eq)
  moreover have "io_disk t' = (replay st D)(lbn st 0 := h0)" using bc_disk [OF r(5)] by (simp add: apply_recover_writes)
  ultimately show ?thesis using r(2,3,4) b(2) by (intro exI conjI) (assumption+, simp_all)
qed

lemma prefix_len:
  assumes "\<forall>(b, x) \<in> set ws. length x = n" and "\<forall>b. length (D b) = n"
  shows "\<forall>b. length (apply_writes (take k ws) D b) = n"
proof -
  have "\<forall>(b, x) \<in> set (take k ws). length x = n" using assms(1) by (blast dest: in_set_takeD)
  then show ?thesis using apply_writes_len [of "take k ws" n D] assms(2) by blast
qed

section \<open>An example\<close>

text \<open>A process on a hart, a disk of zeroed blocks, and a log that starts at block 2 of device 1.\<close>

definition ex_ps :: ps where
  "ex_ps = \<lparr> ps_proc = (\<lambda>q. \<lparr> p_lock = initlock ''proc'', p_state = RUNNING, p_chan = NoChan, p_killed = 0, p_xstate = 0, p_pid = 1,
      p_parent = None, p_kstack = 0, p_sz = 0, p_pagetable = 0, p_trapframe = 0, p_context = ctxt_zero, p_ofile = (\<lambda>_. None),
      p_cwd = None, p_name = [] \<rparr>),
    ps_cpu = \<lparr> cpu_proc = Some 0, cpu_context = ctxt_zero, cpu_hart = \<lparr> h_id = 0, h_noff = 0, h_intena = False, h_intr = True \<rparr> \<rparr>,
    ps_nextpid = 2, ps_pid_lock = initlock ''nextpid'', ps_wait_lock = initlock ''wait_lock'', ps_initproc = None \<rparr>"

definition ex_zero :: block where
  "ex_zero = replicate BSIZE 0"

definition ex_boot :: "(u32 \<Rightarrow> block) \<Rightarrow> logst" where
  "ex_boot D = \<lparr> io_ps = ex_ps, io_lock = initlock '''',
    io_buf = (\<lambda>_. \<lparr> b_valid = False, b_dev = 0, b_blockno = 0, b_lock = initsleeplock '''', b_refcnt = 0, b_prev = 0, b_next = 0, b_bytes = ex_zero \<rparr>),
    io_disk = D, io_writes = [], lg_lock = initlock ''log'', lg_start = 2, lg_size = 30, lg_outstanding = 0, lg_committing = False,
    lg_dev = 1, lg_n = 0, lg_block = replicate LOGSIZE 0 \<rparr>"

definition read_log_sb :: "u32 \<Rightarrow> superblock" where
  "read_log_sb st = \<lparr> sb_magic = 0, sb_size = 0, sb_nblocks = 0, sb_ninodes = 0, sb_nlog = 30, sb_logstart = st, sb_inodestart = 0, sb_bmapstart = 0 \<rparr>"

lemma ex_rebooted: "rebooted 0 1 D (ex_boot D)"
  by (simp add: rebooted_def ex_boot_def ex_ps_def calm_def hart_ok_def initlock_def)

lemma ex_zero_len: "length ex_zero = BSIZE"
  by (simp add: ex_zero_def)

lemma ex_zero_hdr: "hdr_n ex_zero = 0"
  by (simp add: hdr_n_def get32_def lh_n_def ex_zero_def BSIZE_eq)

lemma ex_out: "(50 :: u32) \<notin> log_area 2"
proof
  assume "(50 :: u32) \<in> log_area 2"
  then obtain k where k: "k \<le> LOGSIZE" "(50 :: u32) = word_of_int (2 + int k)" by (auto simp: log_area_def lbn_def)
  have "sint (word_of_int (2 + int k) :: u32) = 2 + int k" using k(1) by (intro sint_small) simp_all
  moreover have "sint (50 :: u32) = 50" by simp
  ultimately show False using k by simp
qed

text \<open>The state at the start of a transaction.\<close>

definition ex_begun :: logst where
  "ex_begun = binit (ex_boot (\<lambda>_. ex_zero)) \<lparr> lg_outstanding := 1 \<rparr>"

lemma ex_begun_txn: "txn 0 1 1 2 (\<lambda>_. ex_zero) (\<lambda>_. 50) 0 ex_begun" "lg_size ex_begun = 30" "io_disk ex_begun = (\<lambda>_. ex_zero)"
proof -
  obtain lk B where b: "binit (ex_boot (\<lambda>_. ex_zero)) = ex_boot (\<lambda>_. ex_zero) \<lparr> io_lock := lk, io_buf := B \<rparr>"
    using binit_shape by blast
  have p: "pinned (\<lambda>_. 50) 0 = (\<lambda>_. 0)" by (auto simp: pinned_def)
  have "bc 0 1 1 (\<lambda>_. ex_zero) (\<lambda>_. 0) {} ex_begun" using binit_bc(1) [OF ex_rebooted, of 1] by (simp add: ex_begun_def)
  moreover have "lg_dev ex_begun = 1" "lg_start ex_begun = 2" "lg_n ex_begun = 0" "lg_block ex_begun = replicate LOGSIZE 0"
      "lg_outstanding ex_begun = 1" "lg_lock ex_begun = initlock ''log''"
    unfolding ex_begun_def b by (simp_all add: ex_boot_def)
  ultimately show "txn 0 1 1 2 (\<lambda>_. ex_zero) (\<lambda>_. 50) 0 ex_begun"
    by (simp add: txn_def p log_at_def good_start_def NBUF_eq lock_free_def initlock_def)
  show "lg_size ex_begun = 30" "io_disk ex_begun = (\<lambda>_. ex_zero)" unfolding ex_begun_def b by (simp_all add: ex_boot_def)
qed

lemma ex_add: "add_block 50 (\<lambda>_. 50, 0) = (\<lambda>_. 50, 1)"
  by (auto simp: add_block_def)

text \<open>A state in the middle of a transaction that has changed block 50.\<close>

lemma ex_transaction:
  "\<exists>s :: logst. log_at 1 2 (\<lambda>_. 50) 1 s \<and> bc 0 1 1 ((\<lambda>_. ex_zero)(50 := replicate BSIZE 7)) (pinned (\<lambda>_. 50) 1) {} s \<and>
    lg_n s = 1 \<and> io_disk s = (\<lambda>_. ex_zero)"
proof -
  have "0 + 1 < NBUF" "int 0 < lg_size ex_begun - 1" by (simp_all add: NBUF_eq ex_begun_txn(2))
  from txn_write [OF ex_begun_txn(1) this ex_out ex_add, of "replicate BSIZE 7"] ex_begun_txn(3)
  show ?thesis unfolding txn_def by (elim exE conjE) (rule exI, intro conjI, assumption, assumption, simp, simp)
qed

section \<open>Properties\<close>

text \<open>C35: committing is atomic under crashes.  Let a transaction have changed \<open>n\<close> blocks in the cache.
  \<open>commit\<close> returns with the new contents on disk; and if the machine stops after any number of its disk writes, then
  \<open>initlog\<close> at the next start returns with either the old or the new contents of every block outside
  the log, never a mixture.
\<close>

theorem commit_crash_atomic:
  fixes d :: u32
  assumes at: "log_at d st bs n s" and bc: "bc p pid d V (pinned bs n) {} s" and V: "\<forall>b. length (V b) = BSIZE"
    and n: "lg_n s = int n" "0 < n" "n < NBUF" and D: "\<forall>b. length (io_disk s b) = BSIZE" "hdr_n (io_disk s (lbn st 0)) = 0"
    and d: "d \<noteq> 0" and sb: "sint (sb_logstart sb) = st"
  shows "\<exists>s' ws. commit s = Inr s' \<and> io_writes s' = io_writes s @ ws \<and> (\<forall>b. b \<notin> log_area st \<longrightarrow> io_disk s' b = V b) \<and>
    (\<forall>k q qid t. rebooted q qid (apply_writes (take k ws) (io_disk s)) (t :: logst) \<longrightarrow>
      (\<exists>t'. initlog (sint d) sb (binit t) = Inr t' \<and>
        ((\<forall>b. b \<notin> log_area st \<longrightarrow> io_disk t' b = io_disk s b) \<or> (\<forall>b. b \<notin> log_area st \<longrightarrow> io_disk t' b = V b))))"
proof -
  have A: "good_start st" "n \<le> LOGSIZE" "inj_on bs {..<n}" "\<forall>i < n. bs i \<notin> log_area st" using at by (simp_all add: log_at_def)
  obtain h1 h0 s' where c: "commit s = Inr s'" "hdr_n h1 = int n" "\<forall>i < n. hdr_b h1 i = bs i" "hdr_n h0 = 0"
      "length h1 = BSIZE" "length h0 = BSIZE" "io_run p pid (commit_writes st bs V n h1 h0) (s \<lparr> lg_n := 0 \<rparr>) s'"
    using commit_ok [OF at bc V n] by (elim exE conjE) (rule that)
  let ?ws = "commit_writes st bs V n h1 h0"
  have clean: "\<forall>b. b \<notin> log_area st \<and> b \<notin> bs ` {..<n} \<longrightarrow> V b = io_disk s b"
    using bc_parts(3) [OF bc] by (auto simp: bufs_ok_def pinned_def)
  note pre = commit_prefix [OF A D(2) c(2,3,4) clean]
  have len: "\<forall>(b, x) \<in> set ?ws. length x = BSIZE" using V c(5,6) by (auto simp: commit_writes_def writes_to_def)
  have rec: "\<exists>t'. initlog (sint d) sb (binit t) = Inr t' \<and>
      ((\<forall>b. b \<notin> log_area st \<longrightarrow> io_disk t' b = io_disk s b) \<or> (\<forall>b. b \<notin> log_area st \<longrightarrow> io_disk t' b = V b))"
    if t: "rebooted q qid (apply_writes (take k ?ws) (io_disk s)) (t :: logst)" for k q qid t
  proof -
    let ?D = "apply_writes (take k ?ws) (io_disk s)"
    obtain h t' where i: "initlog (sint d) sb (binit t) = Inr t'" "io_disk t' = (replay st ?D)(lbn st 0 := h)"
      using initlog_ok [OF t d prefix_len [OF len D(1)] sb A(1) conjunct1 [OF pre [of k]]] by (elim exE conjE) (rule that)
    have "b \<noteq> lbn st 0" if "b \<notin> log_area st" for b using that lbn_in [of 0 st] by auto
    then show ?thesis using pre [of k] i by (intro exI [of _ t']) auto
  qed
  have "io_disk s' b = V b" if b: "b \<notin> log_area st" for b
  proof -
    have dk: "io_disk s' = apply_writes ?ws (io_disk s)" using io_run_fields(1) [OF c(7)] by simp
    show ?thesis unfolding dk by (rule commit_done [OF A(2,3) clean b])
  qed
  then show ?thesis using c(1) io_run_fields(2) [OF c(7)] rec by (intro exI [of _ s'] exI [of _ ?ws]) auto
qed

theorem commit_crash_atomic_witness:
  "\<exists>(s :: logst) s' ws. commit s = Inr s' \<and> io_writes s' = io_writes s @ ws \<and> io_disk s 50 = ex_zero \<and> io_disk s' 50 = replicate BSIZE 7 \<and>
    (\<exists>t'. initlog 1 (read_log_sb 2) (binit (ex_boot (apply_writes (take 2 ws) (io_disk s)))) = Inr t' \<and>
      (io_disk t' 50 = ex_zero \<or> io_disk t' 50 = replicate BSIZE 7))"
proof -
  obtain s :: logst where s: "log_at 1 2 (\<lambda>_. 50) 1 s" "bc 0 1 1 ((\<lambda>_. ex_zero)(50 := replicate BSIZE 7)) (pinned (\<lambda>_. 50) 1) {} s"
      "lg_n s = 1" "io_disk s = (\<lambda>_. ex_zero)"
    using ex_transaction by blast
  note out = ex_out
  have V: "\<forall>b. length (((\<lambda>_ :: u32. ex_zero)(50 := replicate BSIZE 7)) b) = BSIZE" by (simp add: ex_zero_len)
  have h: "lg_n s = int 1" "(0 :: nat) < 1" "1 < NBUF" "\<forall>b. length (io_disk s b) = BSIZE" "hdr_n (io_disk s (lbn 2 0)) = 0" "(1 :: u32) \<noteq> 0"
      "sint (sb_logstart (read_log_sb 2)) = 2"
    using s(3,4) by (simp_all add: NBUF_eq ex_zero_len ex_zero_hdr read_log_sb_def)
  from commit_crash_atomic [OF s(1,2) V h] obtain s' ws where c: "commit s = Inr s'" "io_writes s' = io_writes s @ ws"
      "\<forall>b. b \<notin> log_area 2 \<longrightarrow> io_disk s' b = ((\<lambda>_. ex_zero)(50 := replicate BSIZE 7)) b"
      "\<forall>k q qid t. rebooted q qid (apply_writes (take k ws) (io_disk s)) (t :: logst) \<longrightarrow>
        (\<exists>t'. initlog (sint (1 :: u32)) (read_log_sb 2) (binit t) = Inr t' \<and>
        ((\<forall>b. b \<notin> log_area 2 \<longrightarrow> io_disk t' b = io_disk s b) \<or> (\<forall>b. b \<notin> log_area 2 \<longrightarrow> io_disk t' b = ((\<lambda>_. ex_zero)(50 := replicate BSIZE 7)) b)))"
    by (elim exE conjE) (rule that)
  obtain t' where t': "initlog (sint (1 :: u32)) (read_log_sb 2) (binit (ex_boot (apply_writes (take 2 ws) (io_disk s)))) = Inr t'"
      "(\<forall>b. b \<notin> log_area 2 \<longrightarrow> io_disk t' b = io_disk s b) \<or> (\<forall>b. b \<notin> log_area 2 \<longrightarrow> io_disk t' b = ((\<lambda>_. ex_zero)(50 := replicate BSIZE 7)) b)"
    using c(4) ex_rebooted by blast
  have "io_disk t' 50 = ex_zero \<or> io_disk t' 50 = replicate BSIZE 7" using t'(2) out s(4) by auto
  moreover have "sint (1 :: u32) = 1" by simp
  ultimately show ?thesis using c(1,2,3) t'(1) out s(4) by (intro exI [of _ s] exI [of _ s'] exI [of _ ws] conjI exI [of _ t']) auto
qed



text \<open>C36: recovery can be repeated.  Started on a disk with a valid log, \<open>initlog\<close> returns with the log
  replayed; and if the machine stops after any number of the disk writes of the recovery, then the
  recovery at the next start gives the same contents outside the log.
\<close>

theorem recovery_crash_idempotent:
  fixes d :: u32
  assumes t: "rebooted p pid D (t :: logst)" and d: "d \<noteq> 0" and D: "\<forall>b. length (D b) = BSIZE"
    and st: "sint (sb_logstart sb) = st" "good_start st" and v: "log_valid st D"
  shows "\<exists>t' ws. initlog (sint d) sb (binit t) = Inr t' \<and> io_writes t' = io_writes t @ ws \<and>
    (\<forall>b. b \<notin> log_area st \<longrightarrow> io_disk t' b = replay st D b) \<and>
    (\<forall>k q qid u. rebooted q qid (apply_writes (take k ws) D) (u :: logst) \<longrightarrow>
      (\<exists>u'. initlog (sint d) sb (binit u) = Inr u' \<and> (\<forall>b. b \<notin> log_area st \<longrightarrow> io_disk u' b = replay st D b)))"
proof -
  have b0: "b \<noteq> lbn st 0" if "b \<notin> log_area st" for b using that lbn_in [of 0 st] by auto
  obtain h0 t' where r: "initlog (sint d) sb (binit t) = Inr t'" "hdr_n h0 = 0" "length h0 = BSIZE" "io_writes t' = io_writes t @ recover_writes st D h0"
      "io_disk t' = (replay st D)(lbn st 0 := h0)"
    using initlog_ok [OF t d D st v] by (elim exE conjE) (rule that)
  let ?ws = "recover_writes st D h0"
  have pre: "log_valid st (apply_writes (take k ?ws) D)"
      "\<And>b. b \<notin> log_area st \<Longrightarrow> replay st (apply_writes (take k ?ws) D) b = replay st D b" for k
    using recover_prefix [OF v r(2), of k] unfolding recover_writes_def by blast+
  have len: "\<forall>(b, x) \<in> set ?ws. length x = BSIZE" using D r(3) by (auto simp: recover_writes_def writes_to_def)
  have "\<exists>u'. initlog (sint d) sb (binit u) = Inr u' \<and> (\<forall>b. b \<notin> log_area st \<longrightarrow> io_disk u' b = replay st D b)"
    if u: "rebooted q qid (apply_writes (take k ?ws) D) (u :: logst)" for k q qid u
  proof -
    obtain h u' where i: "initlog (sint d) sb (binit u) = Inr u'" "io_disk u' = (replay st (apply_writes (take k ?ws) D))(lbn st 0 := h)"
      using initlog_ok [OF u d prefix_len [OF len D] st pre(1)] by (elim exE conjE) (rule that)
    then show ?thesis using pre(2) [of _ k] b0 by (intro exI [of _ u']) auto
  qed
  then show ?thesis using r b0 by (intro exI [of _ t'] exI [of _ ?ws]) auto
qed

text \<open>A disk that crashed after a commit of block 50.\<close>

definition ex_logged :: "u32 \<Rightarrow> block" where
  "ex_logged = (\<lambda>_. ex_zero)(lbn 2 0 := head_data (replicate LOGSIZE 50) 1 ex_zero, lbn 2 1 := replicate BSIZE 7)"

theorem recovery_crash_idempotent_witness:
  "\<exists>t' ws u'. initlog 1 (read_log_sb 2) (binit (ex_boot ex_logged)) = Inr t' \<and> io_writes t' = ws \<and> io_disk t' 50 = replicate BSIZE 7 \<and>
    initlog 1 (read_log_sb 2) (binit (ex_boot (apply_writes (take 1 ws) ex_logged))) = Inr u' \<and> io_disk u' 50 = replicate BSIZE 7"
proof -
  have st: "sint (sb_logstart (read_log_sb 2)) = 2" "good_start 2" by (simp_all add: read_log_sb_def good_start_def)
  have l01: "lbn 2 0 \<noteq> lbn 2 1" using lbn_eq [OF st(2), of 0 1] by simp
  have len: "\<forall>b. length (ex_logged b) = BSIZE" by (simp add: ex_logged_def ex_zero_len)
  note hd = hdr_head_data [OF ex_zero_len, where n = 1 and bl = "replicate LOGSIZE 50"]
  have h: "ex_logged (lbn 2 0) = head_data (replicate LOGSIZE 50) 1 ex_zero" using l01 by (simp add: ex_logged_def)
  have h1: "hdr_n (ex_logged (lbn 2 0)) = 1" "hdr_b (ex_logged (lbn 2 0)) 0 = 50" using hd unfolding h by simp_all
  note out = ex_out
  have v: "log_valid 2 ex_logged" unfolding log_valid_def h1 using h1 out by (auto simp: inj_on_def)
  have r: "replay 2 ex_logged 50 = replicate BSIZE 7"
    using replay_logged [OF v, of 0] h1 by (simp add: ex_logged_def)
  have one: "sint (1 :: u32) = 1" "(1 :: u32) \<noteq> 0" by simp_all
  from recovery_crash_idempotent [OF ex_rebooted one(2) len st v] obtain t' ws where
    t': "initlog (sint (1 :: u32)) (read_log_sb 2) (binit (ex_boot ex_logged)) = Inr t'" "io_writes t' = io_writes (ex_boot ex_logged) @ ws"
      "\<forall>b. b \<notin> log_area 2 \<longrightarrow> io_disk t' b = replay 2 ex_logged b"
      "\<forall>k q qid u. rebooted q qid (apply_writes (take k ws) ex_logged) (u :: logst) \<longrightarrow>
        (\<exists>u'. initlog (sint (1 :: u32)) (read_log_sb 2) (binit u) = Inr u' \<and> (\<forall>b. b \<notin> log_area 2 \<longrightarrow> io_disk u' b = replay 2 ex_logged b))"
    by (elim exE conjE) (rule that)
  obtain u' where u': "initlog (sint (1 :: u32)) (read_log_sb 2) (binit (ex_boot (apply_writes (take 1 ws) ex_logged))) = Inr u'"
      "\<forall>b. b \<notin> log_area 2 \<longrightarrow> io_disk u' b = replay 2 ex_logged b"
    using t'(4) ex_rebooted by blast
  have "io_writes (ex_boot ex_logged) = []" by (simp add: ex_boot_def)
  then have w: "io_writes t' = ws" using t'(2) by simp
  have d: "io_disk t' 50 = replicate BSIZE 7" "io_disk u' 50 = replicate BSIZE 7"
    using spec [OF t'(3), of 50] spec [OF u'(2), of 50] out r by simp_all
  show ?thesis using t'(1) w d(1) u'(1) d(2) unfolding one(1) by (intro exI conjI)
qed

end
