(* ===== verification/Fs.thy ===== *)
theory Fs
  imports Log Vm Cstring
begin

text \<open>
  kernel/fs.c: disk blocks, inodes, directories and path names, over the log (theory Log).  Inodes are named
  by their index in \<open>itable.inode\<close>.  The functions act as the calling process sees them: waiting for an
  inode another process has locked is \<open>Diverges\<close>.  What \<open>printf\<close> reports is left out.
\<close>

section \<open>Data\<close>

definition ROOTDEV :: u32 where "ROOTDEV = 1"
definition ROOTINO :: u32 where "ROOTINO = 1"
definition NINODE :: nat where "NINODE = 50"
definition FSMAGIC :: u32 where "FSMAGIC = 0x10203040"
definition NDIRECT :: nat where "NDIRECT = 12"
definition NINDIRECT :: nat where "NINDIRECT = BSIZE div 4"
definition MAXFILE :: nat where "MAXFILE = NDIRECT + NINDIRECT"
definition sizeof_dinode :: nat where "sizeof_dinode = 12 + 4 * (NDIRECT + 1)"
definition IPB :: nat where "IPB = BSIZE div sizeof_dinode"
definition BPB :: nat where "BPB = BSIZE * 8"
definition DIRSIZ :: nat where "DIRSIZ = 14"
definition sizeof_dirent :: nat where "sizeof_dirent = 2 + DIRSIZ"
definition T_DIR :: int where "T_DIR = 1"
definition T_FILE :: int where "T_FILE = 2"
definition T_DEVICE :: int where "T_DEVICE = 3"

definition IBLOCK :: "u32 \<Rightarrow> superblock \<Rightarrow> u32" where
  "IBLOCK i sb = i div of_nat IPB + sb_inodestart sb"

definition BBLOCK :: "u32 \<Rightarrow> superblock \<Rightarrow> u32" where
  "BBLOCK b sb = b div of_nat BPB + sb_bmapstart sb"

text \<open>\<open>struct inode\<close> of kernel/file.h; a \<open>short\<close> is an \<open>int\<close> in its range.\<close>

record inode =
  i_dev :: u32
  i_inum :: u32
  i_ref :: int
  i_lock :: sleeplock
  i_valid :: bool
  i_type :: int
  i_major :: int
  i_minor :: int
  i_nlink :: int
  i_size :: u32
  i_addrs :: "u32 list"

record stat =
  st_dev :: int
  st_ino :: u32
  st_type :: int
  st_nlink :: int
  st_size :: u64

text \<open>The globals of fs.c, and the memory that \<open>either_copyin\<close> and \<open>either_copyout\<close> reach.\<close>

record fsst = logst +
  fs_sb :: superblock
  it_lock :: spinlock
  it_inode :: "nat \<Rightarrow> inode"
  fs_vm :: vm

definition upd_ino :: "nat \<Rightarrow> (inode \<Rightarrow> inode) \<Rightarrow> 'a fsst_scheme \<Rightarrow> 'a fsst_scheme" where
  "upd_ino i f s = s \<lparr> it_inode := (it_inode s)(i := f (it_inode s i)) \<rparr>"

definition upd_data :: "nat \<Rightarrow> (Bio.block \<Rightarrow> Bio.block) \<Rightarrow> 'a io_scheme \<Rightarrow> 'a io_scheme" where
  "upd_data i f s = upd_buf i (\<lambda>b. b \<lparr> b_bytes := f (b_bytes b) \<rparr>) s"

abbreviation data_of :: "nat \<Rightarrow> 'a io_scheme \<Rightarrow> Bio.block" where
  "data_of i s \<equiv> b_bytes (io_buf s i)"

definition get16 :: "nat \<Rightarrow> Bio.block \<Rightarrow> u16" where
  "get16 off d = ucast (d ! off) OR push_bit 8 (ucast (d ! (off + 1)))"

definition put16 :: "nat \<Rightarrow> u16 \<Rightarrow> Bio.block \<Rightarrow> Bio.block" where
  "put16 off w d = d[off := ucast w, off + 1 := ucast (drop_bit 8 w)]"

text \<open>\<open>memmove\<close> of a run of bytes into a block.\<close>

definition put_bytes :: "nat \<Rightarrow> u8 list \<Rightarrow> Bio.block \<Rightarrow> Bio.block" where
  "put_bytes off bs d = take off d @ bs @ drop (off + length bs) d"

section \<open>Blocks\<close>

definition read_sb :: "Bio.block \<Rightarrow> superblock" where
  "read_sb d = \<lparr> sb_magic = get32 0 d, sb_size = get32 4 d, sb_nblocks = get32 8 d, sb_ninodes = get32 12 d,
     sb_nlog = get32 16 d, sb_logstart = get32 20 d, sb_inodestart = get32 24 d, sb_bmapstart = get32 28 d \<rparr>"

definition readsb :: "u32 \<Rightarrow> 'a fsst_scheme \<Rightarrow> 'a fsst_scheme res" where
  "readsb dev s =
    bindE (bread dev 1 s) (\<lambda>(bp, s). brelse bp (s \<lparr> fs_sb := read_sb (data_of bp s) \<rparr>))"

definition fsinit :: "u32 \<Rightarrow> 'a fsst_scheme \<Rightarrow> 'a fsst_scheme res" where
  "fsinit dev s =
    bindE (readsb dev s) (\<lambda>s.
    guardE (sb_magic (fs_sb s) = FSMAGIC) (Panic ''invalid file system'') (initlog (sint dev) (fs_sb s) s))"

definition bzero :: "u32 \<Rightarrow> u32 \<Rightarrow> 'a fsst_scheme \<Rightarrow> 'a fsst_scheme res" where
  "bzero dev bno s =
    bindE (bread dev bno s) (\<lambda>(bp, s).
    bindE (log_write bp (upd_data bp (\<lambda>d. replicate BSIZE 0) s)) (brelse bp))"

text \<open>The bit of block \<open>bi\<close> in a block of the free map, and the loop of \<open>balloc\<close> over one such block.\<close>

definition bmask :: "nat \<Rightarrow> u8" where
  "bmask bi = push_bit (bi mod 8) 1"

definition bit_free :: "nat \<Rightarrow> Bio.block \<Rightarrow> bool" where
  "bit_free bi d \<longleftrightarrow> (d ! (bi div 8)) AND bmask bi = 0"

definition set_used :: "nat \<Rightarrow> Bio.block \<Rightarrow> Bio.block" where
  "set_used bi d = d[bi div 8 := (d ! (bi div 8)) OR bmask bi]"

definition set_free :: "nat \<Rightarrow> Bio.block \<Rightarrow> Bio.block" where
  "set_free bi d = d[bi div 8 := (d ! (bi div 8)) AND NOT (bmask bi)]"

definition free_bit :: "nat \<Rightarrow> nat \<Rightarrow> Bio.block \<Rightarrow> nat option" where
  "free_bit b sz d = find (\<lambda>bi. bit_free bi d) [0..<min BPB (sz - b)]"

fun balloc_loop :: "u32 \<Rightarrow> nat list \<Rightarrow> 'a fsst_scheme \<Rightarrow> (u32 \<times> 'a fsst_scheme) res" where
  "balloc_loop dev [] s = Inr (0, s)"
| "balloc_loop dev (b # bs) s =
    bindE (bread dev (BBLOCK (of_nat b) (fs_sb s)) s) (\<lambda>(bp, s).
    (case free_bit b (unat (sb_size (fs_sb s))) (data_of bp s) of
       Some bi \<Rightarrow>
         bindE (log_write bp (upd_data bp (set_used bi) s)) (\<lambda>s.
         bindE (brelse bp s) (\<lambda>s.
         bindE (bzero dev (of_nat (b + bi)) s) (\<lambda>s. Inr (of_nat (b + bi), s))))
     | None \<Rightarrow> bindE (brelse bp s) (balloc_loop dev bs)))"

definition balloc :: "u32 \<Rightarrow> 'a fsst_scheme \<Rightarrow> (u32 \<times> 'a fsst_scheme) res" where
  "balloc dev s = balloc_loop dev [b \<leftarrow> map (\<lambda>k. k * BPB) [0..<unat (sb_size (fs_sb s)) div BPB + 1]. b < unat (sb_size (fs_sb s))] s"

definition bfree :: "u32 \<Rightarrow> u32 \<Rightarrow> 'a fsst_scheme \<Rightarrow> 'a fsst_scheme res" where
  "bfree dev b s =
    bindE (bread dev (BBLOCK b (fs_sb s)) s) (\<lambda>(bp, s).
    (let bi = unat b mod BPB in
     guardE (\<not> bit_free bi (data_of bp s)) (Panic ''freeing free block'')
      (bindE (log_write bp (upd_data bp (set_free bi) s)) (brelse bp))))"

section \<open>Inodes\<close>

definition acquire_it :: "'a fsst_scheme \<Rightarrow> 'a fsst_scheme res" where
  "acquire_it s =
    bindE (acquire (it_lock s) (ps_hart (io_ps s))) (\<lambda>(lk, c). Inr (s \<lparr> it_lock := lk, io_ps := set_hart c (io_ps s) \<rparr>))"

definition release_it :: "'a fsst_scheme \<Rightarrow> 'a fsst_scheme res" where
  "release_it s =
    bindE (release (it_lock s) (ps_hart (io_ps s))) (\<lambda>(lk, c). Inr (s \<lparr> it_lock := lk, io_ps := set_hart c (io_ps s) \<rparr>))"

definition lock_ino :: "nat \<Rightarrow> 'a fsst_scheme \<Rightarrow> 'a fsst_scheme res" where
  "lock_ino i s =
    bindE (acquiresleep (i_lock (it_inode s i)) (io_ps s)) (\<lambda>(lk, p).
      Inr (upd_ino i (\<lambda>x. x \<lparr> i_lock := lk \<rparr>) (s \<lparr> io_ps := p \<rparr>)))"

definition unlock_ino :: "nat \<Rightarrow> 'a fsst_scheme \<Rightarrow> 'a fsst_scheme res" where
  "unlock_ino i s =
    bindE (releasesleep (InodeChan i) (i_lock (it_inode s i)) (io_ps s)) (\<lambda>(lk, p).
      Inr (upd_ino i (\<lambda>x. x \<lparr> i_lock := lk \<rparr>) (s \<lparr> io_ps := p \<rparr>)))"

definition iinit :: "'a fsst_scheme \<Rightarrow> 'a fsst_scheme" where
  "iinit s =
    fold (\<lambda>i. upd_ino i (\<lambda>x. x \<lparr> i_lock := initsleeplock ''inode'' \<rparr>)) [0..<NINODE] (s \<lparr> it_lock := initlock ''itable'' \<rparr>)"

text \<open>The fields of a \<open>struct dinode\<close> at offset \<open>o\<close> of a block, read into and written from an inode.\<close>

definition dinode_off :: "u32 \<Rightarrow> nat" where
  "dinode_off inum = (unat inum mod IPB) * sizeof_dinode"

definition load_dinode :: "nat \<Rightarrow> Bio.block \<Rightarrow> inode \<Rightarrow> inode" where
  "load_dinode off d ip = ip \<lparr> i_type := sint (get16 off d), i_major := sint (get16 (off + 2) d), i_minor := sint (get16 (off + 4) d),
     i_nlink := sint (get16 (off + 6) d), i_size := get32 (off + 8) d, i_addrs := map (\<lambda>k. get32 (off + 12 + 4 * k) d) [0..<NDIRECT + 1] \<rparr>"

definition store_addrs :: "nat \<Rightarrow> u32 list \<Rightarrow> Bio.block \<Rightarrow> Bio.block" where
  "store_addrs off as d = fold (\<lambda>k. put32 (off + 4 * k) (as ! k)) [0..<NDIRECT + 1] d"

definition store_dinode :: "nat \<Rightarrow> inode \<Rightarrow> Bio.block \<Rightarrow> Bio.block" where
  "store_dinode off ip d =
    store_addrs (off + 12) (i_addrs ip) (put32 (off + 8) (i_size ip) (put16 (off + 6) (word_of_int (i_nlink ip))
      (put16 (off + 4) (word_of_int (i_minor ip)) (put16 (off + 2) (word_of_int (i_major ip)) (put16 off (word_of_int (i_type ip)) d)))))"

fun iget_loop :: "u32 \<Rightarrow> u32 \<Rightarrow> nat option \<Rightarrow> nat list \<Rightarrow> (nat \<Rightarrow> inode) \<Rightarrow> nat option \<times> nat option" where
  "iget_loop dev inum e [] T = (None, e)"
| "iget_loop dev inum e (i # is) T =
    (if i_ref (T i) > 0 \<and> i_dev (T i) = dev \<and> i_inum (T i) = inum then (Some i, e)
     else iget_loop dev inum (if e = None \<and> i_ref (T i) = 0 then Some i else e) is T)"

definition iget :: "u32 \<Rightarrow> u32 \<Rightarrow> 'a fsst_scheme \<Rightarrow> (nat \<times> 'a fsst_scheme) res" where
  "iget dev inum s =
    bindE (acquire_it s) (\<lambda>s.
    (case iget_loop dev inum None [0..<NINODE] (it_inode s) of
       (Some i, _) \<Rightarrow> bindE (release_it (upd_ino i (\<lambda>x. x \<lparr> i_ref := i_ref x + 1 \<rparr>) s)) (\<lambda>s. Inr (i, s))
     | (None, None) \<Rightarrow> Inl (Panic ''iget: no inodes'')
     | (None, Some i) \<Rightarrow>
         bindE (release_it (upd_ino i (\<lambda>x. x \<lparr> i_dev := dev, i_inum := inum, i_ref := 1, i_valid := False \<rparr>) s)) (\<lambda>s. Inr (i, s))))"

fun ialloc_loop :: "u32 \<Rightarrow> int \<Rightarrow> nat list \<Rightarrow> 'a fsst_scheme \<Rightarrow> (nat option \<times> 'a fsst_scheme) res" where
  "ialloc_loop dev type [] s = Inr (None, s)"
| "ialloc_loop dev type (inum # is) s =
    bindE (bread dev (IBLOCK (of_nat inum) (fs_sb s)) s) (\<lambda>(bp, s).
    (let off = dinode_off (of_nat inum) in
     if get16 off (data_of bp s) = 0 then
       bindE (log_write bp (upd_data bp (\<lambda>d. put16 off (word_of_int type) (put_bytes off (replicate sizeof_dinode 0) d)) s)) (\<lambda>s.
       bindE (brelse bp s) (\<lambda>s.
       bindE (iget dev (of_nat inum) s) (\<lambda>(i, s). Inr (Some i, s))))
     else bindE (brelse bp s) (ialloc_loop dev type is)))"

definition ialloc :: "u32 \<Rightarrow> int \<Rightarrow> 'a fsst_scheme \<Rightarrow> (nat option \<times> 'a fsst_scheme) res" where
  "ialloc dev type s = ialloc_loop dev type [1..<unat (sb_ninodes (fs_sb s))] s"

definition iupdate :: "nat \<Rightarrow> 'a fsst_scheme \<Rightarrow> 'a fsst_scheme res" where
  "iupdate i s =
    (let ip = it_inode s i in
     bindE (bread (i_dev ip) (IBLOCK (i_inum ip) (fs_sb s)) s) (\<lambda>(bp, s).
     bindE (log_write bp (upd_data bp (store_dinode (dinode_off (i_inum ip)) ip) s)) (brelse bp)))"

definition idup :: "nat \<Rightarrow> 'a fsst_scheme \<Rightarrow> 'a fsst_scheme res" where
  "idup i s = bindE (acquire_it s) (\<lambda>s. release_it (upd_ino i (\<lambda>x. x \<lparr> i_ref := i_ref x + 1 \<rparr>) s))"

definition ilock :: "nat \<Rightarrow> 'a fsst_scheme \<Rightarrow> 'a fsst_scheme res" where
  "ilock i s =
    guardE (\<not> i_ref (it_inode s i) < 1) (Panic ''ilock'')
     (bindE (lock_ino i s) (\<lambda>s.
      if \<not> i_valid (it_inode s i) then
        (let ip = it_inode s i in
         bindE (bread (i_dev ip) (IBLOCK (i_inum ip) (fs_sb s)) s) (\<lambda>(bp, s).
         bindE (brelse bp (upd_ino i (load_dinode (dinode_off (i_inum ip)) (data_of bp s)) s)) (\<lambda>s.
         guardE (i_type (it_inode s i) \<noteq> 0) (Panic ''ilock: no type'') (Inr (upd_ino i (\<lambda>x. x \<lparr> i_valid := True \<rparr>) s)))))
      else Inr s))"

definition iunlock :: "nat \<Rightarrow> 'a fsst_scheme \<Rightarrow> 'a fsst_scheme res" where
  "iunlock i s =
    bindE (holdingsleep (i_lock (it_inode s i)) (io_ps s)) (\<lambda>(r, lk, p).
    (let s = upd_ino i (\<lambda>x. x \<lparr> i_lock := lk \<rparr>) (s \<lparr> io_ps := p \<rparr>) in
     guardE (r \<and> \<not> i_ref (it_inode s i) < 1) (Panic ''iunlock'') (unlock_ino i s)))"

end
