(* ===== verification/Fs_Files.thy ===== *)
theory Fs_Files
  imports Fs
begin

text \<open>
  The rest of kernel/fs.c: the contents of inodes, dropping inodes, directories and path names; and
  \<open>either_copyin\<close> and \<open>either_copyout\<close> of kernel/proc.c.
\<close>

section \<open>Copying to and from user space\<close>

text \<open>
  \<open>copyout\<close> and \<open>copyin\<close> of theory Vm work on the bytes at a kernel address; buffers and local variables
  of the file system are values here, so these two take and give the bytes themselves.
\<close>

definition store_bytes :: "addr \<Rightarrow> u8 list \<Rightarrow> cmem \<Rightarrow> cmem" where
  "store_bytes a bs m = fold (\<lambda>(i, b) m. m(a + of_nat i := b)) (enumerate 0 bs) m"

definition load_bytes :: "addr \<Rightarrow> nat \<Rightarrow> cmem \<Rightarrow> u8 list" where
  "load_bytes a n m = map (\<lambda>i. m (a + of_nat i)) [0..<n]"

lemma page_part_pos: "0 < unat (PGSIZE - (va - PGROUNDDOWN va))"
proof -
  have "va - PGROUNDDOWN va \<le> PGSIZE" by (simp add: word_le_nat_alt page_offset less_imp_le)
  then have "unat (PGSIZE - (va - PGROUNDDOWN va)) = 4096 - unat va mod 4096" by (simp add: unat_sub page_offset)
  moreover have "unat va mod 4096 < 4096" by simp
  ultimately show ?thesis by linarith
qed

function copyout_bytes :: "addr \<Rightarrow> u64 \<Rightarrow> u8 list \<Rightarrow> vm \<Rightarrow> (int \<times> vm) res" where
  "copyout_bytes pt dstva bs s =
    (if bs = [] then Inr (0, s)
     else (let va0 = PGROUNDDOWN dstva in
       bindE (walkaddr pt va0 s) (\<lambda>(pa0, s).
       if pa0 = 0 then Inr (-1, s)
       else (let n = min (unat (PGSIZE - (dstva - va0))) (length bs) in
         copyout_bytes pt (va0 + PGSIZE) (drop n bs)
           (s \<lparr> vm_mem := store_bytes (pa0 + (dstva - va0)) (take n bs) (vm_mem s) \<rparr>)))))"
  by pat_completeness auto
termination
  by (relation "measure (\<lambda>(pt, dstva, bs, s). length bs)") (auto simp: page_part_pos simp flip: length_greater_0_conv)

function copyin_bytes :: "addr \<Rightarrow> u64 \<Rightarrow> nat \<Rightarrow> vm \<Rightarrow> (int \<times> u8 list \<times> vm) res" where
  "copyin_bytes pt srcva len s =
    (if len = 0 then Inr (0, [], s)
     else (let va0 = PGROUNDDOWN srcva in
       bindE (walkaddr pt va0 s) (\<lambda>(pa0, s).
       if pa0 = 0 then Inr (-1, [], s)
       else (let n = min (unat (PGSIZE - (srcva - va0))) len in
         (let part = load_bytes (pa0 + (srcva - va0)) n (vm_mem s) in
          bindE (copyin_bytes pt (va0 + PGSIZE) (len - n) s) (\<lambda>(r, bs, s). Inr (r, part @ bs, s)))))))"
  by pat_completeness auto
termination
  by (relation "measure (\<lambda>(pt, srcva, len, s). len)") (auto simp: page_part_pos)

declare copyout_bytes.simps [simp del] copyin_bytes.simps [simp del]

datatype target = ToUser u64 | ToKernel
datatype source = FromUser u64 | FromKernel "u8 list"

definition mypagetable :: "'a fsst_scheme \<Rightarrow> (addr \<times> 'a fsst_scheme) res" where
  "mypagetable s =
    bindE (myproc (io_ps s)) (\<lambda>(me, p).
    (case me of None \<Rightarrow> Inl NullDeref | Some q \<Rightarrow> Inr (p_pagetable (ps_proc p q), s \<lparr> io_ps := p \<rparr>)))"

text \<open>With \<open>ToKernel\<close> the bytes go to a buffer of the caller, which gets them as a result.\<close>

definition either_copyout :: "target \<Rightarrow> u8 list \<Rightarrow> 'a fsst_scheme \<Rightarrow> (int \<times> 'a fsst_scheme) res" where
  "either_copyout dst bs s =
    (case dst of
       ToUser va \<Rightarrow>
         bindE (mypagetable s) (\<lambda>(pt, s).
         bindE (copyout_bytes pt va bs (fs_vm s)) (\<lambda>(r, v). Inr (r, s \<lparr> fs_vm := v \<rparr>)))
     | ToKernel \<Rightarrow> Inr (0, s))"

text \<open>The bytes copied before a failure are in the destination all the same.\<close>

definition either_copyin :: "source \<Rightarrow> nat \<Rightarrow> 'a fsst_scheme \<Rightarrow> (int \<times> u8 list \<times> 'a fsst_scheme) res" where
  "either_copyin src n s =
    (case src of
       FromUser va \<Rightarrow>
         bindE (mypagetable s) (\<lambda>(pt, s).
         bindE (copyin_bytes pt va n (fs_vm s)) (\<lambda>(r, bs, v). Inr (r, bs, s \<lparr> fs_vm := v \<rparr>)))
     | FromKernel bs \<Rightarrow> Inr (0, take n bs, s))"

fun target_add :: "target \<Rightarrow> nat \<Rightarrow> target" where
  "target_add (ToUser va) m = ToUser (va + of_nat m)"
| "target_add ToKernel m = ToKernel"

fun source_add :: "source \<Rightarrow> nat \<Rightarrow> source" where
  "source_add (FromUser va) m = FromUser (va + of_nat m)"
| "source_add (FromKernel bs) m = FromKernel (drop m bs)"

section \<open>Contents of inodes\<close>

definition bmap :: "nat \<Rightarrow> u32 \<Rightarrow> 'a fsst_scheme \<Rightarrow> (u32 \<times> 'a fsst_scheme) res" where
  "bmap i bn s =
    (let dev = i_dev (it_inode s i) in
     if unat bn < NDIRECT then
       (let addr = i_addrs (it_inode s i) ! unat bn in
        if addr = 0 then
          bindE (balloc dev s) (\<lambda>(addr, s).
          if addr = 0 then Inr (0, s)
          else Inr (addr, upd_ino i (\<lambda>x. x \<lparr> i_addrs := (i_addrs x)[unat bn := addr] \<rparr>) s))
        else Inr (addr, s))
     else
       (let bn = unat bn - NDIRECT in
        if bn < NINDIRECT then
          bindE (if i_addrs (it_inode s i) ! NDIRECT = 0 then
                   bindE (balloc dev s) (\<lambda>(addr, s).
                   if addr = 0 then Inr (0, s)
                   else Inr (addr, upd_ino i (\<lambda>x. x \<lparr> i_addrs := (i_addrs x)[NDIRECT := addr] \<rparr>) s))
                 else Inr (i_addrs (it_inode s i) ! NDIRECT, s)) (\<lambda>(addr, s).
          if addr = 0 then Inr (0, s)
          else
            bindE (bread dev addr s) (\<lambda>(bp, s).
            bindE (if get32 (4 * bn) (data_of bp s) = 0 then
                     bindE (balloc dev s) (\<lambda>(addr, s).
                     if addr \<noteq> 0 then bindE (log_write bp (upd_data bp (put32 (4 * bn) addr) s)) (\<lambda>s. Inr (addr, s))
                     else Inr (addr, s))
                   else Inr (get32 (4 * bn) (data_of bp s), s)) (\<lambda>(addr, s).
            bindE (brelse bp s) (\<lambda>s. Inr (addr, s)))))
        else Inl (Panic ''bmap: out of range'')))"

definition itrunc_direct :: "nat \<Rightarrow> nat \<Rightarrow> 'a fsst_scheme \<Rightarrow> 'a fsst_scheme res" where
  "itrunc_direct i k s =
    (let ip = it_inode s i in
     if i_addrs ip ! k \<noteq> 0 then
       bindE (bfree (i_dev ip) (i_addrs ip ! k) s) (\<lambda>s. Inr (upd_ino i (\<lambda>x. x \<lparr> i_addrs := (i_addrs x)[k := 0] \<rparr>) s))
     else Inr s)"

definition itrunc_indirect1 :: "u32 \<Rightarrow> nat \<Rightarrow> nat \<Rightarrow> 'a fsst_scheme \<Rightarrow> 'a fsst_scheme res" where
  "itrunc_indirect1 dev bp j s =
    (let a = get32 (4 * j) (data_of bp s) in if a \<noteq> 0 then bfree dev a s else Inr s)"

definition itrunc_indirect :: "nat \<Rightarrow> 'a fsst_scheme \<Rightarrow> 'a fsst_scheme res" where
  "itrunc_indirect i s =
    (let dev = i_dev (it_inode s i); addr = i_addrs (it_inode s i) ! NDIRECT in
     if addr \<noteq> 0 then
       bindE (bread dev addr s) (\<lambda>(bp, s).
       bindE (foldE (itrunc_indirect1 dev bp) [0..<NINDIRECT] s) (\<lambda>s.
       bindE (brelse bp s) (\<lambda>s.
       bindE (bfree dev addr s) (\<lambda>s.
       Inr (upd_ino i (\<lambda>x. x \<lparr> i_addrs := (i_addrs x)[NDIRECT := 0] \<rparr>) s)))))
     else Inr s)"

definition itrunc :: "nat \<Rightarrow> 'a fsst_scheme \<Rightarrow> 'a fsst_scheme res" where
  "itrunc i s =
    bindE (foldE (itrunc_direct i) [0..<NDIRECT] s) (\<lambda>s.
    bindE (itrunc_indirect i s) (\<lambda>s.
    iupdate i (upd_ino i (\<lambda>x. x \<lparr> i_size := 0 \<rparr>) s)))"

definition iput :: "nat \<Rightarrow> 'a fsst_scheme \<Rightarrow> 'a fsst_scheme res" where
  "iput i s =
    bindE (acquire_it s) (\<lambda>s.
    bindE (let ip = it_inode s i in
           if i_ref ip = 1 \<and> i_valid ip \<and> i_nlink ip = 0 then
             bindE (lock_ino i s) (\<lambda>s.
             bindE (release_it s) (\<lambda>s.
             bindE (itrunc i s) (\<lambda>s.
             bindE (iupdate i (upd_ino i (\<lambda>x. x \<lparr> i_type := 0 \<rparr>) s)) (\<lambda>s.
             bindE (unlock_ino i (upd_ino i (\<lambda>x. x \<lparr> i_valid := False \<rparr>) s)) acquire_it))))
           else Inr s) (\<lambda>s.
    release_it (upd_ino i (\<lambda>x. x \<lparr> i_ref := i_ref x - 1 \<rparr>) s)))"

definition iunlockput :: "nat \<Rightarrow> 'a fsst_scheme \<Rightarrow> 'a fsst_scheme res" where
  "iunlockput i s = bindE (iunlock i s) (iput i)"

definition stati :: "nat \<Rightarrow> 'a fsst_scheme \<Rightarrow> stat" where
  "stati i s =
    (let ip = it_inode s i in
     \<lparr> st_dev = sint (i_dev ip), st_ino = i_inum ip, st_type = i_type ip, st_nlink = i_nlink ip, st_size = ucast (i_size ip) \<rparr>)"

text \<open>The loops of \<open>readi\<close> and \<open>writei\<close>; \<open>left\<close> is \<open>n - tot\<close>.\<close>

lemma block_part_less:
  assumes "0 < (n :: nat)"
  shows "n - min n (BSIZE - k mod BSIZE) < n"
proof -
  have "0 < BSIZE - k mod BSIZE" by (simp add: BSIZE_def)
  then show ?thesis using assms by linarith
qed

function readi_loop :: "nat \<Rightarrow> target \<Rightarrow> u32 \<Rightarrow> nat \<Rightarrow> u8 list \<Rightarrow> 'a fsst_scheme \<Rightarrow> (int \<times> u8 list \<times> 'a fsst_scheme) res" where
  "readi_loop i dst off left acc s =
    (if left = 0 then Inr (int (length acc), acc, s)
     else
       bindE (bmap i (off div of_nat BSIZE) s) (\<lambda>(addr, s).
       if addr = 0 then Inr (int (length acc), acc, s)
       else
         bindE (bread (i_dev (it_inode s i)) addr s) (\<lambda>(bp, s).
         (let m = min left (BSIZE - unat off mod BSIZE);
              bs = take m (drop (unat off mod BSIZE) (data_of bp s)) in
          bindE (either_copyout dst bs s) (\<lambda>(r, s).
          bindE (brelse bp s) (\<lambda>s.
          if r = -1 then Inr (-1, acc, s)
          else readi_loop i (target_add dst m) (off + of_nat m) (left - m) (acc @ bs) s))))))"
  by pat_completeness auto
termination
  by (relation "measure (\<lambda>(i, dst, off, left, acc, s). left)") (auto simp: block_part_less)

definition readi :: "nat \<Rightarrow> target \<Rightarrow> u32 \<Rightarrow> u32 \<Rightarrow> 'a fsst_scheme \<Rightarrow> (int \<times> u8 list \<times> 'a fsst_scheme) res" where
  "readi i dst off n s =
    (let sz = i_size (it_inode s i) in
     if off > sz \<or> off + n < off then Inr (0, [], s)
     else readi_loop i dst off (unat (if off + n > sz then sz - off else n)) [] s)"

function writei_loop :: "nat \<Rightarrow> source \<Rightarrow> u32 \<Rightarrow> nat \<Rightarrow> nat \<Rightarrow> 'a fsst_scheme \<Rightarrow> (u32 \<times> nat \<times> 'a fsst_scheme) res" where
  "writei_loop i src off left tot s =
    (if left = 0 then Inr (off, tot, s)
     else
       bindE (bmap i (off div of_nat BSIZE) s) (\<lambda>(addr, s).
       if addr = 0 then Inr (off, tot, s)
       else
         bindE (bread (i_dev (it_inode s i)) addr s) (\<lambda>(bp, s).
         (let m = min left (BSIZE - unat off mod BSIZE) in
          bindE (either_copyin src m s) (\<lambda>(r, bs, s).
          (let s = upd_data bp (put_bytes (unat off mod BSIZE) bs) s in
           if r = -1 then bindE (brelse bp s) (\<lambda>s. Inr (off, tot, s))
           else
             bindE (log_write bp s) (\<lambda>s.
             bindE (brelse bp s) (writei_loop i (source_add src m) (off + of_nat m) (left - m) (tot + m)))))))))"
  by pat_completeness auto
termination
  by (relation "measure (\<lambda>(i, src, off, left, tot, s). left)") (auto simp: block_part_less)

declare readi_loop.simps [simp del] writei_loop.simps [simp del]

definition writei :: "nat \<Rightarrow> source \<Rightarrow> u32 \<Rightarrow> u32 \<Rightarrow> 'a fsst_scheme \<Rightarrow> (int \<times> 'a fsst_scheme) res" where
  "writei i src off n s =
    (if off > i_size (it_inode s i) \<or> off + n < off then Inr (-1, s)
     else if unat (off + n) > MAXFILE * BSIZE then Inr (-1, s)
     else
       bindE (writei_loop i src off (unat n) 0 s) (\<lambda>(off, tot, s).
       bindE (iupdate i (if off > i_size (it_inode s i) then upd_ino i (\<lambda>x. x \<lparr> i_size := off \<rparr>) s else s)) (\<lambda>s.
       Inr (int tot, s))))"

section \<open>Directories\<close>

text \<open>
  A name is the list of its bytes before the NUL, at most \<open>DIRSIZ\<close> of them count.  The end of a list reads as
  the NUL.
\<close>

fun strncmp_bytes :: "nat \<Rightarrow> u8 list \<Rightarrow> u8 list \<Rightarrow> int" where
  "strncmp_bytes 0 p q = 0"
| "strncmp_bytes (Suc n) p q =
    (let a = (case p of [] \<Rightarrow> 0 | x # _ \<Rightarrow> x); b = (case q of [] \<Rightarrow> 0 | y # _ \<Rightarrow> y) in
     if a \<noteq> 0 \<and> a = b then strncmp_bytes n (tl p) (tl q) else uint a - uint b)"

definition namecmp :: "u8 list \<Rightarrow> u8 list \<Rightarrow> int" where
  "namecmp s t = strncmp_bytes DIRSIZ s t"

fun dirlookup_loop :: "nat \<Rightarrow> u8 list \<Rightarrow> nat list \<Rightarrow> 'a fsst_scheme \<Rightarrow> ((nat \<times> nat) option \<times> 'a fsst_scheme) res" where
  "dirlookup_loop dp name [] s = Inr (None, s)"
| "dirlookup_loop dp name (off # offs) s =
    bindE (readi dp ToKernel (of_nat off) (of_nat sizeof_dirent) s) (\<lambda>(r, de, s).
    guardE (r = int sizeof_dirent) (Panic ''dirlookup read'')
    (if get16 0 de = 0 then dirlookup_loop dp name offs s
     else if namecmp name (drop 2 de) = 0 then
       bindE (iget (i_dev (it_inode s dp)) (ucast (get16 0 de)) s) (\<lambda>(i, s). Inr (Some (i, off), s))
     else dirlookup_loop dp name offs s))"

text \<open>The offsets \<open>0, 16, \<dots>\<close> below the size of the directory.\<close>

definition dir_offsets :: "u32 \<Rightarrow> nat list" where
  "dir_offsets sz = [off \<leftarrow> map (\<lambda>k. k * sizeof_dirent) [0..<unat sz div sizeof_dirent + 1]. off < unat sz]"

definition dirlookup :: "nat \<Rightarrow> u8 list \<Rightarrow> 'a fsst_scheme \<Rightarrow> ((nat \<times> nat) option \<times> 'a fsst_scheme) res" where
  "dirlookup dp name s =
    guardE (i_type (it_inode s dp) = T_DIR) (Panic ''dirlookup not DIR'')
     (dirlookup_loop dp name (dir_offsets (i_size (it_inode s dp))) s)"

fun dirlink_slot :: "nat \<Rightarrow> nat list \<Rightarrow> 'a fsst_scheme \<Rightarrow> (nat option \<times> 'a fsst_scheme) res" where
  "dirlink_slot dp [] s = Inr (None, s)"
| "dirlink_slot dp (off # offs) s =
    bindE (readi dp ToKernel (of_nat off) (of_nat sizeof_dirent) s) (\<lambda>(r, de, s).
    guardE (r = int sizeof_dirent) (Panic ''dirlink read'')
    (if get16 0 de = 0 then Inr (Some off, s) else dirlink_slot dp offs s))"

definition dirent_bytes :: "u32 \<Rightarrow> u8 list \<Rightarrow> u8 list" where
  "dirent_bytes inum name = put16 0 (ucast inum) (replicate 2 0) @ take DIRSIZ (name @ replicate DIRSIZ 0)"

definition dirlink :: "nat \<Rightarrow> u8 list \<Rightarrow> u32 \<Rightarrow> 'a fsst_scheme \<Rightarrow> (int \<times> 'a fsst_scheme) res" where
  "dirlink dp name inum s =
    bindE (dirlookup dp name s) (\<lambda>(r, s).
    (case r of
       Some (ip, _) \<Rightarrow> bindE (iput ip s) (\<lambda>s. Inr (-1, s))
     | None \<Rightarrow>
         (let offs = dir_offsets (i_size (it_inode s dp)) in
          bindE (dirlink_slot dp offs s) (\<lambda>(slot, s).
          (let off = (case slot of Some off \<Rightarrow> off | None \<Rightarrow> length offs * sizeof_dirent) in
           bindE (writei dp (FromKernel (dirent_bytes inum name)) (of_nat off) (of_nat sizeof_dirent) s) (\<lambda>(r, s).
           Inr (if r \<noteq> int sizeof_dirent then -1 else 0, s)))))))"

section \<open>Paths\<close>

definition slash :: u8 where "slash = 47"

definition skipelem :: "u8 list \<Rightarrow> (u8 list \<times> u8 list) option" where
  "skipelem path =
    (let path = dropWhile (\<lambda>c. c = slash) path in
     if path = [] then None
     else Some (dropWhile (\<lambda>c. c = slash) (dropWhile (\<lambda>c. c \<noteq> slash) path), take DIRSIZ (takeWhile (\<lambda>c. c \<noteq> slash) path)))"

lemma skipelem_shorter: "skipelem path = Some (rest, name) \<Longrightarrow> length rest < length path"
proof -
  assume "skipelem path = Some (rest, name)"
  then obtain c cs where p: "dropWhile (\<lambda>c. c = slash) path = c # cs"
    and rest: "rest = dropWhile (\<lambda>c. c = slash) (dropWhile (\<lambda>c. c \<noteq> slash) (c # cs))"
    by (cases "dropWhile (\<lambda>c. c = slash) path") (auto simp: skipelem_def Let_def)
  have "\<not> hd (dropWhile (\<lambda>c. c = slash) path) = slash" by (rule hd_dropWhile) (simp add: p)
  then have "rest = dropWhile (\<lambda>c. c = slash) (dropWhile (\<lambda>c. c \<noteq> slash) cs)" using rest p by simp
  then have "length rest \<le> length cs" by (metis length_dropWhile_le le_trans)
  moreover have "length (c # cs) \<le> length path" unfolding p [symmetric] by (rule length_dropWhile_le)
  ultimately show ?thesis by simp
qed

function namex_loop :: "nat \<Rightarrow> u8 list \<Rightarrow> bool \<Rightarrow> u8 list \<Rightarrow> 'a fsst_scheme \<Rightarrow> (nat option \<times> u8 list \<times> 'a fsst_scheme) res" where
  "namex_loop ip path nameiparent name s =
    (case skipelem path of
       None \<Rightarrow>
         if nameiparent then bindE (iput ip s) (\<lambda>s. Inr (None, name, s)) else Inr (Some ip, name, s)
     | Some (rest, name) \<Rightarrow>
         bindE (ilock ip s) (\<lambda>s.
         if i_type (it_inode s ip) \<noteq> T_DIR then bindE (iunlockput ip s) (\<lambda>s. Inr (None, name, s))
         else if nameiparent \<and> rest = [] then bindE (iunlock ip s) (\<lambda>s. Inr (Some ip, name, s))
         else
           bindE (dirlookup ip name s) (\<lambda>(r, s).
           bindE (iunlockput ip s) (\<lambda>s.
           (case r of
              None \<Rightarrow> Inr (None, name, s)
            | Some (nxt, _) \<Rightarrow> namex_loop nxt rest nameiparent name s)))))"
  by pat_completeness auto
termination
  by (relation "measure (\<lambda>(ip, path, par, name, s). length path)") (auto dest: skipelem_shorter)

declare namex_loop.simps [simp del]

definition namex :: "u8 list \<Rightarrow> bool \<Rightarrow> 'a fsst_scheme \<Rightarrow> (nat option \<times> u8 list \<times> 'a fsst_scheme) res" where
  "namex path nameiparent s =
    bindE (if path \<noteq> [] \<and> hd path = slash then iget ROOTDEV ROOTINO s
           else
             bindE (myproc (io_ps s)) (\<lambda>(me, p).
             (case me of
                None \<Rightarrow> Inl NullDeref
              | Some q \<Rightarrow>
                  (case p_cwd (ps_proc p q) of
                     None \<Rightarrow> Inl NullDeref
                   | Some i \<Rightarrow> bindE (idup i (s \<lparr> io_ps := p \<rparr>)) (\<lambda>s. Inr (i, s)))))) (\<lambda>(ip, s).
    namex_loop ip path nameiparent [] s)"

definition namei :: "u8 list \<Rightarrow> 'a fsst_scheme \<Rightarrow> (nat option \<times> 'a fsst_scheme) res" where
  "namei path s = bindE (namex path False s) (\<lambda>(r, name, s). Inr (r, s))"

definition nameiparent :: "u8 list \<Rightarrow> 'a fsst_scheme \<Rightarrow> (nat option \<times> u8 list \<times> 'a fsst_scheme) res" where
  "nameiparent path s = namex path True s"

end
