(* ===== verification/File.thy ===== *)
theory File
  imports Fs_Files
begin

text \<open>
  Open files and pipes: kernel/file.c and kernel/pipe.c.  Entries of \<open>ftable.file\<close> are named by their
  index; a pipe is named by its address in the slab it is allocated from.  A pipe that would make
  the calling process sleep is \<open>Diverges\<close>, as for the locks.
\<close>

section \<open>State\<close>

definition NFILE :: nat where "NFILE = 100"
definition NDEV :: int where "NDEV = 10"
definition PIPESIZE :: nat where "PIPESIZE = 512"

datatype fdtype = FD_NONE | FD_PIPE | FD_INODE | FD_DEVICE

record filerec =
  f_type :: fdtype
  f_ref :: int
  f_readable :: bool
  f_writable :: bool
  f_pipe :: addr
  f_ip :: "nat option"
  f_off :: u32
  f_major :: int

record pipe =
  pi_lock :: spinlock
  pi_data :: "u8 list"
  pi_nread :: u32
  pi_nwrite :: u32
  pi_readopen :: bool
  pi_writeopen :: bool

text \<open>The globals of file.c, the pipes, the slabs of theory Kernel\_Mem, and the clock of trap.c.\<close>

record filest = fsst +
  ft_lock :: spinlock
  ft_file :: "nat \<Rightarrow> filerec"
  pipe_at :: "addr \<Rightarrow> pipe"
  k_slabs :: "SlabStructs \<Rightarrow> kslab_alloc_t"
  k_slmem :: slab_heap
  tickslock :: spinlock
  ticks :: u32

text \<open>
  The functions of a device driver (\<open>struct devsw\<close>); the table \<open>devsw\<close> is filled by the drivers and
  is an argument of the functions that use it.
\<close>

record 's devsw =
  dev_read :: "(int \<Rightarrow> u64 \<Rightarrow> int \<Rightarrow> 's \<Rightarrow> (int \<times> 's) res) option"
  dev_write :: "(int \<Rightarrow> u64 \<Rightarrow> int \<Rightarrow> 's \<Rightarrow> (int \<times> 's) res) option"

definition upd_file :: "nat \<Rightarrow> (filerec \<Rightarrow> filerec) \<Rightarrow> 'a filest_scheme \<Rightarrow> 'a filest_scheme" where
  "upd_file f g s = s \<lparr> ft_file := (ft_file s)(f := g (ft_file s f)) \<rparr>"

definition upd_pipe :: "addr \<Rightarrow> (pipe \<Rightarrow> pipe) \<Rightarrow> 'a filest_scheme \<Rightarrow> 'a filest_scheme" where
  "upd_pipe pi g s = s \<lparr> pipe_at := (pipe_at s)(pi := g (pipe_at s pi)) \<rparr>"

text \<open>Access through a pointer that may be null, and the process that runs.\<close>

definition deref :: "'b option \<Rightarrow> 'b res" where
  "deref p = (case p of None \<Rightarrow> Inl NullDeref | Some x \<Rightarrow> Inr x)"

definition self :: "'a io_scheme \<Rightarrow> (nat \<times> 'a io_scheme) res" where
  "self s = bindE (myproc (io_ps s)) (\<lambda>(me, p). bindE (deref me) (\<lambda>q. Inr (q, s \<lparr> io_ps := p \<rparr>)))"

abbreviation proc_at :: "nat \<Rightarrow> 'a io_scheme \<Rightarrow> proc" where
  "proc_at p s \<equiv> ps_proc (io_ps s) p"

definition on_ps :: "(ps \<Rightarrow> ps res) \<Rightarrow> 'a io_scheme \<Rightarrow> 'a io_scheme res" where
  "on_ps f s = bindE (f (io_ps s)) (\<lambda>p. Inr (s \<lparr> io_ps := p \<rparr>))"

definition set_proc :: "nat \<Rightarrow> (proc \<Rightarrow> proc) \<Rightarrow> 'a io_scheme \<Rightarrow> 'a io_scheme" where
  "set_proc p f s = s \<lparr> io_ps := upd_proc p f (io_ps s) \<rparr>"

definition is_killed :: "nat \<Rightarrow> 'a io_scheme \<Rightarrow> (bool \<times> 'a io_scheme) res" where
  "is_killed p s = bindE (killed p (io_ps s)) (\<lambda>(k, q). Inr (k \<noteq> 0, s \<lparr> io_ps := q \<rparr>))"

text \<open>The allocators and page tables run on the hart of the calling process.\<close>

definition on_vm :: "(vm \<Rightarrow> ('b \<times> vm) res) \<Rightarrow> 'a fsst_scheme \<Rightarrow> ('b \<times> 'a fsst_scheme) res" where
  "on_vm f s =
    (let v = fs_vm s in
     bindE (f (v \<lparr> vm_k := (vm_k v) \<lparr> k_hart := ps_hart (io_ps s) \<rparr> \<rparr>)) (\<lambda>(r, v).
     Inr (r, s \<lparr> fs_vm := v, io_ps := set_hart (k_hart (vm_k v)) (io_ps s) \<rparr>)))"

definition on_vm1 :: "(vm \<Rightarrow> vm res) \<Rightarrow> 'a fsst_scheme \<Rightarrow> 'a fsst_scheme res" where
  "on_vm1 f s = bindE (on_vm (\<lambda>v. bindE (f v) (\<lambda>v. Inr ((), v))) s) (\<lambda>(_, s). Inr s)"

definition on_slabs :: "(kslabs \<Rightarrow> ('b \<times> kslabs) res) \<Rightarrow> 'a filest_scheme \<Rightarrow> ('b \<times> 'a filest_scheme) res" where
  "on_slabs f s =
    bindE (on_vm (\<lambda>v.
      bindE (f \<lparr> slabs = k_slabs s, sl_mem = k_slmem s, sl_kmem = vm_k v \<rparr>) (\<lambda>(r, g).
      Inr ((r, slabs g, sl_mem g), v \<lparr> vm_k := sl_kmem g \<rparr>))) s) (\<lambda>((r, sl, m), s).
    Inr (r, s \<lparr> k_slabs := sl, k_slmem := m \<rparr>))"

section \<open>The file table\<close>

definition acquire_ft :: "'a filest_scheme \<Rightarrow> 'a filest_scheme res" where
  "acquire_ft s =
    bindE (acquire (ft_lock s) (ps_hart (io_ps s))) (\<lambda>(lk, c). Inr (s \<lparr> ft_lock := lk, io_ps := set_hart c (io_ps s) \<rparr>))"

definition release_ft :: "'a filest_scheme \<Rightarrow> 'a filest_scheme res" where
  "release_ft s =
    bindE (release (ft_lock s) (ps_hart (io_ps s))) (\<lambda>(lk, c). Inr (s \<lparr> ft_lock := lk, io_ps := set_hart c (io_ps s) \<rparr>))"

definition fileinit :: "'a filest_scheme \<Rightarrow> 'a filest_scheme" where
  "fileinit s = s \<lparr> ft_lock := initlock ''ftable'' \<rparr>"

definition filealloc :: "'a filest_scheme \<Rightarrow> (nat option \<times> 'a filest_scheme) res" where
  "filealloc s =
    bindE (acquire_ft s) (\<lambda>s.
    (case find (\<lambda>f. f_ref (ft_file s f) = 0) [0..<NFILE] of
       Some f \<Rightarrow> bindE (release_ft (upd_file f (\<lambda>x. x \<lparr> f_ref := 1 \<rparr>) s)) (\<lambda>s. Inr (Some f, s))
     | None \<Rightarrow> bindE (release_ft s) (\<lambda>s. Inr (None, s))))"

definition filedup :: "nat \<Rightarrow> 'a filest_scheme \<Rightarrow> 'a filest_scheme res" where
  "filedup f s =
    bindE (acquire_ft s) (\<lambda>s.
    guardE (\<not> f_ref (ft_file s f) < 1) (Panic ''filedup'')
     (release_ft (upd_file f (\<lambda>x. x \<lparr> f_ref := f_ref x + 1 \<rparr>) s)))"

section \<open>Pipes\<close>

text \<open>The channels \<open>&pi->nread\<close> and \<open>&pi->nwrite\<close>: the two fields follow the lock and the data.\<close>

definition nread_chan :: "addr \<Rightarrow> chan" where "nread_chan pi = AddrChan (pi + 536)"
definition nwrite_chan :: "addr \<Rightarrow> chan" where "nwrite_chan pi = AddrChan (pi + 540)"

definition acquire_pi :: "addr \<Rightarrow> 'a filest_scheme \<Rightarrow> 'a filest_scheme res" where
  "acquire_pi pi s =
    bindE (acquire (pi_lock (pipe_at s pi)) (ps_hart (io_ps s))) (\<lambda>(lk, c).
      Inr (upd_pipe pi (\<lambda>x. x \<lparr> pi_lock := lk \<rparr>) (s \<lparr> io_ps := set_hart c (io_ps s) \<rparr>)))"

definition release_pi :: "addr \<Rightarrow> 'a filest_scheme \<Rightarrow> 'a filest_scheme res" where
  "release_pi pi s =
    bindE (release (pi_lock (pipe_at s pi)) (ps_hart (io_ps s))) (\<lambda>(lk, c).
      Inr (upd_pipe pi (\<lambda>x. x \<lparr> pi_lock := lk \<rparr>) (s \<lparr> io_ps := set_hart c (io_ps s) \<rparr>)))"

text \<open>\<open>SLAB_pipe\<close> is enumerator 3.\<close>

definition alloc_pipe :: "'a filest_scheme \<Rightarrow> (addr \<times> 'a filest_scheme) res" where
  "alloc_pipe s = on_slabs (slab_alloc 3) s"

definition free_pipe :: "addr \<Rightarrow> 'a filest_scheme \<Rightarrow> 'a filest_scheme res" where
  "free_pipe pi s = bindE (on_slabs (\<lambda>g. bindE (slab_free 3 pi g) (\<lambda>g. Inr ((), g))) s) (\<lambda>(_, s). Inr s)"

definition pipeclose :: "addr \<Rightarrow> bool \<Rightarrow> 'a filest_scheme \<Rightarrow> 'a filest_scheme res" where
  "pipeclose pi writable s =
    bindE (acquire_pi pi s) (\<lambda>s.
    bindE (if writable then on_ps (wakeup (nread_chan pi)) (upd_pipe pi (\<lambda>x. x \<lparr> pi_writeopen := False \<rparr>) s)
           else on_ps (wakeup (nwrite_chan pi)) (upd_pipe pi (\<lambda>x. x \<lparr> pi_readopen := False \<rparr>) s)) (\<lambda>s.
    if \<not> pi_readopen (pipe_at s pi) \<and> \<not> pi_writeopen (pipe_at s pi) then bindE (release_pi pi s) (free_pipe pi)
    else release_pi pi s))"

text \<open>Dropping a reference; the last one closes the pipe or lets go of the inode.\<close>

definition fileclose :: "nat \<Rightarrow> 'a filest_scheme \<Rightarrow> 'a filest_scheme res" where
  "fileclose f s =
    bindE (acquire_ft s) (\<lambda>s.
    guardE (\<not> f_ref (ft_file s f) < 1) (Panic ''fileclose'')
    (let s = upd_file f (\<lambda>x. x \<lparr> f_ref := f_ref x - 1 \<rparr>) s in
     if f_ref (ft_file s f) > 0 then release_ft s
     else
       (let ff = ft_file s f in
        bindE (release_ft (upd_file f (\<lambda>x. x \<lparr> f_ref := 0, f_type := FD_NONE \<rparr>) s)) (\<lambda>s.
        if f_type ff = FD_PIPE then pipeclose (f_pipe ff) (f_writable ff) s
        else if f_type ff = FD_INODE \<or> f_type ff = FD_DEVICE then
          bindE (begin_op s) (\<lambda>s.
          bindE (deref (f_ip ff)) (\<lambda>ip.
          bindE (iput ip s) end_op))
        else Inr s))))"

definition close_if :: "nat option \<Rightarrow> 'a filest_scheme \<Rightarrow> 'a filest_scheme res" where
  "close_if f s = (case f of None \<Rightarrow> Inr s | Some f \<Rightarrow> fileclose f s)"

definition new_pipe :: "pipe \<Rightarrow> pipe" where
  "new_pipe x = x \<lparr> pi_readopen := True, pi_writeopen := True, pi_nwrite := 0, pi_nread := 0, pi_lock := initlock ''pipe'' \<rparr>"

definition pipealloc :: "'a filest_scheme \<Rightarrow> ((nat \<times> nat) option \<times> 'a filest_scheme) res" where
  "pipealloc s =
    bindE (filealloc s) (\<lambda>(f0, s).
    bindE (if f0 = None then Inr (None, s) else filealloc s) (\<lambda>(f1, s).
    bindE (if f1 = None then Inr (0, s) else alloc_pipe s) (\<lambda>(pi, s).
    (case (f0, f1) of
       (Some r, Some w) \<Rightarrow>
         if pi \<noteq> 0 then
           Inr (Some (r, w),
             upd_file w (\<lambda>x. x \<lparr> f_type := FD_PIPE, f_readable := False, f_writable := True, f_pipe := pi \<rparr>)
             (upd_file r (\<lambda>x. x \<lparr> f_type := FD_PIPE, f_readable := True, f_writable := False, f_pipe := pi \<rparr>)
             (upd_pipe pi new_pipe s)))
         else bindE (fileclose r s) (\<lambda>s. bindE (fileclose w s) (\<lambda>s. Inr (None, s)))
     | _ \<Rightarrow> bindE (close_if f0 s) (\<lambda>s. bindE (close_if f1 s) (\<lambda>s. Inr (None, s)))))))"

definition put_ch :: "u8 \<Rightarrow> pipe \<Rightarrow> pipe" where
  "put_ch ch x = x \<lparr> pi_data := (pi_data x)[unat (pi_nwrite x) mod PIPESIZE := ch], pi_nwrite := pi_nwrite x + 1 \<rparr>"

definition pipe_full :: "pipe \<Rightarrow> bool" where
  "pipe_full x \<longleftrightarrow> pi_nwrite x = pi_nread x + of_nat PIPESIZE"

function pipewrite_loop :: "addr \<Rightarrow> nat \<Rightarrow> u64 \<Rightarrow> int \<Rightarrow> int \<Rightarrow> 'a filest_scheme \<Rightarrow> (int \<times> bool \<times> 'a filest_scheme) res" where
  "pipewrite_loop pi pr a n i s =
    (if i < n then
       bindE (if \<not> pi_readopen (pipe_at s pi) then Inr (True, s) else is_killed pr s) (\<lambda>(stop, s).
       if stop then Inr (-1, False, s)
       else if pipe_full (pipe_at s pi) then bindE (on_ps (wakeup (nread_chan pi)) s) (\<lambda>s. Inl Diverges)
       else
         bindE (copyin_bytes (p_pagetable (proc_at pr s)) (a + word_of_int i) 1 (fs_vm s)) (\<lambda>(r, ch, v).
         (let s = s \<lparr> fs_vm := v \<rparr> in
          if r = -1 then Inr (i, True, s)
          else pipewrite_loop pi pr a n (i + 1) (upd_pipe pi (put_ch (ch ! 0)) s))))
     else Inr (i, True, s))"
  by pat_completeness auto
termination
  by (relation "measure (\<lambda>(pi, pr, a, n, i, s). nat (n - i))") auto

definition pipewrite :: "addr \<Rightarrow> u64 \<Rightarrow> int \<Rightarrow> 'a filest_scheme \<Rightarrow> (int \<times> 'a filest_scheme) res" where
  "pipewrite pi a n s =
    bindE (self s) (\<lambda>(pr, s).
    bindE (acquire_pi pi s) (\<lambda>s.
    bindE (pipewrite_loop pi pr a n 0 s) (\<lambda>(i, wake, s).
    bindE (if wake then on_ps (wakeup (nread_chan pi)) s else Inr s) (\<lambda>s.
    bindE (release_pi pi s) (\<lambda>s. Inr (i, s))))))"

definition get_ch :: "pipe \<Rightarrow> u8" where
  "get_ch x = pi_data x ! (unat (pi_nread x) mod PIPESIZE)"

function piperead_loop :: "addr \<Rightarrow> nat \<Rightarrow> u64 \<Rightarrow> int \<Rightarrow> int \<Rightarrow> 'a filest_scheme \<Rightarrow> (int \<times> 'a filest_scheme) res" where
  "piperead_loop pi pr a n i s =
    (if i < n then
       (if pi_nread (pipe_at s pi) = pi_nwrite (pipe_at s pi) then Inr (i, s)
        else
          (let ch = get_ch (pipe_at s pi);
               s = upd_pipe pi (\<lambda>x. x \<lparr> pi_nread := pi_nread x + 1 \<rparr>) s in
           bindE (copyout_bytes (p_pagetable (proc_at pr s)) (a + word_of_int i) [ch] (fs_vm s)) (\<lambda>(r, v).
           (let s = s \<lparr> fs_vm := v \<rparr> in
            if r = -1 then Inr (i, s) else piperead_loop pi pr a n (i + 1) s))))
     else Inr (i, s))"
  by pat_completeness auto
termination
  by (relation "measure (\<lambda>(pi, pr, a, n, i, s). nat (n - i))") auto

declare pipewrite_loop.simps [simp del] piperead_loop.simps [simp del]

definition piperead :: "addr \<Rightarrow> u64 \<Rightarrow> int \<Rightarrow> 'a filest_scheme \<Rightarrow> (int \<times> 'a filest_scheme) res" where
  "piperead pi a n s =
    bindE (self s) (\<lambda>(pr, s).
    bindE (acquire_pi pi s) (\<lambda>s.
    bindE (if pi_nread (pipe_at s pi) = pi_nwrite (pipe_at s pi) \<and> pi_writeopen (pipe_at s pi) then
             bindE (is_killed pr s) (\<lambda>(k, s). if k then Inr (True, s) else Inl Diverges)
           else Inr (False, s)) (\<lambda>(stop, s).
    if stop then bindE (release_pi pi s) (\<lambda>s. Inr (-1, s))
    else
      bindE (piperead_loop pi pr a n 0 s) (\<lambda>(i, s).
      bindE (on_ps (wakeup (nwrite_chan pi)) s) (\<lambda>s.
      bindE (release_pi pi s) (\<lambda>s. Inr (i, s)))))))"

section \<open>Operations on open files\<close>

definition put64 :: "nat \<Rightarrow> u64 \<Rightarrow> u8 list \<Rightarrow> u8 list" where
  "put64 off w d = put32 (off + 4) (ucast (drop_bit 32 w)) (put32 off (ucast w) d)"

text \<open>
  \<open>struct stat\<close> in memory.  The four bytes before \<open>size\<close> are padding, and \<open>pad\<close> is what the stack
  holds there.
\<close>

definition stat_bytes :: "u8 list \<Rightarrow> stat \<Rightarrow> u8 list" where
  "stat_bytes pad st =
    put64 16 (st_size st) (put_bytes 12 (take 4 pad) (put16 10 (word_of_int (st_nlink st))
      (put16 8 (word_of_int (st_type st)) (put32 4 (st_ino st) (put32 0 (word_of_int (st_dev st)) (replicate 24 0))))))"

definition filestat :: "u8 list \<Rightarrow> nat \<Rightarrow> u64 \<Rightarrow> 'a filest_scheme \<Rightarrow> (int \<times> 'a filest_scheme) res" where
  "filestat pad f a s =
    bindE (self s) (\<lambda>(p, s).
    if f_type (ft_file s f) = FD_INODE \<or> f_type (ft_file s f) = FD_DEVICE then
      bindE (deref (f_ip (ft_file s f))) (\<lambda>ip.
      bindE (ilock ip s) (\<lambda>s.
      (let st = stati ip s in
       bindE (iunlock ip s) (\<lambda>s.
       bindE (copyout_bytes (p_pagetable (proc_at p s)) a (stat_bytes pad st) (fs_vm s)) (\<lambda>(r, v).
       Inr (if r < 0 then -1 else 0, s \<lparr> fs_vm := v \<rparr>))))))
    else Inr (-1, s))"

definition advance :: "nat \<Rightarrow> int \<Rightarrow> 'a filest_scheme \<Rightarrow> 'a filest_scheme" where
  "advance f r s = (if r > 0 then upd_file f (\<lambda>x. x \<lparr> f_off := f_off x + word_of_int r \<rparr>) s else s)"

definition fileread :: "(int \<Rightarrow> 'a filest_scheme devsw) \<Rightarrow> nat \<Rightarrow> u64 \<Rightarrow> int \<Rightarrow> 'a filest_scheme \<Rightarrow> (int \<times> 'a filest_scheme) res" where
  "fileread devs f a n s =
    (let ff = ft_file s f in
     if \<not> f_readable ff then Inr (-1, s)
     else
       (case f_type ff of
          FD_PIPE \<Rightarrow> piperead (f_pipe ff) a n s
        | FD_DEVICE \<Rightarrow>
            if f_major ff < 0 \<or> f_major ff \<ge> NDEV then Inr (-1, s)
            else (case dev_read (devs (f_major ff)) of None \<Rightarrow> Inr (-1, s) | Some rd \<Rightarrow> rd 1 a n s)
        | FD_INODE \<Rightarrow>
            bindE (deref (f_ip ff)) (\<lambda>ip.
            bindE (ilock ip s) (\<lambda>s.
            bindE (readi ip (ToUser a) (f_off (ft_file s f)) (word_of_int n) s) (\<lambda>(r, _, s).
            bindE (iunlock ip (advance f r s)) (\<lambda>s. Inr (r, s)))))
        | FD_NONE \<Rightarrow> Inl (Panic ''fileread'')))"

definition max_write :: int where
  "max_write = ((int MAXOPBLOCKS - 1 - 1 - 2) div 2) * int BSIZE"

function filewrite_loop :: "nat \<Rightarrow> nat \<Rightarrow> u64 \<Rightarrow> int \<Rightarrow> int \<Rightarrow> 'a filest_scheme \<Rightarrow> (int \<times> 'a filest_scheme) res" where
  "filewrite_loop f ip a n i s =
    (if i < n then
       (let n1 = min (n - i) max_write in
        bindE (begin_op s) (\<lambda>s.
        bindE (ilock ip s) (\<lambda>s.
        bindE (writei ip (FromUser (a + word_of_int i)) (f_off (ft_file s f)) (word_of_int n1) s) (\<lambda>(r, s).
        bindE (iunlock ip (advance f r s)) (\<lambda>s.
        bindE (end_op s) (\<lambda>s.
        if r \<noteq> n1 then Inr (i, s) else filewrite_loop f ip a n (i + n1) s))))))
     else Inr (i, s))"
  by pat_completeness auto
termination
  by (relation "measure (\<lambda>(f, ip, a, n, i, s). nat (n - i))") (auto simp: max_write_def MAXOPBLOCKS_def BSIZE_def)

declare filewrite_loop.simps [simp del]

definition filewrite :: "(int \<Rightarrow> 'a filest_scheme devsw) \<Rightarrow> nat \<Rightarrow> u64 \<Rightarrow> int \<Rightarrow> 'a filest_scheme \<Rightarrow> (int \<times> 'a filest_scheme) res" where
  "filewrite devs f a n s =
    (let ff = ft_file s f in
     if \<not> f_writable ff then Inr (-1, s)
     else
       (case f_type ff of
          FD_PIPE \<Rightarrow> pipewrite (f_pipe ff) a n s
        | FD_DEVICE \<Rightarrow>
            if f_major ff < 0 \<or> f_major ff \<ge> NDEV then Inr (-1, s)
            else (case dev_write (devs (f_major ff)) of None \<Rightarrow> Inr (-1, s) | Some wr \<Rightarrow> wr 1 a n s)
        | FD_INODE \<Rightarrow>
            bindE (if 0 < n then bindE (deref (f_ip ff)) (\<lambda>ip. filewrite_loop f ip a n 0 s) else Inr (0, s)) (\<lambda>(i, s).
            Inr (if i = n then n else -1, s))
        | FD_NONE \<Rightarrow> Inl (Panic ''filewrite'')))"

end
