(* ===== verification/Proc_Life.thy ===== *)
theory Proc_Life
  imports File
begin

text \<open>
  The life of a process: the rest of kernel/proc.c.  Allocation and release of a process, its page
  table, \<open>fork\<close>, \<open>exit\<close> and \<open>wait\<close>, over page tables (theory Vm), the file system and open files.
  \<open>trampoline\<close>, \<open>forkret_pc\<close> and \<open>initcode\<close> are addresses that the linker fixes.
\<close>

section \<open>Page tables and the trapframe\<close>

definition k_alloc :: "'a fsst_scheme \<Rightarrow> (addr \<times> 'a fsst_scheme) res" where
  "k_alloc s = on_vm (\<lambda>v. bindE (kalloc (vm_k v)) (\<lambda>(p, k). Inr (p, v \<lparr> vm_k := k \<rparr>))) s"

definition k_free :: "addr \<Rightarrow> 'a fsst_scheme \<Rightarrow> 'a fsst_scheme res" where
  "k_free pa s = on_vm1 (\<lambda>v. bindE (kfree pa (vm_k v)) (\<lambda>k. Inr (v \<lparr> vm_k := k \<rparr>))) s"

text \<open>The fields of \<open>struct trapframe\<close> that the C code uses, by their offsets.\<close>

definition sizeof_trapframe :: nat where "sizeof_trapframe = 288"
definition tf_epc :: u64 where "tf_epc = 24"
definition tf_sp :: u64 where "tf_sp = 48"
definition tf_a :: "nat \<Rightarrow> u64" where "tf_a n = 112 + 8 * of_nat n"

definition tf_get :: "nat \<Rightarrow> u64 \<Rightarrow> 'a fsst_scheme \<Rightarrow> u64" where
  "tf_get p off s = ld64 (vm_mem (fs_vm s)) (p_trapframe (proc_at p s) + off)"

definition on_mem :: "(cmem \<Rightarrow> cmem) \<Rightarrow> 'a fsst_scheme \<Rightarrow> 'a fsst_scheme" where
  "on_mem f s = s \<lparr> fs_vm := (fs_vm s) \<lparr> vm_mem := f (vm_mem (fs_vm s)) \<rparr> \<rparr>"

definition tf_put :: "nat \<Rightarrow> u64 \<Rightarrow> u64 \<Rightarrow> 'a fsst_scheme \<Rightarrow> 'a fsst_scheme" where
  "tf_put p off w s = on_mem (st64 (p_trapframe (proc_at p s) + off) w) s"

definition proc_pagetable :: "addr \<Rightarrow> addr \<Rightarrow> 'a fsst_scheme \<Rightarrow> (addr \<times> 'a fsst_scheme) res" where
  "proc_pagetable trampoline trapframe s =
    bindE (on_vm uvmcreate s) (\<lambda>(pt, s).
    if pt = 0 then Inr (0, s)
    else
      bindE (on_vm (mappages pt TRAMPOLINE PGSIZE trampoline (PTE_R OR PTE_X)) s) (\<lambda>(r, s).
      if r < 0 then bindE (on_vm1 (uvmfree pt 0) s) (\<lambda>s. Inr (0, s))
      else
        bindE (on_vm (mappages pt TRAPFRAME PGSIZE trapframe (PTE_R OR PTE_W)) s) (\<lambda>(r, s).
        if r < 0 then
          bindE (on_vm1 (uvmunmap pt TRAMPOLINE 1 False) s) (\<lambda>s.
          bindE (on_vm1 (uvmfree pt 0) s) (\<lambda>s. Inr (0, s)))
        else Inr (pt, s))))"

definition proc_freepagetable :: "addr \<Rightarrow> u64 \<Rightarrow> 'a fsst_scheme \<Rightarrow> 'a fsst_scheme res" where
  "proc_freepagetable pt sz s =
    bindE (on_vm1 (uvmunmap pt TRAMPOLINE 1 False) s) (\<lambda>s.
    bindE (on_vm1 (uvmunmap pt TRAPFRAME 1 False) s) (on_vm1 (uvmfree pt sz)))"

section \<open>Allocation\<close>

definition freeproc :: "nat \<Rightarrow> 'a fsst_scheme \<Rightarrow> 'a fsst_scheme res" where
  "freeproc p s =
    bindE (if p_trapframe (proc_at p s) \<noteq> 0 then k_free (p_trapframe (proc_at p s)) s else Inr s) (\<lambda>s.
    (let s = set_proc p (\<lambda>x. x \<lparr> p_trapframe := 0 \<rparr>) s in
     bindE (if p_pagetable (proc_at p s) \<noteq> 0 then proc_freepagetable (p_pagetable (proc_at p s)) (p_sz (proc_at p s)) s else Inr s) (\<lambda>s.
     Inr (set_proc p (\<lambda>x. x \<lparr> p_pagetable := 0, p_sz := 0, p_pid := 0, p_parent := None, p_name := [], p_chan := NoChan,
       p_killed := 0, p_xstate := 0, p_state := UNUSED \<rparr>) s))))"

text \<open>The loop that looks for an unused entry; its lock is held when it is found.\<close>

fun find_unused :: "nat list \<Rightarrow> 'a io_scheme \<Rightarrow> (nat option \<times> 'a io_scheme) res" where
  "find_unused [] s = Inr (None, s)"
| "find_unused (p # ps) s =
    bindE (on_ps (acquire_p p) s) (\<lambda>s.
    if p_state (proc_at p s) = UNUSED then Inr (Some p, s)
    else bindE (on_ps (release_p p) s) (find_unused ps))"

text \<open>Giving up an entry that \<open>allocproc\<close> has claimed.\<close>

definition drop_proc :: "nat \<Rightarrow> 'a fsst_scheme \<Rightarrow> 'a fsst_scheme res" where
  "drop_proc p s = bindE (freeproc p s) (on_ps (release_p p))"

definition allocproc :: "addr \<Rightarrow> u64 \<Rightarrow> 'a fsst_scheme \<Rightarrow> (nat option \<times> 'a fsst_scheme) res" where
  "allocproc trampoline forkret_pc s =
    bindE (find_unused [0..<NPROC] s) (\<lambda>(found, s).
    (case found of
       None \<Rightarrow> Inr (None, s)
     | Some p \<Rightarrow>
        bindE (allocpid (io_ps s)) (\<lambda>(pid, q).
        (let s = set_proc p (\<lambda>x. x \<lparr> p_pid := pid, p_state := USED \<rparr>) (s \<lparr> io_ps := q \<rparr>) in
         bindE (k_alloc s) (\<lambda>(tf, s).
         (let s = set_proc p (\<lambda>x. x \<lparr> p_trapframe := tf \<rparr>) s in
          if tf = 0 then bindE (drop_proc p s) (\<lambda>s. Inr (None, s))
          else
            bindE (proc_pagetable trampoline tf s) (\<lambda>(pt, s).
            (let s = set_proc p (\<lambda>x. x \<lparr> p_pagetable := pt \<rparr>) s in
             if pt = 0 then bindE (drop_proc p s) (\<lambda>s. Inr (None, s))
             else
               Inr (Some p, set_proc p (\<lambda>x. x \<lparr> p_context :=
                 ctxt_zero \<lparr> x_ra := forkret_pc, x_sp := p_kstack x + PGSIZE \<rparr> \<rparr>) s)))))))))"

definition safestrcpy_name :: "u8 list \<Rightarrow> u8 list" where
  "safestrcpy_name nm = take 15 nm"

definition userinit :: "addr \<Rightarrow> u64 \<Rightarrow> addr \<Rightarrow> 'a fsst_scheme \<Rightarrow> 'a fsst_scheme res" where
  "userinit trampoline forkret_pc initcode s =
    bindE (allocproc trampoline forkret_pc s) (\<lambda>(np, s).
    (let s = s \<lparr> io_ps := (io_ps s) \<lparr> ps_initproc := np \<rparr> \<rparr> in
     bindE (deref np) (\<lambda>p.
     bindE (on_vm1 (uvmfirst (p_pagetable (proc_at p s)) initcode 52) s) (\<lambda>s.
     (let s = set_proc p (\<lambda>x. x \<lparr> p_sz := PGSIZE \<rparr>) s;
          s = tf_put p tf_sp PGSIZE (tf_put p tf_epc 0 s);
          s = set_proc p (\<lambda>x. x \<lparr> p_name := safestrcpy_name (map of_char ''initcode'') \<rparr>) s in
      bindE (namei [slash] s) (\<lambda>(ip, s).
      on_ps (release_p p) (set_proc p (\<lambda>x. x \<lparr> p_cwd := ip, p_state := RUNNABLE \<rparr>) s)))))))"

definition growproc :: "int \<Rightarrow> 'a fsst_scheme \<Rightarrow> (int \<times> 'a fsst_scheme) res" where
  "growproc n s =
    bindE (self s) (\<lambda>(p, s).
    (let sz = p_sz (proc_at p s); pt = p_pagetable (proc_at p s) in
     bindE (if n > 0 then on_vm (uvmalloc pt sz (sz + word_of_int n) PTE_W) s
            else if n < 0 then on_vm (uvmdealloc pt sz (sz + word_of_int n)) s
            else Inr (sz, s)) (\<lambda>(sz, s).
     if n > 0 \<and> sz = 0 then Inr (-1, s)
     else Inr (0, set_proc p (\<lambda>x. x \<lparr> p_sz := sz \<rparr>) s))))"

section \<open>fork\<close>

definition fork_file :: "nat \<Rightarrow> nat \<Rightarrow> nat \<Rightarrow> 'a filest_scheme \<Rightarrow> 'a filest_scheme res" where
  "fork_file p np i s =
    (case p_ofile (proc_at p s) i of
       None \<Rightarrow> Inr s
     | Some f \<Rightarrow>
        bindE (filedup f s) (\<lambda>s. Inr (set_proc np (\<lambda>x. x \<lparr> p_ofile := (p_ofile x)(i := Some f) \<rparr>) s)))"

definition fork :: "addr \<Rightarrow> u64 \<Rightarrow> 'a filest_scheme \<Rightarrow> (int \<times> 'a filest_scheme) res" where
  "fork trampoline forkret_pc s =
    bindE (self s) (\<lambda>(p, s).
    bindE (allocproc trampoline forkret_pc s) (\<lambda>(child, s).
    (case child of
       None \<Rightarrow> Inr (-1, s)
     | Some np \<Rightarrow>
        bindE (on_vm (uvmcopy (p_pagetable (proc_at p s)) (p_pagetable (proc_at np s)) (p_sz (proc_at p s))) s) (\<lambda>(r, s).
        if r < 0 then bindE (drop_proc np s) (\<lambda>s. Inr (-1, s))
        else
          (let s = set_proc np (\<lambda>x. x \<lparr> p_sz := p_sz (proc_at p s) \<rparr>) s;
               s = on_mem (\<lambda>m. store_bytes (p_trapframe (proc_at np s)) (load_bytes (p_trapframe (proc_at p s)) sizeof_trapframe m) m) s;
               s = tf_put np (tf_a 0) 0 s in
           bindE (foldE (fork_file p np) [0..<NOFILE] s) (\<lambda>s.
           bindE (deref (p_cwd (proc_at p s))) (\<lambda>cwd.
           bindE (idup cwd s) (\<lambda>s.
           (let s = set_proc np (\<lambda>x. x \<lparr> p_cwd := Some cwd, p_name := safestrcpy_name (p_name (proc_at p s)) \<rparr>) s;
                pid = p_pid (proc_at np s) in
            bindE (on_ps (release_p np) s) (\<lambda>s.
            bindE (on_ps acquire_wait s) (\<lambda>s.
            bindE (on_ps release_wait (set_proc np (\<lambda>x. x \<lparr> p_parent := Some p \<rparr>) s)) (\<lambda>s.
            bindE (on_ps (acquire_p np) s) (\<lambda>s.
            bindE (on_ps (release_p np) (set_proc np (\<lambda>x. x \<lparr> p_state := RUNNABLE \<rparr>) s)) (\<lambda>s.
            Inr (pid, s)))))))))))))))"

section \<open>exit and wait\<close>

definition close_fd :: "nat \<Rightarrow> nat \<Rightarrow> 'a filest_scheme \<Rightarrow> 'a filest_scheme res" where
  "close_fd p fd s =
    (case p_ofile (proc_at p s) fd of
       None \<Rightarrow> Inr s
     | Some f \<Rightarrow>
        bindE (fileclose f s) (\<lambda>s. Inr (set_proc p (\<lambda>x. x \<lparr> p_ofile := (p_ofile x)(fd := None) \<rparr>) s)))"

definition parent_chan :: "nat option \<Rightarrow> chan" where
  "parent_chan p = (case p of None \<Rightarrow> NoChan | Some i \<Rightarrow> ProcChan i)"

text \<open>The result is what \<open>sched\<close> switches to; \<open>exit\<close> does not return.\<close>

definition exit_proc :: "ctxt \<Rightarrow> int \<Rightarrow> 'a filest_scheme \<Rightarrow> (ctxt \<times> 'a filest_scheme) res" where
  "exit_proc regs status s =
    bindE (self s) (\<lambda>(p, s).
    guardE (Some p \<noteq> ps_initproc (io_ps s)) (Panic ''init exiting'')
    (bindE (foldE (close_fd p) [0..<NOFILE] s) (\<lambda>s.
     bindE (begin_op s) (\<lambda>s.
     bindE (deref (p_cwd (proc_at p s))) (\<lambda>cwd.
     bindE (iput cwd s) (\<lambda>s.
     bindE (end_op s) (\<lambda>s.
     bindE (on_ps acquire_wait (set_proc p (\<lambda>x. x \<lparr> p_cwd := None \<rparr>) s)) (\<lambda>s.
     bindE (on_ps (reparent p) s) (\<lambda>s.
     bindE (on_ps (wakeup (parent_chan (p_parent (proc_at p s)))) s) (\<lambda>s.
     bindE (exit_enter regs status p (io_ps s)) (\<lambda>(_, loaded, q).
     Inr (loaded, s \<lparr> io_ps := q \<rparr>))))))))))))"

text \<open>
  One scan of the table: the result of \<open>wait\<close> when a child has exited, otherwise whether there are
  children.
\<close>

fun wait_scan :: "nat \<Rightarrow> u64 \<Rightarrow> nat list \<Rightarrow> bool \<Rightarrow> 'a fsst_scheme \<Rightarrow> ((int + bool) \<times> 'a fsst_scheme) res" where
  "wait_scan p a [] havekids s = Inr (Inr havekids, s)"
| "wait_scan p a (pp # ps) havekids s =
    (if p_parent (proc_at pp s) = Some p then
       bindE (on_ps (acquire_p pp) s) (\<lambda>s.
       if p_state (proc_at pp s) = ZOMBIE then
         (let pid = p_pid (proc_at pp s) in
          bindE (if a \<noteq> 0 then
                   bindE (copyout_bytes (p_pagetable (proc_at p s)) a
                     (put32 0 (word_of_int (p_xstate (proc_at pp s))) (replicate 4 0)) (fs_vm s)) (\<lambda>(r, v).
                   Inr (r, s \<lparr> fs_vm := v \<rparr>))
                 else Inr (0, s)) (\<lambda>(r, s).
          bindE (if r < 0 then Inr s else freeproc pp s) (\<lambda>s.
          bindE (on_ps (release_p pp) s) (\<lambda>s.
          bindE (on_ps release_wait s) (\<lambda>s. Inr (Inl (if r < 0 then -1 else pid), s))))))
       else bindE (on_ps (release_p pp) s) (wait_scan p a ps True))
     else wait_scan p a ps havekids s)"

definition wait :: "u64 \<Rightarrow> 'a fsst_scheme \<Rightarrow> (int \<times> 'a fsst_scheme) res" where
  "wait a s =
    bindE (self s) (\<lambda>(p, s).
    bindE (on_ps acquire_wait s) (\<lambda>s.
    bindE (wait_scan p a [0..<NPROC] False s) (\<lambda>(r, s).
    (case r of
       Inl pid \<Rightarrow> Inr (pid, s)
     | Inr havekids \<Rightarrow>
        bindE (if \<not> havekids then Inr (True, s) else is_killed p s) (\<lambda>(stop, s).
        if stop then bindE (on_ps release_wait s) (\<lambda>s. Inr (-1, s)) else Inl Diverges)))))"

text \<open>\<open>forkret\<close> up to the return to user space; \<open>first\<close> is its static variable.\<close>

definition forkret :: "bool \<Rightarrow> 'a fsst_scheme \<Rightarrow> (bool \<times> 'a fsst_scheme) res" where
  "forkret first s =
    bindE (self s) (\<lambda>(p, s).
    bindE (on_ps (release_p p) s) (\<lambda>s.
    if first then bindE (fsinit ROOTDEV s) (\<lambda>s. Inr (False, s)) else Inr (first, s)))"

end
