(* ===== verification/Exec.thy ===== *)
theory Exec
  imports Proc_Life
begin

text \<open>
  \<open>exec\<close> of kernel/exec.c.  The headers of an ELF file are read from their bytes, with the offsets of
  the structs of kernel/elf.h.  The argument strings are lists of bytes without their zero.
\<close>

definition MAXARG :: nat where "MAXARG = 32"
definition MAXPATH :: nat where "MAXPATH = 128"
definition ELF_MAGIC :: u32 where "ELF_MAGIC = 0x464C457F"
definition ELF_PROG_LOAD :: u32 where "ELF_PROG_LOAD = 1"
definition sizeof_elfhdr :: nat where "sizeof_elfhdr = 64"
definition sizeof_proghdr :: nat where "sizeof_proghdr = 56"

definition get64 :: "nat \<Rightarrow> u8 list \<Rightarrow> u64" where
  "get64 off d = ucast (get32 off d) OR push_bit 32 (ucast (get32 (off + 4) d))"

text \<open>The fields of the two headers that \<open>exec\<close> uses.\<close>

record elfhdr =
  elf_magic :: u32
  elf_entry :: u64
  elf_phoff :: u64
  elf_phnum :: u16

record proghdr =
  ph_type :: u32
  ph_flags :: u32
  ph_off :: u64
  ph_vaddr :: u64
  ph_filesz :: u64
  ph_memsz :: u64

definition read_elfhdr :: "u8 list \<Rightarrow> elfhdr" where
  "read_elfhdr d = \<lparr> elf_magic = get32 0 d, elf_entry = get64 24 d, elf_phoff = get64 32 d, elf_phnum = get16 56 d \<rparr>"

definition read_proghdr :: "u8 list \<Rightarrow> proghdr" where
  "read_proghdr d = \<lparr> ph_type = get32 0 d, ph_flags = get32 4 d, ph_off = get64 8 d, ph_vaddr = get64 16 d,
     ph_filesz = get64 32 d, ph_memsz = get64 40 d \<rparr>"

definition flags2perm :: "u32 \<Rightarrow> u64" where
  "flags2perm flags = (if flags AND 1 \<noteq> 0 then PTE_X else 0) OR (if flags AND 2 \<noteq> 0 then PTE_W else 0)"

text \<open>
  The loop of \<open>loadseg\<close>, over the offsets \<open>0, 4096, \<dots>\<close> below the size of the segment.  \<open>readi\<close> gives less
  than asked for beyond the end of a file, long before the offset could wrap.
\<close>

fun loadseg_loop :: "addr \<Rightarrow> u64 \<Rightarrow> nat \<Rightarrow> u32 \<Rightarrow> nat \<Rightarrow> nat list \<Rightarrow> 'a fsst_scheme \<Rightarrow> (int \<times> 'a fsst_scheme) res" where
  "loadseg_loop pt va ip offset sz [] s = Inr (0, s)"
| "loadseg_loop pt va ip offset sz (i # is) s =
    bindE (on_vm (walkaddr pt (va + of_nat i)) s) (\<lambda>(pa, s).
    guardE (pa \<noteq> 0) (Panic ''loadseg: address should exist'')
    (let n = (if sz - i < 4096 then sz - i else 4096) in
     bindE (readi ip ToKernel (offset + of_nat i) (of_nat n) s) (\<lambda>(r, bs, s).
     (let s = on_mem (store_bytes pa bs) s in
      if r \<noteq> int n then Inr (-1, s) else loadseg_loop pt va ip offset sz is s))))"

definition loadseg :: "addr \<Rightarrow> u64 \<Rightarrow> nat \<Rightarrow> u32 \<Rightarrow> u32 \<Rightarrow> 'a fsst_scheme \<Rightarrow> (int \<times> 'a fsst_scheme) res" where
  "loadseg pt va ip offset sz s =
    loadseg_loop pt va ip offset (unat sz) (filter (\<lambda>i. i < unat sz) (map (\<lambda>k. k * 4096) [0..<unat sz div 4096 + 1])) s"

text \<open>One program header.  The results say whether to go on and give the size of the image.\<close>

definition exec_seg :: "addr \<Rightarrow> nat \<Rightarrow> u32 \<Rightarrow> u64 \<Rightarrow> 'a fsst_scheme \<Rightarrow> (bool \<times> u64 \<times> 'a fsst_scheme) res" where
  "exec_seg pt ip off sz s =
    bindE (readi ip ToKernel off (of_nat sizeof_proghdr) s) (\<lambda>(r, bs, s).
    if r \<noteq> int sizeof_proghdr then Inr (False, sz, s)
    else
      (let ph = read_proghdr bs in
       if ph_type ph \<noteq> ELF_PROG_LOAD then Inr (True, sz, s)
       else if ph_memsz ph < ph_filesz ph then Inr (False, sz, s)
       else if ph_vaddr ph + ph_memsz ph < ph_vaddr ph then Inr (False, sz, s)
       else if ph_vaddr ph mod PGSIZE \<noteq> 0 then Inr (False, sz, s)
       else
         bindE (on_vm (uvmalloc pt sz (ph_vaddr ph + ph_memsz ph) (flags2perm (ph_flags ph))) s) (\<lambda>(sz1, s).
         if sz1 = 0 then Inr (False, sz, s)
         else
           bindE (loadseg pt (ph_vaddr ph) ip (ucast (ph_off ph)) (ucast (ph_filesz ph)) s) (\<lambda>(r, s).
           Inr (\<not> r < 0, sz1, s)))))"

fun exec_segs :: "addr \<Rightarrow> nat \<Rightarrow> nat \<Rightarrow> u32 \<Rightarrow> u64 \<Rightarrow> 'a fsst_scheme \<Rightarrow> (bool \<times> u64 \<times> 'a fsst_scheme) res" where
  "exec_segs pt ip 0 off sz s = Inr (True, sz, s)"
| "exec_segs pt ip (Suc n) off sz s =
    bindE (exec_seg pt ip off sz s) (\<lambda>(ok, sz, s).
    if ok then exec_segs pt ip n (off + of_nat sizeof_proghdr) sz s else Inr (False, sz, s))"

text \<open>From the ELF header to the last segment: whether it succeeded, the page table, the size, and the entry.\<close>

definition exec_load :: "addr \<Rightarrow> nat \<Rightarrow> nat \<Rightarrow> 'a fsst_scheme \<Rightarrow> ((bool \<times> addr \<times> u64 \<times> u64) \<times> 'a fsst_scheme) res" where
  "exec_load trampoline p ip s =
    bindE (readi ip ToKernel 0 (of_nat sizeof_elfhdr) s) (\<lambda>(r, bs, s).
    (let elf = read_elfhdr bs in
     if r \<noteq> int sizeof_elfhdr \<or> elf_magic elf \<noteq> ELF_MAGIC then Inr ((False, 0, 0, 0), s)
     else
       bindE (proc_pagetable trampoline (p_trapframe (proc_at p s)) s) (\<lambda>(pt, s).
       if pt = 0 then Inr ((False, 0, 0, 0), s)
       else
         bindE (exec_segs pt ip (unat (elf_phnum elf)) (ucast (elf_phoff elf)) 0 s) (\<lambda>(ok, sz, s).
         Inr ((ok, pt, sz, elf_entry elf), s)))))"

text \<open>Pushing the argument strings: the stack pointer and \<open>ustack\<close>, or failure.\<close>

fun push_args :: "addr \<Rightarrow> u64 \<Rightarrow> u8 list list \<Rightarrow> u64 \<Rightarrow> u64 list \<Rightarrow> 'a fsst_scheme \<Rightarrow> ((u64 \<times> u64 list) option \<times> 'a fsst_scheme) res" where
  "push_args pt stackbase [] sp us s = Inr (Some (sp, us), s)"
| "push_args pt stackbase (a # as) sp us s =
    (if length us \<ge> MAXARG then Inr (None, s)
     else
       (let sp = sp - of_nat (length a + 1); sp = sp - sp mod 16 in
        if sp < stackbase then Inr (None, s)
        else
          bindE (copyout_bytes pt sp (a @ [0]) (fs_vm s)) (\<lambda>(r, v).
          (let s = s \<lparr> fs_vm := v \<rparr> in
           if r < 0 then Inr (None, s) else push_args pt stackbase as sp (us @ [sp]) s))))"

definition bytes64 :: "u64 \<Rightarrow> u8 list" where
  "bytes64 w = map (\<lambda>i. ucast (drop_bit (8 * i) w)) [0..<8]"

text \<open>
  The stack of the new image: a guard page, a stack page, the strings and the array of pointers.  The
  results are the size of the image, and the stack pointer with the number of arguments or failure.
\<close>

definition exec_stack :: "addr \<Rightarrow> u64 \<Rightarrow> u8 list list \<Rightarrow> 'a fsst_scheme \<Rightarrow> (u64 \<times> (u64 \<times> nat) option \<times> 'a fsst_scheme) res" where
  "exec_stack pt sz argv s =
    (let sz = PGROUNDUP sz in
     bindE (on_vm (uvmalloc pt sz (sz + 2 * PGSIZE) PTE_W) s) (\<lambda>(sz1, s).
     if sz1 = 0 then Inr (sz, None, s)
     else
       bindE (on_vm1 (uvmclear pt (sz1 - 2 * PGSIZE)) s) (\<lambda>s.
       (let stackbase = sz1 - PGSIZE in
        bindE (push_args pt stackbase argv sz1 [] s) (\<lambda>(r, s).
        (case r of
           None \<Rightarrow> Inr (sz1, None, s)
         | Some (sp, us) \<Rightarrow>
            guardE (length us < MAXARG) OutOfBounds
            (let sp = sp - (of_nat (length us) + 1) * 8; sp = sp - sp mod 16 in
             if sp < stackbase then Inr (sz1, None, s)
             else
               bindE (copyout_bytes pt sp (concat (map bytes64 (us @ [0]))) (fs_vm s)) (\<lambda>(r, v).
               (let s = s \<lparr> fs_vm := v \<rparr> in
                if r < 0 then Inr (sz1, None, s) else Inr (sz1, Some (sp, length us), s))))))))))"

text \<open>The name after the last slash.\<close>

definition last_elem :: "u8 list \<Rightarrow> u8 list" where
  "last_elem path = rev (takeWhile (\<lambda>c. c \<noteq> slash) (rev path))"

definition exec_commit :: "nat \<Rightarrow> u8 list \<Rightarrow> addr \<Rightarrow> u64 \<Rightarrow> u64 \<Rightarrow> u64 \<Rightarrow> u64 \<Rightarrow> 'a fsst_scheme \<Rightarrow> 'a fsst_scheme res" where
  "exec_commit p path pt sz entry sp oldsz s =
    (let s = tf_put p (tf_a 1) sp s;
         s = set_proc p (\<lambda>x. x \<lparr> p_name := safestrcpy_name (last_elem path) \<rparr>) s;
         oldpagetable = p_pagetable (proc_at p s);
         s = set_proc p (\<lambda>x. x \<lparr> p_pagetable := pt, p_sz := sz \<rparr>) s;
         s = tf_put p tf_sp sp (tf_put p tf_epc entry s)
     in proc_freepagetable oldpagetable oldsz s)"

definition exec :: "addr \<Rightarrow> u8 list \<Rightarrow> u8 list list \<Rightarrow> 'a fsst_scheme \<Rightarrow> (int \<times> 'a fsst_scheme) res" where
  "exec trampoline path argv s =
    bindE (self s) (\<lambda>(p, s).
    bindE (begin_op s) (\<lambda>s.
    bindE (namei path s) (\<lambda>(found, s).
    (case found of
       None \<Rightarrow> bindE (end_op s) (\<lambda>s. Inr (-1, s))
     | Some ip \<Rightarrow>
        bindE (ilock ip s) (\<lambda>s.
        bindE (exec_load trampoline p ip s) (\<lambda>((ok, pt, sz, entry), s).
        if \<not> ok then
          bindE (if pt \<noteq> 0 then proc_freepagetable pt sz s else Inr s) (\<lambda>s.
          bindE (iunlockput ip s) (\<lambda>s.
          bindE (end_op s) (\<lambda>s. Inr (-1, s))))
        else
          bindE (iunlockput ip s) (\<lambda>s.
          bindE (end_op s) (\<lambda>s.
          bindE (self s) (\<lambda>(p, s).
          (let oldsz = p_sz (proc_at p s) in
           bindE (exec_stack pt sz argv s) (\<lambda>(sz, r, s).
           (case r of
              None \<Rightarrow> bindE (proc_freepagetable pt sz s) (\<lambda>s. Inr (-1, s))
            | Some (sp, argc) \<Rightarrow>
               bindE (exec_commit p path pt sz entry sp oldsz s) (\<lambda>s. Inr (int argc, s))))))))))))))"

end
