(* ===== verification/Shell.thy ===== *)
theory Shell
  imports User_Io
begin

text \<open>
  The shell, user/sh.c: the tokenizer, the recursive-descent parser, the pass that terminates the
  argument strings in place, and the interpreter over the system calls.  The line is a list of bytes
  without its terminating zero, a \<open>char *\<close> into it is an index, and \<open>es\<close> is the length of the list.
  The calls of \<open>malloc\<close>, which the code does not check, are taken to succeed.
\<close>

section \<open>Commands\<close>

datatype redir = Redirection (r_file: nat) (r_efile: nat) (r_mode: int) (r_fd: int)

datatype cmd =
    EXEC "(nat \<times> nat) list"
  | REDIR cmd redir
  | PIPE cmd cmd
  | LIST cmd cmd
  | BACK cmd

datatype sherr = ShPanic string | Leftovers nat | ShFuel

definition MAXARGS :: nat where
  "MAXARGS = 10"

definition O_RDONLY :: int where
  "O_RDONLY = 0"

definition O_WRONLY :: int where
  "O_WRONLY = 1"

definition O_RDWR :: int where
  "O_RDWR = 2"

definition O_CREATE :: int where
  "O_CREATE = 512"

definition O_TRUNC :: int where
  "O_TRUNC = 1024"

section \<open>Tokens\<close>

definition whitespace :: "u8 list" where
  "whitespace = [32, 9, 13, 10, 11]"

definition symbols :: "u8 list" where
  "symbols = bytes ''<|>&;()''"

definition at :: "u8 list \<Rightarrow> nat \<Rightarrow> u8" where
  "at t s = (if s < length t then t ! s else 0)"

definition tok :: "char \<Rightarrow> u8" where
  "tok c = of_char c"

text \<open>The loops \<open>while(s < es && P(*s)) s++\<close>.\<close>

function adv :: "(u8 \<Rightarrow> bool) \<Rightarrow> u8 list \<Rightarrow> nat \<Rightarrow> nat" where
  "adv P t s = (if s < length t \<and> P (t ! s) then adv P t (Suc s) else s)"
  by pat_completeness auto
termination
  by (relation "measure (\<lambda>(P, t, s). length t - s)") auto

declare adv.simps [simp del]

definition is_space :: "u8 \<Rightarrow> bool" where
  "is_space c = (c \<in> set whitespace)"

definition is_word :: "u8 \<Rightarrow> bool" where
  "is_word c = (c \<notin> set whitespace \<and> c \<notin> set symbols)"

definition gettoken :: "u8 list \<Rightarrow> nat \<Rightarrow> u8 \<times> nat \<times> nat \<times> nat" where
  "gettoken t ps =
    (let s = adv is_space t ps; q = s; c = at t s;
         (ret, s) =
           (if c = 0 then (c, s)
            else if c \<in> set (bytes ''|();&<'') then (c, s + 1)
            else if c = tok CHR ''>'' then
              (if at t (s + 1) = tok CHR ''>'' then (tok CHR ''+'', s + 2) else (c, s + 1))
            else (tok CHR ''a'', adv is_word t s));
         eq = s
     in (ret, q, eq, adv is_space t s))"

definition peek :: "u8 list \<Rightarrow> string \<Rightarrow> nat \<Rightarrow> bool \<times> nat" where
  "peek t toks ps =
    (let s = adv is_space t ps in (at t s \<noteq> 0 \<and> at t s \<in> set (bytes toks), s))"

text \<open>The position after \<open>gettoken(ps, es, 0, 0)\<close>.\<close>

definition skiptoken :: "u8 list \<Rightarrow> nat \<Rightarrow> nat" where
  "skiptoken t ps = (case gettoken t ps of (_, _, _, s) \<Rightarrow> s)"

lemma adv_le: "s \<le> adv P t s"
  by (induction P t s rule: adv.induct) (subst adv.simps, auto)

lemma adv_step: "s < length t \<Longrightarrow> P (t ! s) \<Longrightarrow> s < adv P t s"
  using adv_le [of "Suc s" P t] by (subst adv.simps) simp

lemma adv_stop: "adv P t s < length t \<Longrightarrow> \<not> P (t ! adv P t s)"
proof (induction P t s rule: adv.induct)
  case (1 P t s)
  then show ?case
    by (cases "s < length t \<and> P (t ! s)") (auto simp: adv.simps [of P t s])
qed

lemma adv_id: "\<not> P (t ! s) \<Longrightarrow> adv P t s = s"
  by (simp add: adv.simps)

lemma adv_idem: "adv P t (adv P t s) = adv P t s"
  using adv_stop [of P t s] adv.simps [of P t "adv P t s"] by argo

lemma at_nonzero: "at t s \<noteq> 0 \<Longrightarrow> s < length t"
  by (simp add: at_def split: if_splits)

lemma special_chars: "c \<noteq> 0 \<Longrightarrow> c \<notin> set (bytes ''|();&<'') \<Longrightarrow> c \<noteq> tok CHR ''>'' \<Longrightarrow> c \<notin> set symbols"
  by (auto simp: bytes_def tok_def symbols_def)

lemma gettoken_advances:
  assumes "gettoken t ps = (r, q, eq, s)"
  shows "ps \<le> s" and "r \<noteq> 0 \<Longrightarrow> ps < s"
proof -
  define p where "p = adv is_space t ps"
  have p: "ps \<le> p" "p < length t \<Longrightarrow> \<not> is_space (t ! p)"
    unfolding p_def by (rule adv_le, rule adv_stop)
  have w: "p < adv is_word t p" if "at t p \<noteq> 0" "at t p \<notin> set (bytes ''|();&<'')" "at t p \<noteq> tok CHR ''>''"
    using that p(2) special_chars [OF that] at_nonzero [OF that(1)]
    by (intro adv_step) (auto simp: is_word_def is_space_def at_def)
  show "ps \<le> s"
    using assms p(1) w adv_le [of _ is_space t] unfolding gettoken_def p_def [symmetric] Let_def
    by (auto split: if_splits intro: order_trans [OF _ adv_le] less_imp_le)
  show "ps < s" if "r \<noteq> 0"
    using assms that p(1) w adv_le [of "Suc p" is_space t] adv_le [of "Suc (Suc p)" is_space t]
      adv_le [of "adv is_word t p" is_space t]
    unfolding gettoken_def p_def [symmetric] Let_def by (auto split: if_splits)
qed

lemma peek_advances: "peek t toks ps = (b, s) \<Longrightarrow> ps \<le> s"
  using adv_le [of ps is_space t] by (auto simp: peek_def Let_def)

lemma skiptoken_after_peek:
  assumes "peek t toks ps = (True, s)"
  shows "ps < skiptoken t s"
proof -
  have s: "s = adv is_space t ps" "at t s \<noteq> 0"
    using assms by (auto simp: peek_def Let_def)
  have a: "adv is_space t s = s"
    unfolding s(1) by (rule adv_idem)
  obtain r q eq s' where g: "gettoken t s = (r, q, eq, s')"
    by (cases "gettoken t s") auto
  have "r \<noteq> 0"
    using g s(2) unfolding gettoken_def a Let_def by (auto split: if_splits simp: tok_def)
  then have "s < s'"
    using gettoken_advances(2) [OF g] by simp
  then show ?thesis
    using g peek_advances [OF assms] by (simp add: skiptoken_def)
qed

lemma peek_in_line: "peek t toks ps = (True, s) \<Longrightarrow> ps < length t"
  using peek_advances [of t toks ps True s] at_nonzero [of t s] by (auto simp: peek_def Let_def)

lemma peek_gettoken:
  assumes "peek t toks ps = (True, s)" "gettoken t s = (k, q0, eq0, s1)"
  shows "ps < s1"
  using skiptoken_after_peek [OF assms(1)] assms(2) by (simp add: skiptoken_def)

lemma redir_step:
  assumes "(True, s) = peek t toks ps" "(k, q0, eq0, s1) = gettoken t s" "(a, q, eq, s2) = gettoken t s1"
  shows "length t - s2 < length t - ps"
  using peek_in_line [OF assms(1) [symmetric]] peek_gettoken [OF assms(1,2) [symmetric]]
    gettoken_advances(1) [OF assms(3) [symmetric]] by simp

section \<open>The parser\<close>

text \<open>
  \<open>parseredirs\<close> wraps a command in redirections.  The command it wraps is often an \<open>execcmd\<close> whose
  argument array is filled in later through another pointer, so the function returns the
  redirections, innermost first, and \<open>redircmds\<close> applies them.
\<close>

definition execcmd :: "(nat \<times> nat) list \<Rightarrow> cmd" where
  "execcmd argv = EXEC argv"

definition redircmd :: "cmd \<Rightarrow> redir \<Rightarrow> cmd" where
  "redircmd subcmd r = REDIR subcmd r"

definition redircmds :: "cmd \<Rightarrow> redir list \<Rightarrow> cmd" where
  "redircmds c rs = foldl redircmd c rs"

definition pipecmd :: "cmd \<Rightarrow> cmd \<Rightarrow> cmd" where
  "pipecmd left right = PIPE left right"

definition listcmd :: "cmd \<Rightarrow> cmd \<Rightarrow> cmd" where
  "listcmd left right = LIST left right"

definition backcmd :: "cmd \<Rightarrow> cmd" where
  "backcmd subcmd = BACK subcmd"

definition redir_of :: "u8 \<Rightarrow> nat \<Rightarrow> nat \<Rightarrow> redir" where
  "redir_of k q eq =
    (if k = tok CHR ''<'' then Redirection q eq O_RDONLY 0
     else if k = tok CHR ''>'' then Redirection q eq (O_WRONLY OR O_CREATE OR O_TRUNC) 1
     else Redirection q eq (O_WRONLY OR O_CREATE) 1)"

function parseredirs :: "u8 list \<Rightarrow> redir list \<Rightarrow> nat \<Rightarrow> sherr + redir list \<times> nat" where
  "parseredirs t rs ps =
    (case peek t ''<>'' ps of (b, s) \<Rightarrow>
      if b then
        (case gettoken t s of (k, _, _, s1) \<Rightarrow>
         case gettoken t s1 of (a, q, eq, s2) \<Rightarrow>
           if a \<noteq> tok CHR ''a'' then Inl (ShPanic ''missing file for redirection'')
           else parseredirs t (rs @ [redir_of k q eq]) s2)
      else Inr (rs, s))"
  by pat_completeness auto
termination
  by (relation "measure (\<lambda>(t, rs, ps). length t - ps)") (simp, auto intro: redir_step)

declare parseredirs.simps [simp del]

lemma parseredirs_advances: "parseredirs t rs ps = Inr (rs', s) \<Longrightarrow> ps \<le> s"
proof (induction t rs ps rule: parseredirs.induct)
  case (1 t rs ps)
  obtain b s0 where p: "peek t ''<>'' ps = (b, s0)"
    by fastforce
  obtain k q0 eq0 s1 where g: "gettoken t s0 = (k, q0, eq0, s1)"
    by (rule prod_cases4)
  obtain a q eq s2 where h: "gettoken t s1 = (a, q, eq, s2)"
    by (rule prod_cases4)
  have "s2 \<le> s" if b "a = tok CHR ''a''"
    using that 1(1) [OF p [symmetric] _ g [symmetric] refl refl h [symmetric] refl refl] 1(2) p g h
    by (simp add: parseredirs.simps [of t rs ps])
  then show ?case
    using 1(2) p g h peek_advances [OF p] gettoken_advances(1) [OF g] gettoken_advances(1) [OF h]
    by (auto simp: parseredirs.simps [of t rs ps] split: if_splits)
qed

text \<open>The loop of \<open>parseexec\<close> over the arguments, and the redirections among them.\<close>

function parseargs :: "u8 list \<Rightarrow> (nat \<times> nat) list \<Rightarrow> redir list \<Rightarrow> nat \<Rightarrow>
    sherr + ((nat \<times> nat) list \<times> redir list) \<times> nat" where
  "parseargs t argv rs ps =
    (case peek t ''|)&;'' ps of (b, s) \<Rightarrow>
      if b then Inr ((argv, rs), s)
      else
        (case gettoken t s of (k, q, eq, s1) \<Rightarrow>
          if k = 0 then Inr ((argv, rs), s1)
          else if k \<noteq> tok CHR ''a'' then Inl (ShPanic ''syntax'')
          else if length argv + 1 \<ge> MAXARGS then Inl (ShPanic ''too many args'')
          else
            (case parseredirs t rs s1 of
               Inl e \<Rightarrow> Inl e
             | Inr (rs, s2) \<Rightarrow> parseargs t (argv @ [(q, eq)]) rs s2)))"
  by pat_completeness auto
termination
  by (relation "measure (\<lambda>(t, argv, rs, ps). MAXARGS - length argv)") auto

declare parseargs.simps [simp del]

text \<open>
  The four functions of the recursive descent call each other.  The first argument bounds the depth
  of their calls; \<open>parse_fuel\<close> is a bound that is enough, which is proved below.
\<close>

definition parse_fuel :: "u8 list \<Rightarrow> nat" where
  "parse_fuel t = 4 * length t + 4"

function back_loop :: "u8 list \<Rightarrow> cmd \<Rightarrow> nat \<Rightarrow> cmd \<times> nat" where
  "back_loop t c ps =
    (case peek t ''&'' ps of (b, s) \<Rightarrow>
      if b then back_loop t (backcmd c) (skiptoken t s) else (c, s))"
  by pat_completeness auto
termination
  by (relation "measure (\<lambda>(t, c, ps). length t - ps)")
    (auto dest: peek_in_line skiptoken_after_peek intro!: diff_less_mono2 dest: sym)

declare back_loop.simps [simp del]

fun parseline :: "nat \<Rightarrow> u8 list \<Rightarrow> nat \<Rightarrow> sherr + cmd \<times> nat"
  and parsepipe :: "nat \<Rightarrow> u8 list \<Rightarrow> nat \<Rightarrow> sherr + cmd \<times> nat"
  and parseblock :: "nat \<Rightarrow> u8 list \<Rightarrow> nat \<Rightarrow> sherr + cmd \<times> nat"
  and parseexec :: "nat \<Rightarrow> u8 list \<Rightarrow> nat \<Rightarrow> sherr + cmd \<times> nat" where
  "parseline 0 t ps = Inl ShFuel"
| "parseline (Suc n) t ps =
    bindE (parsepipe n t ps) (\<lambda>(c, s).
      case back_loop t c s of (c, s) \<Rightarrow>
      case peek t '';'' s of (b, s) \<Rightarrow>
        if b then bindE (parseline n t (skiptoken t s)) (\<lambda>(c2, s). Inr (listcmd c c2, s))
        else Inr (c, s))"
| "parsepipe 0 t ps = Inl ShFuel"
| "parsepipe (Suc n) t ps =
    bindE (parseexec n t ps) (\<lambda>(c, s).
      case peek t ''|'' s of (b, s) \<Rightarrow>
        if b then bindE (parsepipe n t (skiptoken t s)) (\<lambda>(c2, s). Inr (pipecmd c c2, s))
        else Inr (c, s))"
| "parseblock 0 t ps = Inl ShFuel"
| "parseblock (Suc n) t ps =
    (case peek t ''('' ps of (b, s) \<Rightarrow>
      if \<not> b then Inl (ShPanic ''parseblock'')
      else
        bindE (parseline n t (skiptoken t s)) (\<lambda>(c, s).
          case peek t '')'' s of (b, s) \<Rightarrow>
            if \<not> b then Inl (ShPanic ''syntax - missing )'')
            else bindE (parseredirs t [] (skiptoken t s)) (\<lambda>(rs, s). Inr (redircmds c rs, s))))"
| "parseexec 0 t ps = Inl ShFuel"
| "parseexec (Suc n) t ps =
    (case peek t ''('' ps of (b, s) \<Rightarrow>
      if b then parseblock n t s
      else
        bindE (parseredirs t [] s) (\<lambda>(rs, s).
          bindE (parseargs t [] rs s) (\<lambda>((argv, rs), s). Inr (redircmds (execcmd argv) rs, s))))"

section \<open>Terminating the strings\<close>

text \<open>The buffer \<open>b\<close> is the line with its terminating zero.\<close>

fun nulterminate :: "cmd \<Rightarrow> u8 list \<Rightarrow> u8 list" where
  "nulterminate (EXEC argv) b = fold (\<lambda>(q, eq) b. b[eq := 0]) argv b"
| "nulterminate (REDIR c r) b = (nulterminate c b)[r_efile r := 0]"
| "nulterminate (PIPE l r) b = nulterminate r (nulterminate l b)"
| "nulterminate (LIST l r) b = nulterminate r (nulterminate l b)"
| "nulterminate (BACK c) b = nulterminate c b"

text \<open>\<open>parsecmd\<close> returns the command and the buffer its strings are in.\<close>

definition parsecmd :: "u8 list \<Rightarrow> sherr + cmd \<times> u8 list" where
  "parsecmd t =
    bindE (parseline (parse_fuel t) t 0) (\<lambda>(c, s).
      case peek t [] s of (_, s) \<Rightarrow>
        if s \<noteq> length t then Inl (Leftovers s) else Inr (c, nulterminate c (t @ [0])))"

section \<open>Running commands\<close>

text \<open>
  The system calls the shell makes.  \<open>fork\<close> returns in two processes; the definitions follow the
  process in which it returned the value that \<open>sh_fork\<close> gives.  \<open>sh_exec\<close> says whether the process
  has been replaced by the program.
\<close>

record 's shsys =
  sh_read1 :: "'s \<Rightarrow> int \<times> u8 \<times> 's"
  sh_write :: "int \<Rightarrow> u8 list \<Rightarrow> 's \<Rightarrow> 's"
  sh_open :: "u8 list \<Rightarrow> int \<Rightarrow> 's \<Rightarrow> int \<times> 's"
  sh_close :: "int \<Rightarrow> 's \<Rightarrow> 's"
  sh_dup :: "int \<Rightarrow> 's \<Rightarrow> 's"
  sh_pipe :: "'s \<Rightarrow> int \<times> int \<times> int \<times> 's"
  sh_fork :: "'s \<Rightarrow> int \<times> 's"
  sh_wait :: "'s \<Rightarrow> 's"
  sh_chdir :: "u8 list \<Rightarrow> 's \<Rightarrow> int \<times> 's"
  sh_exec :: "u8 list \<Rightarrow> u8 list list \<Rightarrow> 's \<Rightarrow> bool \<times> 's"

text \<open>How a process of the shell ends.\<close>

datatype shend = ShExit int | ShReplaced "u8 list list" | ShStuck

definition str_at :: "u8 list \<Rightarrow> nat \<Rightarrow> u8 list" where
  "str_at b q = takeWhile (\<lambda>c. c \<noteq> 0) (drop q b)"

text \<open>\<open>fprintf(2, ...)\<close> writes byte by byte.\<close>

definition sh_say :: "'s shsys \<Rightarrow> u8 list \<Rightarrow> 's \<Rightarrow> 's" where
  "sh_say sys bs s = fold (\<lambda>c. sh_write sys 2 [c]) bs s"

definition sh_panic :: "'s shsys \<Rightarrow> string \<Rightarrow> 's \<Rightarrow> shend \<times> 's" where
  "sh_panic sys msg s = (ShExit 1, sh_say sys (bytes msg @ [10]) s)"

definition fork1 :: "'s shsys \<Rightarrow> (int \<Rightarrow> 's \<Rightarrow> shend \<times> 's) \<Rightarrow> 's \<Rightarrow> shend \<times> 's" where
  "fork1 sys k s =
    (case sh_fork sys s of (pid, s) \<Rightarrow> if pid = -1 then sh_panic sys ''fork'' s else k pid s)"

fun runcmd :: "'s shsys \<Rightarrow> u8 list \<Rightarrow> cmd \<Rightarrow> 's \<Rightarrow> shend \<times> 's" where
  "runcmd sys b (EXEC argv) s =
    (case argv of
       [] \<Rightarrow> (ShExit 1, s)
     | a # _ \<Rightarrow>
        (let name = str_at b (fst a); args = map (\<lambda>(q, eq). str_at b q) argv in
         case sh_exec sys name args s of (replaced, s) \<Rightarrow>
           if replaced then (ShReplaced args, s)
           else (ShExit 0, sh_say sys (bytes ''exec '' @ name @ bytes '' failed'' @ [10]) s)))"
| "runcmd sys b (REDIR c r) s =
    (let s = sh_close sys (r_fd r) s; name = str_at b (r_file r) in
     case sh_open sys name (r_mode r) s of (fd, s) \<Rightarrow>
       if fd < 0 then (ShExit 1, sh_say sys (bytes ''open '' @ name @ bytes '' failed'' @ [10]) s)
       else runcmd sys b c s)"
| "runcmd sys b (LIST l r) s =
    fork1 sys (\<lambda>pid s.
      if pid = 0 then runcmd sys b l s else runcmd sys b r (sh_wait sys s)) s"
| "runcmd sys b (PIPE l r) s =
    (case sh_pipe sys s of (ret, p0, p1, s) \<Rightarrow>
       if ret < 0 then sh_panic sys ''pipe'' s
       else
         fork1 sys (\<lambda>pid s.
           if pid = 0 then
             runcmd sys b l (sh_close sys p1 (sh_close sys p0 (sh_dup sys p1 (sh_close sys 1 s))))
           else
             fork1 sys (\<lambda>pid s.
               if pid = 0 then
                 runcmd sys b r (sh_close sys p1 (sh_close sys p0 (sh_dup sys p0 (sh_close sys 0 s))))
               else
                 (ShExit 0, sh_wait sys (sh_wait sys (sh_close sys p1 (sh_close sys p0 s))))) s) s)"
| "runcmd sys b (BACK c) s =
    fork1 sys (\<lambda>pid s. if pid = 0 then runcmd sys b c s else (ShExit 0, s)) s"

text \<open>The child of \<open>main\<close>: \<open>runcmd(parsecmd(buf))\<close>.\<close>

definition run_line :: "'s shsys \<Rightarrow> u8 list \<Rightarrow> 's \<Rightarrow> shend \<times> 's" where
  "run_line sys t s =
    (case parsecmd t of
       Inr (c, b) \<Rightarrow> runcmd sys b c s
     | Inl (ShPanic msg) \<Rightarrow> sh_panic sys msg s
     | Inl (Leftovers p) \<Rightarrow>
         sh_panic sys ''syntax'' (sh_say sys (bytes ''leftovers: '' @ drop p t @ [10]) s)
     | Inl ShFuel \<Rightarrow> (ShStuck, s))"

text \<open>
  The buffer of \<open>main\<close> has 100 bytes.  \<open>getcmd\<close> clears it and fills it with \<open>gets\<close>, here in a memory
  that holds only the buffer, at address 0.
\<close>

definition getcmd :: "'s shsys \<Rightarrow> int \<Rightarrow> 's \<Rightarrow> int \<times> u8 list \<times> 's" where
  "getcmd sys nbuf s =
    (let s = sh_write sys 2 (bytes ''$ '') s in
     case gets (sh_read1 sys) 0 nbuf (\<lambda>_. 0, s) of (m, s) \<Rightarrow>
       let buf = map (\<lambda>i. m (of_nat i)) [0..<nat nbuf] in
       (if buf ! 0 = 0 then -1 else 0, buf, s))"

partial_function (option) open_console :: "'s shsys \<Rightarrow> 's \<Rightarrow> 's option" where
  "open_console sys s =
    (case sh_open sys (bytes ''console'') O_RDWR s of (fd, s) \<Rightarrow>
       if fd \<ge> 0 then (if fd \<ge> 3 then Some (sh_close sys fd s) else open_console sys s)
       else Some s)"

definition sh_cd :: "'s shsys \<Rightarrow> u8 list \<Rightarrow> 's \<Rightarrow> 's" where
  "sh_cd sys buf s =
    (let buf = buf[length (str_at buf 0) - 1 := 0] in
     case sh_chdir sys (str_at buf 3) s of (r, s) \<Rightarrow>
       if r < 0 then sh_say sys (bytes ''cannot cd '' @ str_at buf 3 @ [10]) s else s)"

partial_function (option) command_loop :: "'s shsys \<Rightarrow> 's \<Rightarrow> (shend \<times> 's) option" where
  "command_loop sys s =
    (case getcmd sys 100 s of (r, buf, s) \<Rightarrow>
       if r < 0 then Some (ShExit 0, s)
       else if buf ! 0 = tok CHR ''c'' \<and> buf ! 1 = tok CHR ''d'' \<and> buf ! 2 = 32
       then command_loop sys (sh_cd sys buf s)
       else
         (case sh_fork sys s of (pid, s) \<Rightarrow>
            if pid = -1 then Some (sh_panic sys ''fork'' s)
            else if pid = 0 then Some (run_line sys (str_at buf 0) s)
            else command_loop sys (sh_wait sys s)))"

definition sh_main :: "'s shsys \<Rightarrow> 's \<Rightarrow> (shend \<times> 's) option" where
  "sh_main sys s = (case open_console sys s of None \<Rightarrow> None | Some s \<Rightarrow> command_loop sys s)"

end
