(* ===== verification/Sysfile.thy ===== *)
theory Sysfile
  imports Exec Shell
begin

text \<open>
  The system calls on files, kernel/sysfile.c, and the functions of kernel/syscall.c that fetch their
  arguments from the registers the process saved and from its memory.
\<close>

section \<open>Arguments\<close>

definition argraw :: "nat \<Rightarrow> 'a fsst_scheme \<Rightarrow> (u64 \<times> 'a fsst_scheme) res" where
  "argraw n s =
    bindE (self s) (\<lambda>(p, s).
    guardE (n \<le> 5) (Panic ''argraw'') (Inr (tf_get p (tf_a n) s, s)))"

definition argint :: "nat \<Rightarrow> 'a fsst_scheme \<Rightarrow> (int \<times> 'a fsst_scheme) res" where
  "argint n s = bindE (argraw n s) (\<lambda>(w, s). Inr (sint (ucast w :: u32), s))"

definition argaddr :: "nat \<Rightarrow> 'a fsst_scheme \<Rightarrow> (u64 \<times> 'a fsst_scheme) res" where
  "argaddr n s = argraw n s"

definition fetchaddr :: "u64 \<Rightarrow> 'a fsst_scheme \<Rightarrow> (u64 option \<times> 'a fsst_scheme) res" where
  "fetchaddr a s =
    bindE (self s) (\<lambda>(p, s).
    if a \<ge> p_sz (proc_at p s) \<or> a + 8 > p_sz (proc_at p s) then Inr (None, s)
    else
      bindE (copyin_bytes (p_pagetable (proc_at p s)) a 8 (fs_vm s)) (\<lambda>(r, bs, v).
      Inr (if r \<noteq> 0 then None else Some (get64 0 bs), s \<lparr> fs_vm := v \<rparr>)))"

text \<open>\<open>copyinstr\<close> into a buffer of the kernel: the bytes before the zero, if there is one in time.\<close>

function copyinstr_bytes :: "addr \<Rightarrow> u64 \<Rightarrow> nat \<Rightarrow> u8 list \<Rightarrow> vm \<Rightarrow> (u8 list option \<times> vm) res" where
  "copyinstr_bytes pt srcva mx acc s =
    (if mx > 0 then
       (let va0 = PGROUNDDOWN srcva in
        bindE (walkaddr pt va0 s) (\<lambda>(pa0, s).
        if pa0 = 0 then Inr (None, s)
        else
          (let n = min (unat (PGSIZE - (srcva - va0))) mx;
               bs = takeWhile (\<lambda>c. c \<noteq> 0) (load_bytes (pa0 + (srcva - va0)) n (vm_mem s)) in
           if length bs < n then Inr (Some (acc @ bs), s)
           else copyinstr_bytes pt (va0 + PGSIZE) (mx - n) (acc @ bs) s)))
     else Inr (None, s))"
  by pat_completeness auto
termination
  by (relation "measure (\<lambda>(pt, srcva, mx, acc, s). mx)") (auto simp: page_part_pos)

declare copyinstr_bytes.simps [simp del]

definition fetchstr :: "u64 \<Rightarrow> nat \<Rightarrow> 'a fsst_scheme \<Rightarrow> (u8 list option \<times> 'a fsst_scheme) res" where
  "fetchstr a mx s =
    bindE (self s) (\<lambda>(p, s).
    bindE (copyinstr_bytes (p_pagetable (proc_at p s)) a mx [] (fs_vm s)) (\<lambda>(r, v). Inr (r, s \<lparr> fs_vm := v \<rparr>)))"

definition argstr :: "nat \<Rightarrow> nat \<Rightarrow> 'a fsst_scheme \<Rightarrow> (u8 list option \<times> 'a fsst_scheme) res" where
  "argstr n mx s = bindE (argaddr n s) (\<lambda>(a, s). fetchstr a mx s)"

section \<open>File descriptors\<close>

definition argfd :: "nat \<Rightarrow> 'a fsst_scheme \<Rightarrow> ((nat \<times> nat) option \<times> 'a fsst_scheme) res" where
  "argfd n s =
    bindE (argint n s) (\<lambda>(fd, s).
    if fd < 0 \<or> fd \<ge> int NOFILE then Inr (None, s)
    else
      bindE (self s) (\<lambda>(p, s).
      Inr (case p_ofile (proc_at p s) (nat fd) of None \<Rightarrow> None | Some f \<Rightarrow> Some (nat fd, f), s)))"

definition set_ofile :: "nat \<Rightarrow> nat \<Rightarrow> nat option \<Rightarrow> 'a io_scheme \<Rightarrow> 'a io_scheme" where
  "set_ofile p fd f s = set_proc p (\<lambda>x. x \<lparr> p_ofile := (p_ofile x)(fd := f) \<rparr>) s"

definition fdalloc :: "nat \<Rightarrow> 'a fsst_scheme \<Rightarrow> (nat option \<times> 'a fsst_scheme) res" where
  "fdalloc f s =
    bindE (self s) (\<lambda>(p, s).
    Inr (case find (\<lambda>fd. p_ofile (proc_at p s) fd = None) [0..<NOFILE] of
           Some fd \<Rightarrow> (Some fd, set_ofile p fd (Some f) s)
         | None \<Rightarrow> (None, s)))"

definition sys_dup :: "'a filest_scheme \<Rightarrow> (int \<times> 'a filest_scheme) res" where
  "sys_dup s =
    bindE (argfd 0 s) (\<lambda>(r, s).
    (case r of
       None \<Rightarrow> Inr (-1, s)
     | Some (_, f) \<Rightarrow>
        bindE (fdalloc f s) (\<lambda>(r, s).
        (case r of
           None \<Rightarrow> Inr (-1, s)
         | Some fd \<Rightarrow> bindE (filedup f s) (\<lambda>s. Inr (int fd, s))))))"

definition sys_dummy :: "'a filest_scheme \<Rightarrow> (int \<times> 'a filest_scheme) res" where
  "sys_dummy s = Inr (0x5555, s)"

definition sys_read :: "(int \<Rightarrow> 'a filest_scheme devsw) \<Rightarrow> 'a filest_scheme \<Rightarrow> (int \<times> 'a filest_scheme) res" where
  "sys_read devs s =
    bindE (argaddr 1 s) (\<lambda>(a, s).
    bindE (argint 2 s) (\<lambda>(n, s).
    bindE (argfd 0 s) (\<lambda>(r, s).
    (case r of None \<Rightarrow> Inr (-1, s) | Some (_, f) \<Rightarrow> fileread devs f a n s))))"

definition sys_write :: "(int \<Rightarrow> 'a filest_scheme devsw) \<Rightarrow> 'a filest_scheme \<Rightarrow> (int \<times> 'a filest_scheme) res" where
  "sys_write devs s =
    bindE (argaddr 1 s) (\<lambda>(a, s).
    bindE (argint 2 s) (\<lambda>(n, s).
    bindE (argfd 0 s) (\<lambda>(r, s).
    (case r of None \<Rightarrow> Inr (-1, s) | Some (_, f) \<Rightarrow> filewrite devs f a n s))))"

definition sys_close :: "'a filest_scheme \<Rightarrow> (int \<times> 'a filest_scheme) res" where
  "sys_close s =
    bindE (argfd 0 s) (\<lambda>(r, s).
    (case r of
       None \<Rightarrow> Inr (-1, s)
     | Some (fd, f) \<Rightarrow>
        bindE (self s) (\<lambda>(p, s).
        bindE (fileclose f (set_ofile p fd None s)) (\<lambda>s. Inr (0, s)))))"

definition sys_fstat :: "u8 list \<Rightarrow> 'a filest_scheme \<Rightarrow> (int \<times> 'a filest_scheme) res" where
  "sys_fstat pad s =
    bindE (argaddr 1 s) (\<lambda>(st, s).
    bindE (argfd 0 s) (\<lambda>(r, s).
    (case r of None \<Rightarrow> Inr (-1, s) | Some (_, f) \<Rightarrow> filestat pad f st s)))"

section \<open>Links\<close>

text \<open>A system call that ends its transaction and returns.\<close>

definition finish :: "int \<Rightarrow> 'a logst_scheme \<Rightarrow> (int \<times> 'a logst_scheme) res" where
  "finish r s = bindE (end_op s) (\<lambda>s. Inr (r, s))"

definition add_nlink :: "nat \<Rightarrow> int \<Rightarrow> 'a fsst_scheme \<Rightarrow> 'a fsst_scheme res" where
  "add_nlink i k s = iupdate i (upd_ino i (\<lambda>x. x \<lparr> i_nlink := signed_take_bit 15 (i_nlink x + k) \<rparr>) s)"

definition link_bad :: "nat \<Rightarrow> 'a fsst_scheme \<Rightarrow> (int \<times> 'a fsst_scheme) res" where
  "link_bad ip s =
    bindE (ilock ip s) (\<lambda>s.
    bindE (add_nlink ip (-1) s) (\<lambda>s.
    bindE (iunlockput ip s) (finish (-1))))"

definition sys_link :: "'a filest_scheme \<Rightarrow> (int \<times> 'a filest_scheme) res" where
  "sys_link s =
    bindE (argstr 0 MAXPATH s) (\<lambda>(old, s).
    bindE (if old = None then Inr (None, s) else argstr 1 MAXPATH s) (\<lambda>(new, s).
    (case (old, new) of
       (Some old, Some new) \<Rightarrow>
        bindE (begin_op s) (\<lambda>s.
        bindE (namei old s) (\<lambda>(r, s).
        (case r of
           None \<Rightarrow> finish (-1) s
         | Some ip \<Rightarrow>
            bindE (ilock ip s) (\<lambda>s.
            if i_type (it_inode s ip) = T_DIR then bindE (iunlockput ip s) (finish (-1))
            else
              bindE (add_nlink ip 1 s) (\<lambda>s.
              bindE (iunlock ip s) (\<lambda>s.
              bindE (nameiparent new s) (\<lambda>(r, name, s).
              (case r of
                 None \<Rightarrow> link_bad ip s
               | Some dp \<Rightarrow>
                  bindE (ilock dp s) (\<lambda>s.
                  bindE (if i_dev (it_inode s dp) \<noteq> i_dev (it_inode s ip) then Inr (-1, s)
                         else dirlink dp name (i_inum (it_inode s ip)) s) (\<lambda>(r, s).
                  bindE (iunlockput dp s) (\<lambda>s.
                  if r < 0 then link_bad ip s else bindE (iput ip s) (finish 0))))))))))))
     | _ \<Rightarrow> Inr (-1, s))))"

text \<open>The offsets \<open>32, 48, \<dots>\<close> below the size of the directory.\<close>

fun isdirempty_loop :: "nat \<Rightarrow> nat list \<Rightarrow> 'a fsst_scheme \<Rightarrow> (bool \<times> 'a fsst_scheme) res" where
  "isdirempty_loop dp [] s = Inr (True, s)"
| "isdirempty_loop dp (off # offs) s =
    bindE (readi dp ToKernel (of_nat off) (of_nat sizeof_dirent) s) (\<lambda>(r, de, s).
    guardE (r = int sizeof_dirent) (Panic ''isdirempty: readi'')
    (if get16 0 de \<noteq> 0 then Inr (False, s) else isdirempty_loop dp offs s))"

definition isdirempty :: "nat \<Rightarrow> 'a fsst_scheme \<Rightarrow> (bool \<times> 'a fsst_scheme) res" where
  "isdirempty dp s = isdirempty_loop dp (drop 2 (dir_offsets (i_size (it_inode s dp)))) s"

definition dot :: "u8 list" where "dot = bytes ''.''"
definition dotdot :: "u8 list" where "dotdot = bytes ''..''"

definition unlink_bad :: "nat \<Rightarrow> 'a fsst_scheme \<Rightarrow> (int \<times> 'a fsst_scheme) res" where
  "unlink_bad dp s = bindE (iunlockput dp s) (finish (-1))"

definition sys_unlink :: "'a filest_scheme \<Rightarrow> (int \<times> 'a filest_scheme) res" where
  "sys_unlink s =
    bindE (argstr 0 MAXPATH s) (\<lambda>(path, s).
    (case path of
       None \<Rightarrow> Inr (-1, s)
     | Some path \<Rightarrow>
        bindE (begin_op s) (\<lambda>s.
        bindE (nameiparent path s) (\<lambda>(r, name, s).
        (case r of
           None \<Rightarrow> finish (-1) s
         | Some dp \<Rightarrow>
            bindE (ilock dp s) (\<lambda>s.
            if namecmp name dot = 0 \<or> namecmp name dotdot = 0 then unlink_bad dp s
            else
              bindE (dirlookup dp name s) (\<lambda>(r, s).
              (case r of
                 None \<Rightarrow> unlink_bad dp s
               | Some (ip, off) \<Rightarrow>
                  bindE (ilock ip s) (\<lambda>s.
                  guardE (\<not> i_nlink (it_inode s ip) < 1) (Panic ''unlink: nlink < 1'')
                  (bindE (if i_type (it_inode s ip) = T_DIR then isdirempty ip s else Inr (True, s)) (\<lambda>(ok, s).
                   if \<not> ok then bindE (iunlockput ip s) (unlink_bad dp)
                   else
                     bindE (writei dp (FromKernel (replicate sizeof_dirent 0)) (of_nat off) (of_nat sizeof_dirent) s) (\<lambda>(r, s).
                     guardE (r = int sizeof_dirent) (Panic ''unlink: writei'')
                     (bindE (if i_type (it_inode s ip) = T_DIR then add_nlink dp (-1) s else Inr s) (\<lambda>s.
                      bindE (iunlockput dp s) (\<lambda>s.
                      bindE (add_nlink ip (-1) s) (\<lambda>s.
                      bindE (iunlockput ip s) (finish 0)))))))))))))))))"

section \<open>Creating and opening\<close>

definition create_fail :: "nat \<Rightarrow> nat \<Rightarrow> 'a fsst_scheme \<Rightarrow> (nat option \<times> 'a fsst_scheme) res" where
  "create_fail ip dp s =
    bindE (iupdate ip (upd_ino ip (\<lambda>x. x \<lparr> i_nlink := 0 \<rparr>) s)) (\<lambda>s.
    bindE (iunlockput ip s) (\<lambda>s.
    bindE (iunlockput dp s) (\<lambda>s. Inr (None, s))))"

text \<open>The entries \<open>.\<close> and \<open>..\<close> of a new directory.\<close>

definition create_dots :: "nat \<Rightarrow> nat \<Rightarrow> 'a fsst_scheme \<Rightarrow> (int \<times> 'a fsst_scheme) res" where
  "create_dots ip dp s =
    bindE (dirlink ip dot (i_inum (it_inode s ip)) s) (\<lambda>(r, s).
    if r < 0 then Inr (r, s) else dirlink ip dotdot (i_inum (it_inode s dp)) s)"

definition create :: "u8 list \<Rightarrow> int \<Rightarrow> int \<Rightarrow> int \<Rightarrow> 'a fsst_scheme \<Rightarrow> (nat option \<times> 'a fsst_scheme) res" where
  "create path type major minor s =
    bindE (nameiparent path s) (\<lambda>(r, name, s).
    (case r of
       None \<Rightarrow> Inr (None, s)
     | Some dp \<Rightarrow>
        bindE (ilock dp s) (\<lambda>s.
        bindE (dirlookup dp name s) (\<lambda>(r, s).
        (case r of
           Some (ip, _) \<Rightarrow>
            bindE (iunlockput dp s) (\<lambda>s.
            bindE (ilock ip s) (\<lambda>s.
            if type = T_FILE \<and> (i_type (it_inode s ip) = T_FILE \<or> i_type (it_inode s ip) = T_DEVICE) then Inr (Some ip, s)
            else bindE (iunlockput ip s) (\<lambda>s. Inr (None, s))))
         | None \<Rightarrow>
            bindE (ialloc (i_dev (it_inode s dp)) type s) (\<lambda>(r, s).
            (case r of
               None \<Rightarrow> bindE (iunlockput dp s) (\<lambda>s. Inr (None, s))
             | Some ip \<Rightarrow>
                bindE (ilock ip s) (\<lambda>s.
                bindE (iupdate ip (upd_ino ip (\<lambda>x. x \<lparr> i_major := major, i_minor := minor, i_nlink := 1 \<rparr>) s)) (\<lambda>s.
                bindE (if type = T_DIR then create_dots ip dp s else Inr (0, s)) (\<lambda>(r, s).
                if r < 0 then create_fail ip dp s
                else
                  bindE (dirlink dp name (i_inum (it_inode s ip)) s) (\<lambda>(r, s).
                  if r < 0 then create_fail ip dp s
                  else
                    bindE (if type = T_DIR then add_nlink dp 1 s else Inr s) (\<lambda>s.
                    bindE (iunlockput dp s) (\<lambda>s. Inr (Some ip, s))))))))))))))"

text \<open>The inode \<open>sys_open\<close> opens, locked; the transaction is open.\<close>

definition open_inode :: "u8 list \<Rightarrow> int \<Rightarrow> 'a fsst_scheme \<Rightarrow> (nat option \<times> 'a fsst_scheme) res" where
  "open_inode path omode s =
    (if omode AND O_CREATE \<noteq> 0 then create path T_FILE 0 0 s
     else
       bindE (namei path s) (\<lambda>(r, s).
       (case r of
          None \<Rightarrow> Inr (None, s)
        | Some ip \<Rightarrow>
           bindE (ilock ip s) (\<lambda>s.
           if i_type (it_inode s ip) = T_DIR \<and> omode \<noteq> O_RDONLY
           then bindE (iunlockput ip s) (\<lambda>s. Inr (None, s))
           else Inr (Some ip, s)))))"

definition open_fields :: "nat \<Rightarrow> inode \<Rightarrow> int \<Rightarrow> filerec \<Rightarrow> filerec" where
  "open_fields ip x omode f =
    (if i_type x = T_DEVICE then f \<lparr> f_type := FD_DEVICE, f_major := i_major x \<rparr> else f \<lparr> f_type := FD_INODE, f_off := 0 \<rparr>)
      \<lparr> f_ip := Some ip, f_readable := (omode AND O_WRONLY = 0), f_writable := (omode AND O_WRONLY \<noteq> 0 \<or> omode AND O_RDWR \<noteq> 0) \<rparr>"

definition sys_open :: "'a filest_scheme \<Rightarrow> (int \<times> 'a filest_scheme) res" where
  "sys_open s =
    bindE (argint 1 s) (\<lambda>(omode, s).
    bindE (argstr 0 MAXPATH s) (\<lambda>(path, s).
    (case path of
       None \<Rightarrow> Inr (-1, s)
     | Some path \<Rightarrow>
        bindE (begin_op s) (\<lambda>s.
        bindE (open_inode path omode s) (\<lambda>(r, s).
        (case r of
           None \<Rightarrow> finish (-1) s
         | Some ip \<Rightarrow>
            if i_type (it_inode s ip) = T_DEVICE \<and> (i_major (it_inode s ip) < 0 \<or> i_major (it_inode s ip) \<ge> NDEV)
            then bindE (iunlockput ip s) (finish (-1))
            else
              bindE (filealloc s) (\<lambda>(f, s).
              bindE (case f of None \<Rightarrow> Inr (None, s) | Some f \<Rightarrow> fdalloc f s) (\<lambda>(fd, s).
              (case (f, fd) of
                 (Some f, Some fd) \<Rightarrow>
                  (let s = upd_file f (open_fields ip (it_inode s ip) omode) s in
                   bindE (if omode AND O_TRUNC \<noteq> 0 \<and> i_type (it_inode s ip) = T_FILE then itrunc ip s else Inr s) (\<lambda>s.
                   bindE (iunlock ip s) (finish (int fd))))
               | _ \<Rightarrow> bindE (close_if f s) (\<lambda>s. bindE (iunlockput ip s) (finish (-1))))))))))))"

definition sys_mkdir :: "'a filest_scheme \<Rightarrow> (int \<times> 'a filest_scheme) res" where
  "sys_mkdir s =
    bindE (begin_op s) (\<lambda>s.
    bindE (argstr 0 MAXPATH s) (\<lambda>(path, s).
    bindE (case path of None \<Rightarrow> Inr (None, s) | Some path \<Rightarrow> create path T_DIR 0 0 s) (\<lambda>(r, s).
    (case r of None \<Rightarrow> finish (-1) s | Some ip \<Rightarrow> bindE (iunlockput ip s) (finish 0)))))"

text \<open>The device numbers are converted to \<open>short\<close> in the call.\<close>

definition sys_mknod :: "'a filest_scheme \<Rightarrow> (int \<times> 'a filest_scheme) res" where
  "sys_mknod s =
    bindE (begin_op s) (\<lambda>s.
    bindE (argint 1 s) (\<lambda>(major, s).
    bindE (argint 2 s) (\<lambda>(minor, s).
    bindE (argstr 0 MAXPATH s) (\<lambda>(path, s).
    bindE (case path of None \<Rightarrow> Inr (None, s)
           | Some path \<Rightarrow> create path T_DEVICE (signed_take_bit 15 major) (signed_take_bit 15 minor) s) (\<lambda>(r, s).
    (case r of None \<Rightarrow> finish (-1) s | Some ip \<Rightarrow> bindE (iunlockput ip s) (finish 0)))))))"

definition sys_chdir :: "'a filest_scheme \<Rightarrow> (int \<times> 'a filest_scheme) res" where
  "sys_chdir s =
    bindE (self s) (\<lambda>(p, s).
    bindE (begin_op s) (\<lambda>s.
    bindE (argstr 0 MAXPATH s) (\<lambda>(path, s).
    bindE (case path of None \<Rightarrow> Inr (None, s) | Some path \<Rightarrow> namei path s) (\<lambda>(r, s).
    (case r of
       None \<Rightarrow> finish (-1) s
     | Some ip \<Rightarrow>
        bindE (ilock ip s) (\<lambda>s.
        if i_type (it_inode s ip) \<noteq> T_DIR then bindE (iunlockput ip s) (finish (-1))
        else
          bindE (iunlock ip s) (\<lambda>s.
          bindE (deref (p_cwd (proc_at p s))) (\<lambda>cwd.
          bindE (iput cwd s) (\<lambda>s.
          bindE (end_op s) (\<lambda>s.
          Inr (0, set_proc p (\<lambda>x. x \<lparr> p_cwd := Some ip \<rparr>) s)))))))))))"

section \<open>exec and pipe\<close>

text \<open>
  The loop of \<open>sys_exec\<close>: the pages it has allocated and the strings in them, and whether it reached
  the null pointer.  \<open>n\<close> counts the entries of \<open>argv\<close> that are left.
\<close>

fun fetch_args :: "nat \<Rightarrow> u64 \<Rightarrow> (addr \<times> u8 list) list \<Rightarrow> 'a fsst_scheme \<Rightarrow> (bool \<times> (addr \<times> u8 list) list \<times> 'a fsst_scheme) res" where
  "fetch_args 0 uargv got s = Inr (False, got, s)"
| "fetch_args (Suc n) uargv got s =
    bindE (fetchaddr uargv s) (\<lambda>(uarg, s).
    (case uarg of
       None \<Rightarrow> Inr (False, got, s)
     | Some uarg \<Rightarrow>
        if uarg = 0 then Inr (True, got, s)
        else
          bindE (k_alloc s) (\<lambda>(page, s).
          if page = 0 then Inr (False, got, s)
          else
            bindE (fetchstr uarg 4096 s) (\<lambda>(str, s).
            (case str of
               None \<Rightarrow> Inr (False, got @ [(page, [])], s)
             | Some bs \<Rightarrow> fetch_args n (uargv + 8) (got @ [(page, bs)]) (on_mem (store_bytes page (bs @ [0])) s))))))"

definition sys_exec :: "addr \<Rightarrow> 'a filest_scheme \<Rightarrow> (int \<times> 'a filest_scheme) res" where
  "sys_exec trampoline s =
    bindE (argaddr 1 s) (\<lambda>(uargv, s).
    bindE (argstr 0 MAXPATH s) (\<lambda>(path, s).
    (case path of
       None \<Rightarrow> Inr (-1, s)
     | Some path \<Rightarrow>
        bindE (fetch_args MAXARG uargv [] s) (\<lambda>(ok, got, s).
        bindE (if ok then exec trampoline path (map snd got) s else Inr (-1, s)) (\<lambda>(ret, s).
        bindE (foldE (\<lambda>(page, _). k_free page) got s) (\<lambda>s. Inr (ret, s)))))))"

definition sys_pipe :: "'a filest_scheme \<Rightarrow> (int \<times> 'a filest_scheme) res" where
  "sys_pipe s =
    bindE (self s) (\<lambda>(p, s).
    bindE (argaddr 0 s) (\<lambda>(fdarray, s).
    bindE (pipealloc s) (\<lambda>(r, s).
    (case r of
       None \<Rightarrow> Inr (-1, s)
     | Some (rf, wfile) \<Rightarrow>
        (let fail = (\<lambda>s. bindE (fileclose rf s) (\<lambda>s. bindE (fileclose wfile s) (\<lambda>s. Inr (-1, s)))) in
         bindE (fdalloc rf s) (\<lambda>(fd0, s).
         (case fd0 of
            None \<Rightarrow> fail s
          | Some fd0 \<Rightarrow>
             bindE (fdalloc wfile s) (\<lambda>(fd1, s).
             (case fd1 of
                None \<Rightarrow> fail (set_ofile p fd0 None s)
              | Some fd1 \<Rightarrow>
                 (let pt = p_pagetable (proc_at p s) in
                  bindE (copyout_bytes pt fdarray (put32 0 (of_nat fd0) (replicate 4 0)) (fs_vm s)) (\<lambda>(r, v).
                  bindE (if r < 0 then Inr (r, v) else copyout_bytes pt (fdarray + 4) (put32 0 (of_nat fd1) (replicate 4 0)) v) (\<lambda>(r, v).
                  (let s = s \<lparr> fs_vm := v \<rparr> in
                   if r < 0 then fail (set_ofile p fd1 None (set_ofile p fd0 None s)) else Inr (0, s))))))))))))))"

end
