(* ===== verification/Shell_Props.thy ===== *)
theory Shell_Props
  imports Shell
begin

text \<open>
  The parser of the shell: it returns for every line, what it returns is well formed, and the
  in-place termination of the strings gives every argument its own text.
\<close>

section \<open>Well-formed commands\<close>

text \<open>
  A word of the line: a nonempty range of characters that are neither blanks nor symbols and that
  ends at such a character or at the end of the line.
\<close>

definition word_at :: "u8 list \<Rightarrow> nat \<Rightarrow> nat \<Rightarrow> bool" where
  "word_at t q eq = (q < eq \<and> eq \<le> length t \<and> list_all is_word (take (eq - q) (drop q t)) \<and>
     (eq < length t \<longrightarrow> \<not> is_word (t ! eq)))"

fun redir_ok :: "u8 list \<Rightarrow> redir \<Rightarrow> bool" where
  "redir_ok t (Redirection q eq mode fd) =
    (word_at t q eq \<and>
     (fd = 0 \<and> mode = O_RDONLY \<or>
      fd = 1 \<and> (mode = (O_WRONLY OR O_CREATE) \<or> mode = (O_WRONLY OR O_CREATE OR O_TRUNC))))"

fun cmd_ok :: "u8 list \<Rightarrow> cmd \<Rightarrow> bool" where
  "cmd_ok t (EXEC argv) = (length argv < MAXARGS \<and> (\<forall>(q, eq) \<in> set argv. word_at t q eq))"
| "cmd_ok t (REDIR c r) = (cmd_ok t c \<and> redir_ok t r)"
| "cmd_ok t (PIPE l r) = (cmd_ok t l \<and> cmd_ok t r)"
| "cmd_ok t (LIST l r) = (cmd_ok t l \<and> cmd_ok t r)"
| "cmd_ok t (BACK c) = cmd_ok t c"

lemma adv_bound: "s \<le> length t \<Longrightarrow> adv P t s \<le> length t"
  by (induction P t s rule: adv.induct) (subst adv.simps, auto)

lemma adv_run: "i < adv P t s - s \<Longrightarrow> P (t ! (s + i))"
proof (induction P t s arbitrary: i rule: adv.induct)
  case (1 P t s)
  then show ?case
    using "1.IH" [of "i - 1"] by (cases "s < length t \<and> P (t ! s)"; cases i) (auto simp: adv.simps [of P t s])
qed

lemma adv_word:
  assumes "s < length t" "is_word (t ! s)"
  shows "word_at t s (adv is_word t s)"
proof -
  have "adv is_word t s \<le> length t"
    using assms(1) by (intro adv_bound) simp
  then show ?thesis
    using adv_step [of s t is_word] assms adv_stop [of is_word t s] adv_run [of _ is_word t s]
    by (auto simp: word_at_def list_all_length)
qed

lemma gettoken_word:
  assumes "gettoken t ps = (tok CHR ''a'', q, eq, s)"
  shows "word_at t q eq"
proof -
  define p where "p = adv is_space t ps"
  have nt: "tok CHR ''a'' \<notin> set (bytes ''|();&<'')" "tok CHR ''a'' \<noteq> 0" "tok CHR ''a'' \<noteq> tok CHR ''>''"
      "tok CHR ''a'' \<noteq> tok CHR ''+''"
    by (simp_all add: bytes_def tok_def)
  have c: "at t p \<noteq> 0" "at t p \<notin> set (bytes ''|();&<'')" "at t p \<noteq> tok CHR ''>''"
    and r: "q = p" "eq = adv is_word t p"
    using assms nt unfolding gettoken_def p_def [symmetric] Let_def by (auto split: if_splits)
  have "p < length t"
    by (rule at_nonzero [OF c(1)])
  moreover from this have "\<not> is_space (t ! p)"
    unfolding p_def by (rule adv_stop)
  ultimately show ?thesis
    using special_chars [OF c] by (auto simp: r at_def is_space_def is_word_def intro!: adv_word)
qed

lemma redir_of_ok: "word_at t q eq \<Longrightarrow> redir_ok t (redir_of k q eq)"
  by (simp add: redir_of_def)

lemma redircmds_ok: "cmd_ok t (redircmds c rs) \<longleftrightarrow> cmd_ok t c \<and> list_all (redir_ok t) rs"
  by (induction rs arbitrary: c) (auto simp: redircmds_def redircmd_def)

text \<open>Where a parsing function may leave the line, and with what.\<close>

definition yields :: "('a \<Rightarrow> bool) \<Rightarrow> nat \<Rightarrow> sherr + 'a \<times> nat \<Rightarrow> bool" where
  "yields P ps r = (case r of Inl e \<Rightarrow> True | Inr (x, s) \<Rightarrow> ps \<le> s \<and> P x)"

lemma yields_simps [simp]: "yields P ps (Inl e)" "yields P ps (Inr (x, s)) \<longleftrightarrow> ps \<le> s \<and> P x"
  by (simp_all add: yields_def)

lemma yields_bind:
  assumes "yields P ps r" "\<And>x s. P x \<Longrightarrow> ps \<le> s \<Longrightarrow> r = Inr (x, s) \<Longrightarrow> yields Q ps (f (x, s))"
  shows "yields Q ps (bindE r f)"
  using assms by (cases r) auto

lemma yields_later: "yields P s r \<Longrightarrow> ps \<le> s \<Longrightarrow> yields P ps r"
  by (cases r) auto

lemma parseredirs_yields: "list_all (redir_ok t) rs \<Longrightarrow> yields (list_all (redir_ok t)) ps (parseredirs t rs ps)"
proof (induction t rs ps rule: parseredirs.induct)
  case (1 t rs ps)
  obtain b s0 where p: "peek t ''<>'' ps = (b, s0)"
    by fastforce
  obtain k q0 eq0 s1 where g: "gettoken t s0 = (k, q0, eq0, s1)"
    by (rule prod_cases4)
  obtain a q eq s2 where h: "gettoken t s1 = (a, q, eq, s2)"
    by (rule prod_cases4)
  have le: "ps \<le> s0" "ps \<le> s2"
    using peek_advances [OF p] gettoken_advances(1) [OF g] gettoken_advances(1) [OF h] by simp_all
  have "yields (list_all (redir_ok t)) ps (parseredirs t (rs @ [redir_of k q eq]) s2)" if b "a = tok CHR ''a''"
    using 1(1) [OF p [symmetric] that(1) g [symmetric] refl refl h [symmetric] refl refl] that 1(2) le(2)
      gettoken_word [of t s1 q eq s2] h redir_of_ok
    by (auto intro: yields_later)
  then show ?case
    using 1(2) p g h le(1) by (simp add: parseredirs.simps [of t rs ps])
qed

lemma parseargs_yields:
  assumes "length argv < MAXARGS" "\<forall>(q, eq) \<in> set argv. word_at t q eq" "list_all (redir_ok t) rs"
  shows "yields (\<lambda>(argv, rs). cmd_ok t (redircmds (execcmd argv) rs)) ps (parseargs t argv rs ps)"
  using assms
proof (induction t argv rs ps rule: parseargs.induct)
  case (1 t argv rs ps)
  let ?Q = "\<lambda>(argv, rs). cmd_ok t (redircmds (execcmd argv) rs)"
  obtain b s where p: "peek t ''|)&;'' ps = (b, s)"
    by fastforce
  obtain k q eq s1 where g: "gettoken t s = (k, q, eq, s1)"
    by (rule prod_cases4)
  have le: "ps \<le> s" "ps \<le> s1"
    using peek_advances [OF p] gettoken_advances(1) [OF g] by simp_all
  have ok: "?Q (argv, rs)"
    using 1(2-4) by (simp add: redircmds_ok execcmd_def)
  have "yields ?Q ps (parseargs t (argv @ [(q, eq)]) rs' s2)"
    if "\<not> b" "k \<noteq> 0" "k = tok CHR ''a''" "\<not> length argv + 1 \<ge> MAXARGS" "parseredirs t rs s1 = Inr (rs', s2)" for rs' s2
  proof -
    have r: "list_all (redir_ok t) rs'" "ps \<le> s2"
      using parseredirs_yields [OF 1(4), of s1] that(5) le(2) by simp_all
    show ?thesis
      using 1(1) [OF p [symmetric] that(1) g [symmetric] refl refl that(2) _ that(4,5) refl] that(3,4) 1(3) r
        gettoken_word [of t s q eq s1] g
      by (auto intro: yields_later)
  qed
  then show ?case
    using p g le ok by (auto simp: parseargs.simps [of t argv rs ps] split: sum.split)
qed

lemma back_loop_ok: "back_loop t c ps = (c', s) \<Longrightarrow> ps \<le> s \<and> (cmd_ok t c \<longrightarrow> cmd_ok t c')"
proof (induction t c ps rule: back_loop.induct)
  case (1 t c ps)
  obtain b s0 where p: "peek t ''&'' ps = (b, s0)"
    by fastforce
  show ?case
  proof (cases b)
    case True
    then have "ps < skiptoken t s0"
      using p skiptoken_after_peek by simp
    moreover have "skiptoken t s0 \<le> s \<and> (cmd_ok t (backcmd c) \<longrightarrow> cmd_ok t c')"
      using 1(1) [OF p [symmetric] True] 1(2) True p by (simp add: back_loop.simps [of t c ps])
    ultimately show ?thesis
      by (simp add: backcmd_def)
  next
    case False
    then show ?thesis
      using 1(2) p peek_advances [OF p] by (simp add: back_loop.simps [of t c ps])
  qed
qed

lemma skiptoken_le: "ps \<le> skiptoken t ps"
  by (cases "gettoken t ps") (auto simp: skiptoken_def dest: gettoken_advances(1))

text \<open>The functions of the descent go forward and return well-formed commands.\<close>

lemma parse_yields:
  "yields (cmd_ok t) ps (parseline n t ps)" (is ?line)
  "yields (cmd_ok t) ps (parsepipe n t ps)" (is ?pipe)
  "yields (cmd_ok t) ps (parseblock n t ps)" (is ?block)
  "yields (cmd_ok t) ps (parseexec n t ps)" (is ?exec)
proof (induction n arbitrary: ps)
  case (Suc n)
  {
    case 1
    show ?case
      unfolding parseline.simps
      by (rule yields_bind [OF Suc.IH(2)])
        (auto dest!: back_loop_ok peek_advances simp: listcmd_def split: prod.split
          intro!: yields_bind [OF yields_later [OF Suc.IH(1)]] order_trans [OF _ skiptoken_le])
  next
    case 2
    show ?case
      unfolding parsepipe.simps
      by (rule yields_bind [OF Suc.IH(4)])
        (auto dest!: peek_advances simp: pipecmd_def split: prod.split
          intro!: yields_bind [OF yields_later [OF Suc.IH(2)]] order_trans [OF _ skiptoken_le])
  next
    case 3
    show ?case
      unfolding parseblock.simps
      by (auto dest!: peek_advances simp: redircmds_ok split: prod.split
          intro!: yields_bind [OF yields_later [OF Suc.IH(1)]] order_trans [OF _ skiptoken_le]
            yields_bind [OF yields_later [OF parseredirs_yields]])
  next
    case 4
    have a: "yields (\<lambda>(argv, rs). cmd_ok t (redircmds (execcmd argv) rs)) s (parseargs t [] rs s)"
      if "list_all (redir_ok t) rs" for rs s
      by (rule parseargs_yields) (simp_all add: MAXARGS_def that)
    show ?case
      unfolding parseexec.simps
      by (auto dest!: peek_advances split: prod.split
          intro!: yields_later [OF Suc.IH(3)] yields_bind [OF yields_later [OF parseredirs_yields]]
            yields_bind [OF yields_later [OF a]])
  }
qed simp_all

section \<open>Enough fuel\<close>

lemma parseredirs_fuel: "parseredirs t rs ps \<noteq> Inl ShFuel"
proof (induction t rs ps rule: parseredirs.induct)
  case (1 t rs ps)
  then show ?case
    by (subst parseredirs.simps) (auto split: prod.split)
qed

lemma parseargs_fuel: "parseargs t argv rs ps \<noteq> Inl ShFuel"
proof (induction t argv rs ps rule: parseargs.induct)
  case (1 t argv rs ps)
  then show ?case
    using parseredirs_fuel [of t rs] by (subst parseargs.simps) (auto split: prod.split sum.split)
qed

lemma bind_fuel:
  assumes "r \<noteq> Inl ShFuel" "\<And>x s. r = Inr (x, s) \<Longrightarrow> f (x, s) \<noteq> Inl ShFuel"
  shows "bindE r f \<noteq> Inl ShFuel"
  using assms by (cases r) auto

lemma bind_fuelE:
  assumes "bindE r f = Inl ShFuel"
  obtains "r = Inl ShFuel" | x s where "r = Inr (x, s)" "f (x, s) = Inl ShFuel"
  using assms by (cases r) auto

lemma bind_ret_fuel: "bindE r (\<lambda>(x, s). Inr (g x, s)) = Inl ShFuel \<longleftrightarrow> r = Inl ShFuel"
  by (cases r) auto

lemma after_symbol:
  assumes "peek t toks ps' = (True, s)" "ps \<le> ps'"
  shows "4 * (length t - skiptoken t s) + 4 \<le> 4 * (length t - ps)"
proof -
  have "ps < length t"
    using peek_in_line [OF assms(1)] assms(2) by simp
  then show ?thesis
    using skiptoken_after_peek [OF assms(1)] assms(2) by simp
qed

lemma parse_enough:
  "4 * (length t - ps) + 4 \<le> n \<Longrightarrow> parseline n t ps \<noteq> Inl ShFuel"
  "4 * (length t - ps) + 3 \<le> n \<Longrightarrow> parsepipe n t ps \<noteq> Inl ShFuel"
  "4 * (length t - ps) + 1 \<le> n \<Longrightarrow> parseblock n t ps \<noteq> Inl ShFuel"
  "4 * (length t - ps) + 2 \<le> n \<Longrightarrow> parseexec n t ps \<noteq> Inl ShFuel"
proof (induction n arbitrary: ps)
  case (Suc n)
  {
    case 1
    have more: "parseline n t (skiptoken t s) \<noteq> Inl ShFuel"
      if "back_loop t c s1 = (c', s2)" "peek t toks s2 = (True, s)" "ps \<le> s1" for c s1 c' s2 toks s
      using after_symbol [OF that(2), of ps] back_loop_ok [OF that(1)] that(3) 1 by (intro Suc.IH(1)) simp
    have "parsepipe n t ps \<noteq> Inl ShFuel"
      using 1 by (intro Suc.IH(2)) simp
    then show ?case
      unfolding parseline.simps using parse_yields(2) [of t ps n]
      by (intro bind_fuel) (auto split: prod.split simp: bind_ret_fuel more)
  next
    case 2
    have more: "parsepipe n t (skiptoken t s) \<noteq> Inl ShFuel" if "peek t toks s1 = (True, s)" "ps \<le> s1" for s1 toks s
      using after_symbol [OF that] 2 by (intro Suc.IH(2)) simp
    have "parseexec n t ps \<noteq> Inl ShFuel"
      using 2 by (intro Suc.IH(4)) simp
    then show ?case
      unfolding parsepipe.simps using parse_yields(4) [of t ps n]
      by (intro bind_fuel) (auto split: prod.split simp: bind_ret_fuel more)
  next
    case 3
    have more: "parseline n t (skiptoken t s) \<noteq> Inl ShFuel" if "peek t toks ps = (True, s)" for toks s
      using after_symbol [OF that order_refl] 3 by (intro Suc.IH(1)) simp
    show ?case
      unfolding parseblock.simps
      by (auto simp: more parseredirs_fuel split: prod.splits if_splits elim!: bind_fuelE)
  next
    case 4
    have block: "parseblock n t s \<noteq> Inl ShFuel" if "peek t toks ps = (True, s)" for toks s
      using peek_advances [OF that] 4 by (intro Suc.IH(3)) simp
    show ?case
      unfolding parseexec.simps
      by (auto simp: block parseredirs_fuel parseargs_fuel split: prod.splits if_splits elim!: bind_fuelE)
  }
qed simp_all

section \<open>The strings\<close>

fun tokens :: "cmd \<Rightarrow> (nat \<times> nat) list" where
  "tokens (EXEC argv) = argv"
| "tokens (REDIR c r) = tokens c @ [(r_file r, r_efile r)]"
| "tokens (PIPE l r) = tokens l @ tokens r"
| "tokens (LIST l r) = tokens l @ tokens r"
| "tokens (BACK c) = tokens c"

lemma nulterminate_fold: "nulterminate c b = fold (\<lambda>(q, eq) b. b[eq := 0]) (tokens c) b"
  by (induction c arbitrary: b) (auto simp: split_def)

lemma fold_zero:
  "length (fold (\<lambda>(q, eq) b. b[eq := 0]) ts b) = length b"
  "i < length b \<Longrightarrow> fold (\<lambda>(q, eq) b. b[eq := 0]) ts b ! i = (if i \<in> snd ` set ts then 0 else b ! i :: u8)"
proof (induction ts arbitrary: b)
  case (Cons x ts)
  {
    case 1
    show ?case
      using Cons.IH(1) [of "b[snd x := 0]"] by (simp add: split_def)
  next
    case 2
    then show ?case
      using Cons.IH(2) [of "b[snd x := 0]"] by (auto simp: split_def nth_list_update)
  }
qed simp_all

lemma tokens_ok: "cmd_ok t c \<Longrightarrow> (q, eq) \<in> set (tokens c) \<Longrightarrow> word_at t q eq"
proof (induction c)
  case (REDIR c r)
  then show ?case
    by (cases r) auto
qed auto

lemma is_word_nz: "word_at t q eq \<Longrightarrow> q \<le> i \<Longrightarrow> i < eq \<Longrightarrow> is_word (t ! i)"
  by (auto simp: word_at_def list_all_length dest: spec [of _ "i - q"])

text \<open>The zeros are written at the ends of words, and no end of a word is inside another.\<close>

lemma nulterminate_str:
  assumes ok: "cmd_ok t c" and m: "(q, eq) \<in> set (tokens c)" and nz: "0 \<notin> set t"
  shows "str_at (nulterminate c (t @ [0])) q = take (eq - q) (drop q t)"
proof -
  let ?b = "nulterminate c (t @ [0])"
  have w: "word_at t q eq"
    by (rule tokens_ok [OF ok m])
  then have b: "q < eq" "eq \<le> length t"
    by (simp_all add: word_at_def)
  have l: "length ?b = length t + 1"
    by (simp add: nulterminate_fold fold_zero)
  have inside: "?b ! i = t ! i" if "q \<le> i" "i < eq" for i
  proof -
    have "i \<notin> snd ` set (tokens c)"
    proof
      assume "i \<in> snd ` set (tokens c)"
      then obtain q' where "word_at t q' i"
        using tokens_ok [OF ok] by force
      then show False
        using is_word_nz [OF w that] that b by (auto simp: word_at_def)
    qed
    then show ?thesis
      using that b by (simp add: nulterminate_fold fold_zero nth_append)
  qed
  have e: "?b ! eq = 0"
    using m b by (force simp: nulterminate_fold fold_zero nth_append)
  have "take (eq - q) (drop q ?b) = take (eq - q) (drop q t)"
    using b l inside by (intro nth_equalityI) auto
  moreover have "drop eq ?b = 0 # drop (Suc eq) ?b"
    using b l e Cons_nth_drop_Suc [of eq ?b] by simp
  ultimately have d: "drop q ?b = take (eq - q) (drop q t) @ 0 # drop (Suc eq) ?b"
    using append_take_drop_id [of "eq - q" "drop q ?b"] b by simp
  have "\<forall>x \<in> set (take (eq - q) (drop q t)). x \<noteq> 0"
    using nz by (auto dest!: in_set_takeD in_set_dropD)
  then show ?thesis
    unfolding str_at_def d by (simp add: takeWhile_append2)
qed

lemma parsecmd_result:
  assumes "parsecmd t = Inr (c, b)"
  shows "cmd_ok t c" "b = nulterminate c (t @ [0])"
proof -
  obtain c' s where p: "parseline (parse_fuel t) t 0 = Inr (c', s)"
    using assms by (cases "parseline (parse_fuel t) t 0") (auto simp: parsecmd_def)
  obtain k s' where q: "peek t [] s = (k, s')"
    by fastforce
  have "c' = c" "b = nulterminate c' (t @ [0])"
    using assms p q by (auto simp: parsecmd_def split: if_splits)
  then show "cmd_ok t c" "b = nulterminate c (t @ [0])"
    using parse_yields(1) [of t 0 "parse_fuel t"] p by simp_all
qed

section \<open>Properties\<close>

text \<open>C32: the parser returns for every line, with a command or with an error the code reports itself;
  the recursive descent is never deeper than four calls for each character.
\<close>

theorem parsecmd_returns: "parsecmd t \<noteq> Inl ShFuel"
  unfolding parsecmd_def
  by (intro bind_fuel parse_enough(1)) (auto simp: parse_fuel_def split: prod.split)

text \<open>C33: a command that \<open>parsecmd\<close> returns is well formed: every argument and every file name is a
  word of the line, no command has more arguments than its array holds, and every redirection opens
  its file with one of the three modes for the descriptor it replaces.
\<close>

theorem parsecmd_well_formed: "parsecmd t = Inr (c, b) \<Longrightarrow> cmd_ok t c \<and> length b = length t + 1"
  using parsecmd_result [of t c b] by (simp add: nulterminate_fold fold_zero)

definition ex_line :: "u8 list" where
  "ex_line = bytes ''(ls -l<a|wc)>>b;echo hi&''"

definition ex_cmd :: cmd where
  "ex_cmd = LIST (REDIR (PIPE (REDIR (EXEC [(1, 3), (4, 6)]) (Redirection 7 8 0 0)) (EXEC [(9, 11)]))
     (Redirection 14 15 513 1)) (BACK (EXEC [(16, 20), (21, 23)]))"

lemma ex_parse: "parsecmd ex_line = Inr (ex_cmd, nulterminate ex_cmd (ex_line @ [0]))"
  by code_simp

theorem parsecmd_well_formed_witness: "cmd_ok ex_line ex_cmd"
  using parsecmd_well_formed [OF ex_parse] by simp

text \<open>C34: after \<open>parsecmd\<close> every argument and every file name, read as a zero-terminated string in the
  buffer, is the text of its word in the line: no terminating zero is written into another word.
\<close>

theorem parsecmd_strings:
  assumes "parsecmd t = Inr (c, b)" "0 \<notin> set t" "(q, eq) \<in> set (tokens c)"
  shows "str_at b q = take (eq - q) (drop q t)"
  using nulterminate_str [OF parsecmd_result(1) [OF assms(1)] assms(3,2)] parsecmd_result(2) [OF assms(1)]
  by simp

theorem parsecmd_strings_witness:
  "str_at (nulterminate ex_cmd (ex_line @ [0])) 4 = bytes ''-l''"
proof -
  have "0 \<notin> set ex_line" "(4, 6) \<in> set (tokens ex_cmd)" "take (6 - 4) (drop 4 ex_line) = bytes ''-l''"
    by code_simp+
  then show ?thesis
    using parsecmd_strings [OF ex_parse, of 4 6] by simp
qed

end
