(* ===== verification/Spec2Isabelle.thy ===== *)
theory Spec2Isabelle
  imports Buddy_Props Memory_Props Text_Props Proc_Props Vm_Props Log_Props Sysfile Shell_Props
begin

text \<open>
  A model of xv6 for RISC-V with the buddy and slab allocators that this repository adds to it, and the
  theorems that make the model's components correct.

  \<^bold>\<open>The program and its parts.\<close>  The two allocator libraries (lib/buddy_alloc, lib/slab_alloc) are plain C that
  is compiled into the kernel and into host tests.  The kernel puts them behind spin locks
  (kernel/buddy_alloc.c, kernel/slab_alloc.c, kernel/kalloc.c) and takes from them all its pages (page
  tables, user memory, kernel stacks) and its small objects (open files, pipes).  Processes run on several
  harts under a scheduler; they reach the kernel through system calls on files, pipes, memory and processes;
  files live in a file system over a write-ahead log over a buffer cache over the disk.  User programs (the
  shell, cat, grep and others) see only the system calls.

  \<^bold>\<open>Conventions.\<close>  A C function is an HOL function with the same name that takes the state it reads and returns
  the state it leaves.  Outcomes other than returning are values of type \<open>cerr\<close> (theory Prelude): a failed
  assertion or \<open>panic\<close>, a null or out-of-bounds access, a division by zero, and \<open>Diverges\<close> for a call that
  never returns when the caller runs alone; \<open>bindE\<close> sequences calls and \<open>guardE\<close> is a check.  A pointer into an array of
  the kernel is the index of the element; other addresses, \<open>uint64\<close> and \<open>uint\<close> are words that wrap around;
  \<open>int\<close> is an HOL integer, reduced to 32 bits where the code can leave its range.  Each struct is a record.  The
  globals of the kernel above the page tables are one record that grows along the layers: \<open>io\<close> (Bio),
  \<open>logst\<close> (Log), \<open>fsst\<close> (Fs), \<open>filest\<close> (File), and every function works on all extensions of the record
  of its own layer.  What the hardware does is an argument, and so are the linker symbols.

  \<^bold>\<open>Theories.\<close>
  \<^item> Prelude: types, outcomes, shared lemmas.  Node\_List: the intrusive lists of both allocator libraries, with
    the locale that states their operations once and the lemmas both libraries use.
  \<^item> Buddy models lib/buddy_alloc/buddy_alloc.c, function by function.  Buddy\_Blocks is the geometry of blocks,
    Buddy\_Layout the address arithmetic, Buddy\_Inv the representation invariant and that every primitive keeps
    it, Buddy\_Alloc, Buddy\_Free, Buddy\_Init and Buddy\_Stat the operations against their abstract
    specifications, Buddy\_Safety the allocator with its callers as a transition system, Buddy\_Bugs the places
    where the code does not do what its comments say, Buddy\_Props the properties.
  \<^item> Slab models lib/slab_alloc/slab_alloc.c over a page allocator it reaches through function pointers.
    Slab\_Inv, Slab\_Ops, Slab\_Alloc, Slab\_Safety, Slab\_Init and Slab\_Reach have the same roles; the contract of
    the page allocator is a locale, which Kernel\_Mem interprets on the buddy allocator of the kernel.
    Slab\_Runs evaluates small runs, Memory\_Props has the properties.
  \<^item> Riscv has the macros of kernel/riscv.h, memlayout.h and param.h; Spinlock models kernel/spinlock.c, both as
    functions of one hart and as atomic steps of many harts; Kernel\_Mem models kernel/buddy_alloc.c,
    kernel/kalloc.c and kernel/slab_alloc.c.
  \<^item> Cstring models kernel/string.c and user/ulib.c, Printf kernel/printf.c and user/printf.c, User\_Io and
    Grep the programs user/cat.c, user/wc.c, user/echo.c and user/grep.c over an argument for the system calls.
    Cstring\_Lemmas, Printf\_Lemmas and Text\_Props show what they compute; \<open>match\<close> of grep is shown equal to the
    language a pattern denotes.
  \<^item> Proc models the part of kernel/proc.c that works on the process table, with \<open>sched\<close> and \<open>scheduler\<close> cut at
    \<open>swtch\<close>; Proc\_Sched interleaves the harts as a step relation, Proc\_Inv shows its invariant, Proc\_Props
    that no process runs on two harts and that \<open>sched\<close> never panics.
  \<^item> Vm models kernel/vm.c on page tables in physical memory; Vm\_Lemmas, Vm\_Tree, Vm\_Map and Vm\_Copy relate a
    page table to the map it represents, Vm\_Props has the properties.
  \<^item> Sleeplock, Bio, Log, Fs with Fs\_Files, and File model kernel/sleeplock.c, bio.c, log.c, fs.c, and file.c with
    pipe.c; Proc\_Life models the rest of proc.c (\<open>fork\<close>, \<open>exit\<close>, \<open>wait\<close> and what they call), Exec models
    exec.c, Sysfile models sysfile.c and the fetching of arguments in syscall.c.  Bio\_Lemmas and Bio\_Cache show
    that the buffer cache is a map from block numbers to contents; Log\_Disk, Log\_Ops, Log\_Run, Log\_Commit and
    Log\_Txn describe a commit and a recovery as the sequence of their disk writes; Log\_Props has the properties:
    a crash after any of the writes of a commit leaves a disk from which recovery gives all of the transaction
    or none of it, recovery can itself be cut off and repeated, and the writes of a transaction are seen by it
    and not by the disk.
  \<^item> Shell models user/sh.c, from the tokenizer to the interpreter; Shell\_Props shows that the parser returns for
    every line, that its result is well formed, and that the strings terminated in place read as the words
    of the line.

  \<^bold>\<open>What holds of the allocators.\<close>  Plain \<open>char\<close> is unsigned on RISC-V, so the kernel never sees a negative entry
  of the state table and never merges blocks; for this build no two blocks overlap, no assertion fails, and
  initialisation, allocation, release and the statistics do what their specifications say.  On a host where
  \<open>char\<close> is signed blocks are merged; \<open>remove_block\<close> and \<open>insert_block\<close> then lose blocks, index a list past the
  last level and reach two overlapping allocations, and the theorems give the runs.  The slab library is safe
  when cells are released whose page is first in its list; the theorems give runs outside of that where it
  dereferences null or indexes past its lists.

  \<^bold>\<open>Fuel and bounds.\<close>  Recursion is structural or has a termination proof, with these exceptions.  Loops that may
  not end (\<open>serv_pages\<close>, \<open>strlen\<close> and the like on memory without a NUL byte, loops of user programs around
  \<open>read\<close>) are \<open>None\<close> when they do not.  The functions of the shell's parser call each other, so they take
  fuel; \<open>parse_fuel\<close>, four times the length of the line plus four, is proved enough for every line, since
  between two tokens the parser nests at most four calls.  \<open>namex\<close>, \<open>bmap\<close>, \<open>fork\<close> and the other functions of the
  upper layers recurse over their path, block number or table and need none.

  \<^bold>\<open>Not modelled.\<close>  The code in assembly (entry.S, kernelvec.S, swtch.S, trampoline.S, initcode.S), whose effect
  appears only where C code relies on it; the drivers of the disk (virtio_disk.c, virtio.h and the unused
  ramdisk.c), which appear as the transfer of a block; mkfs.c, a host program
  that does file I/O only; the test programs usertests.c, grind.c, forktest.c and stressfs.c and the host tests
  under test/, which exercise the code and have no contract of their own.  Weak memory is not modelled:
  interleaving is at the granularity of lock operations, and above the process table a call is
  modelled as its caller sees it when no other process interferes.
\<close>

end
